(* ===== verification/Carbon_Prelude.thy ===== *)
theory Carbon_Prelude
  imports Main "HOL-Library.Word"
begin

text \<open>
  Shared vocabulary of the development: the machine types of the C sources, the
  way a C function is modelled (a function of the state that either stops the
  process or returns a value and the next state), the images of integers in
  memory, and list lemmas about reading and writing a stretch of bytes.
\<close>

named_theorems prog_simps
  \<open>evaluation of sequenced programs\<close>
named_theorems bytes_simps
  \<open>memory images of integers and structures\<close>

section \<open>Machine types\<close>

type_synonym byte = "8 word"
type_synonym u32 = "32 word"
type_synonym u64 = "64 word"

text \<open>
  The C type \<open>int\<close> is a HOL integer; a conversion to it from an \<open>uint32_t\<close> or from a
  wider result keeps the low 32 bits, read as two's complement.
\<close>

definition int32 :: "int \<Rightarrow> int" where
  "int32 i = sint (word_of_int i :: u32)"

lemma int32_id: "- (2 ^ 31) \<le> i \<Longrightarrow> i < 2 ^ 31 \<Longrightarrow> int32 i = i"
  by (simp add: int32_def sint_sbintrunc' signed_take_bit_int_eq_self)

lemma sint_u32_small: "unat (w :: u32) < 2 ^ 31 \<Longrightarrow> sint w = int (unat w)"
proof -
  assume "unat w < 2 ^ 31"
  then have "int (unat w) < int (2 ^ 31)" by (simp only: of_nat_less_iff)
  then have "uint w < 2 ^ 31" by simp
  moreover have "- (2 ^ 31) \<le> uint w" by (rule order_trans [OF _ uint_ge_0]) simp
  ultimately have "int32 (uint w) = uint w" by (rule int32_id [rotated])
  then show ?thesis by (simp add: int32_def)
qed

text \<open>Widening keeps the value, narrowing takes it modulo the width.\<close>

lemma unat_ucast_u64 [simp]: "unat (ucast (w :: u32) :: u64) = unat w"
proof -
  have "unat w < 2 ^ 32" by (rule order_less_le_trans [OF unsigned_less]) simp
  then show ?thesis by (simp add: unsigned_ucast_eq take_bit_nat_eq_self)
qed

lemma unat_ucast_u32 [simp]: "unat (ucast (w :: u64) :: u32) = unat w mod 2 ^ 32"
  by (simp add: unsigned_ucast_eq take_bit_eq_mod)

lemma unat_u32_less: "unat (w :: u32) < 2 ^ 32"
  by (rule order_less_le_trans [OF unsigned_less]) simp

section \<open>Programs\<close>

text \<open>
  What ends the process: a null pointer dereference, an integer division by
  zero, a write past the end of a heap block or of an array on the stack, a read
  outside an object, a read of memory that was never written, a use of a freed
  object, a failed \<open>assert\<close>, a call of \<open>exit\<close>, and a walk along a list that has no end.
\<close>

datatype stop = NullDeref | DivByZero | HeapOverflow | StackOverflow | OutOfBounds
  | UninitRead | UseAfterFree | AssertFailed | Exit int | Endless

type_synonym ('s, 'a) prog = "'s \<Rightarrow> stop + 'a \<times> 's"

definition ret :: "'a \<Rightarrow> ('s, 'a) prog" where
  "ret a = (\<lambda>s. Inr (a, s))"

definition halt :: "stop \<Rightarrow> ('s, 'a) prog" where
  "halt e = (\<lambda>s. Inl e)"

definition andthen :: "('s, 'a) prog \<Rightarrow> ('a \<Rightarrow> ('s, 'b) prog) \<Rightarrow> ('s, 'b) prog" where
  "andthen m k = (\<lambda>s. case m s of Inl e \<Rightarrow> Inl e | Inr (a, s') \<Rightarrow> k a s')"

text \<open>A computation without state: it stops the process or gives a value.\<close>

definition pure_prog :: "stop + 'a \<Rightarrow> ('s, 'a) prog" where
  "pure_prog r = (\<lambda>s. case r of Inl e \<Rightarrow> Inl e | Inr a \<Rightarrow> Inr (a, s))"

definition bind_sum :: "stop + 'a \<Rightarrow> ('a \<Rightarrow> stop + 'b) \<Rightarrow> stop + 'b" where
  "bind_sum r k = (case r of Inl e \<Rightarrow> Inl e | Inr a \<Rightarrow> k a)"

lemma andthen_assoc: "andthen (andthen f g) h = andthen f (\<lambda>x. andthen (g x) h)"
  by (auto simp: andthen_def fun_eq_iff split: sum.splits)

lemma ret_apply [simp, prog_simps]: "ret a s = Inr (a, s)"
  by (simp add: ret_def)

lemma halt_apply [simp, prog_simps]: "halt e s = Inl e"
  by (simp add: halt_def)

lemma andthen_Inr [prog_simps]: "m s = Inr (a, s') \<Longrightarrow> andthen m k s = k a s'"
  by (simp add: andthen_def)

lemma andthen_Inl [prog_simps]: "m s = Inl e \<Longrightarrow> andthen m k s = Inl e"
  by (simp add: andthen_def)

lemma andthen_eq_Inr:
  "andthen m k s = Inr (b, t) \<longleftrightarrow> (\<exists>a s'. m s = Inr (a, s') \<and> k a s' = Inr (b, t))"
  by (auto simp: andthen_def split: sum.splits prod.splits)

lemma andthen_ret_left [simp]: "andthen (ret a) k = k a"
  by (simp add: andthen_def ret_def)

lemma andthen_halt [simp]: "andthen (halt e) k = halt e"
  by (simp add: andthen_def halt_def)

lemma pure_prog_Inr [simp]: "pure_prog (Inr a) = ret a"
  by (simp add: pure_prog_def ret_def)

lemma pure_prog_Inl [simp]: "pure_prog (Inl e) = halt e"
  by (simp add: pure_prog_def halt_def)

lemma bind_sum_simps [simp]: "bind_sum (Inl e) k = Inl e" "bind_sum (Inr a) k = k a"
  by (simp_all add: bind_sum_def)

section \<open>Reading and writing a stretch of a list\<close>

text \<open>
  \<open>write_at pos bs xs\<close> stores \<open>bs\<close> from index \<open>pos\<close> on; a gap between the end of the
  list and \<open>pos\<close> is filled with zeros, as in a file written past its end.
\<close>

definition write_at :: "nat \<Rightarrow> byte list \<Rightarrow> byte list \<Rightarrow> byte list" where
  "write_at pos bs xs =
     take pos (xs @ replicate (pos - length xs) 0) @ bs @ drop (pos + length bs) xs"

definition read_at :: "nat \<Rightarrow> nat \<Rightarrow> byte list \<Rightarrow> byte list" where
  "read_at pos n xs = take n (drop pos xs)"

text \<open>The content of a zeroed buffer of \<open>n\<close> bytes after \<open>bs\<close> was read into it.\<close>

definition zero_pad :: "nat \<Rightarrow> byte list \<Rightarrow> byte list" where
  "zero_pad n bs = take n (bs @ replicate n 0)"

lemma length_zero_pad [simp]: "length (zero_pad n bs) = n"
  by (simp add: zero_pad_def)

lemma zero_pad_full [simp]: "length bs = n \<Longrightarrow> zero_pad n bs = bs"
  by (simp add: zero_pad_def)

lemma length_write_at: "length (write_at pos bs xs) = max (length xs) (pos + length bs)"
  by (auto simp: write_at_def)

lemma length_write_at_inside [simp]:
  "pos + length bs \<le> length xs \<Longrightarrow> length (write_at pos bs xs) = length xs"
  by (simp add: length_write_at)

lemma write_at_inside:
  "pos \<le> length xs \<Longrightarrow> write_at pos bs xs = take pos xs @ bs @ drop (pos + length bs) xs"
  by (simp add: write_at_def)

lemma write_at_end [simp]: "write_at (length xs) bs xs = xs @ bs"
  by (simp add: write_at_def)

lemma length_read_at: "length (read_at pos n xs) = min n (length xs - pos)"
  by (simp add: read_at_def)

lemma length_read_at_inside [simp]: "pos + n \<le> length xs \<Longrightarrow> length (read_at pos n xs) = n"
  by (simp add: length_read_at)

lemma read_write_same [simp]:
  "length bs = n \<Longrightarrow> read_at pos n (write_at pos bs xs) = bs"
  by (simp add: read_at_def write_at_def)

lemma nth_write_at:
  "i < max (length xs) (pos + length bs) \<Longrightarrow>
   write_at pos bs xs ! i =
     (if pos \<le> i \<and> i < pos + length bs then bs ! (i - pos)
      else if i < length xs then xs ! i else 0)"
  by (auto simp: write_at_def nth_append min_def)

lemma read_write_apart:
  assumes "p + n \<le> length xs" and "p + n \<le> pos \<or> pos + length bs \<le> p"
  shows "read_at p n (write_at pos bs xs) = read_at p n xs"
proof (rule nth_equalityI)
  show "length (read_at p n (write_at pos bs xs)) = length (read_at p n xs)"
    using assms(1) by (simp add: length_read_at length_write_at)
next
  fix i
  assume "i < length (read_at p n (write_at pos bs xs))"
  then have i: "i < n" by (simp add: length_read_at)
  with assms show "read_at p n (write_at pos bs xs) ! i = read_at p n xs ! i"
    by (auto simp: read_at_def nth_write_at length_write_at)
qed

lemma read_at_append1 [simp]: "p + n \<le> length xs \<Longrightarrow> read_at p n (xs @ ys) = read_at p n xs"
  by (simp add: read_at_def)

lemma read_at_append2:
  "p = length xs + q \<Longrightarrow> read_at p n (xs @ ys) = read_at q n ys"
  by (simp add: read_at_def)

lemma read_at_whole [simp]: "length xs = n \<Longrightarrow> read_at 0 n xs = xs"
  by (simp add: read_at_def)

lemma read_at_replicate: "p + n \<le> m \<Longrightarrow> read_at p n (replicate m x) = replicate n x"
  by (simp add: read_at_def)

section \<open>Memory images of integers\<close>

text \<open>
  \<open>store_le\<close> and \<open>load_le\<close> give the bytes of an integer in memory, least significant
  byte first, and read them back. A host stores integers in this order or in the
  reverse one; \<open>bswap\<close> exchanges the two.
\<close>

datatype host_order = LittleEndian | BigEndian

fun store_le :: "nat \<Rightarrow> 'w::len word \<Rightarrow> byte list" where
  "store_le 0 w = []"
| "store_le (Suc n) w = ucast w # store_le n (drop_bit 8 w)"

fun load_le :: "byte list \<Rightarrow> 'w::len word" where
  "load_le [] = 0"
| "load_le (b # bs) = or (ucast b) (push_bit 8 (load_le bs))"

definition store :: "host_order \<Rightarrow> nat \<Rightarrow> 'w::len word \<Rightarrow> byte list" where
  "store ho n w = (case ho of LittleEndian \<Rightarrow> store_le n w | BigEndian \<Rightarrow> rev (store_le n w))"

definition load :: "host_order \<Rightarrow> byte list \<Rightarrow> 'w::len word" where
  "load ho bs = (case ho of LittleEndian \<Rightarrow> load_le bs | BigEndian \<Rightarrow> load_le (rev bs))"

definition bswap :: "nat \<Rightarrow> 'w::len word \<Rightarrow> 'w word" where
  "bswap n w = load_le (rev (store_le n w))"

lemma length_store_le [simp, bytes_simps]: "length (store_le n w) = n"
  by (induction n arbitrary: w) simp_all

lemma length_store [simp, bytes_simps]: "length (store ho n w) = n"
  by (cases ho) (simp_all add: store_def)

lemma bit_load_le: "bit (load_le bs :: 'w::len word) k \<Longrightarrow> k < 8 * length bs"
proof (induction bs arbitrary: k)
  case Nil
  then show ?case by simp
next
  case (Cons b bs)
  then have "bit (ucast b :: 'w word) k \<or> bit (push_bit 8 (load_le bs) :: 'w word) k"
    by (simp add: bit_or_iff)
  then show ?case
  proof
    assume "bit (ucast b :: 'w word) k"
    then have "bit b k" by (simp add: bit_ucast_iff)
    then have "k < 8" using bit_imp_le_length by force
    then show ?thesis by simp
  next
    assume "bit (push_bit 8 (load_le bs) :: 'w word) k"
    then have "8 \<le> k" and "bit (load_le bs :: 'w word) (k - 8)"
      by (auto simp: bit_push_bit_iff)
    with Cons.IH [of "k - 8"] show ?thesis by simp
  qed
qed

lemma load_le_store_le: "load_le (store_le n w) = take_bit (8 * n) (w :: 'w::len word)"
proof (induction n arbitrary: w)
  case 0
  then show ?case by simp
next
  case (Suc n)
  have "load_le (store_le (Suc n) w) =
      or (ucast (ucast w :: byte)) (push_bit 8 (take_bit (8 * n) (drop_bit 8 w)))"
    by (simp add: Suc.IH)
  also have "\<dots> = take_bit (8 * Suc n) w"
    by (rule bit_word_eqI)
      (auto simp: bit_or_iff bit_ucast_iff bit_push_bit_iff bit_take_bit_iff bit_drop_bit_eq)
  finally show ?case .
qed

lemma store_le_load_le:
  "8 * length bs \<le> LENGTH('w) \<Longrightarrow> store_le (length bs) (load_le bs :: 'w::len word) = bs"
proof (induction bs)
  case Nil
  then show ?case by simp
next
  case (Cons b bs)
  let ?r = "load_le bs :: 'w word"
  have len: "8 + 8 * length bs \<le> LENGTH('w)" using Cons.prems by simp
  have "ucast (or (ucast b) (push_bit 8 ?r)) = b"
    using len by (intro bit_word_eqI)
      (auto simp: bit_or_iff bit_ucast_iff bit_push_bit_iff dest: bit_imp_le_length)
  moreover have "drop_bit 8 (or (ucast b) (push_bit 8 ?r)) = ?r"
    using len by (intro bit_word_eqI)
      (auto simp: bit_or_iff bit_ucast_iff bit_push_bit_iff bit_drop_bit_eq
        dest: bit_imp_le_length bit_load_le)
  moreover have "store_le (length bs) ?r = bs"
    using Cons by simp
  ultimately show ?case by simp
qed

lemma take_bit_width: "LENGTH('w) = n \<Longrightarrow> take_bit n w = (w :: 'w::len word)"
  by (rule bit_word_eqI) (auto simp: bit_take_bit_iff)

lemma load_store [simp, bytes_simps]:
  "LENGTH('w) = 8 * n \<Longrightarrow> load ho (store ho n w) = (w :: 'w::len word)"
  by (cases ho) (simp_all add: load_def store_def load_le_store_le take_bit_width)

lemma store_load [simp, bytes_simps]:
  "length bs = n \<Longrightarrow> LENGTH('w) = 8 * n \<Longrightarrow> store ho n (load ho bs :: 'w::len word) = bs"
  using store_le_load_le [of bs, where 'w = 'w] store_le_load_le [of "rev bs", where 'w = 'w]
  by (cases ho) (auto simp: load_def store_def)

lemma store_le_bswap:
  "LENGTH('w) = 8 * n \<Longrightarrow> store_le n (bswap n w) = rev (store_le n (w :: 'w::len word))"
  using store_le_load_le [of "rev (store_le n w)", where 'w = 'w] by (simp add: bswap_def)

lemma bswap_bswap: "LENGTH('w) = 8 * n \<Longrightarrow> bswap n (bswap n w) = (w :: 'w::len word)"
  by (simp add: bswap_def [of n "bswap n w"] store_le_bswap load_le_store_le take_bit_width)

lemma load_le_zeros [simp, bytes_simps]: "load_le (replicate n 0) = 0"
  by (induction n) simp_all

lemma load_zeros [simp, bytes_simps]: "load ho (replicate n 0) = 0"
  by (cases ho) (simp_all add: load_def)

lemma store_le_zero [simp]: "store_le n 0 = replicate n 0"
  by (induction n) simp_all

lemma bswap_zero [simp, bytes_simps]: "bswap n 0 = 0"
  by (simp add: bswap_def)

end
