(* ===== verification/Posix_Files.thy ===== *)
theory Posix_Files
  imports Carbon_Prelude
begin

text \<open>
  The file calls of the sources: \<open>open\<close>, \<open>read\<close>, \<open>write\<close>, \<open>lseek\<close>, \<open>close\<close>, \<open>stat\<close> and
  \<open>mkdir\<close>, over a state that holds the regular files with their bytes, the
  directories and the table of open descriptors. Failures that come from outside
  the program (a full disk, a missing permission, an I/O error, a short transfer)
  are a script \<open>fs_faults\<close>: each call takes the head of the script, and an exhausted
  script means that nothing more goes wrong. Every operation is defined on record
  schemes, so the states of the later theories extend this one.
\<close>

named_theorems posix_simps
  \<open>evaluation of file calls that meet no fault\<close>

section \<open>State\<close>

type_synonym path = "string list"

datatype errno_t = ENOENT | EISDIR | ENOTDIR | EEXIST | EBADF | EINVAL | EFAULT | EIO
  | ENOSPC | EACCES | EMFILE | EINTR | EAGAIN

datatype fault = NoFault | Fail errno_t | Short nat

record open_file =
  of_path :: path
  of_pos :: nat

record fsys =
  fs_files :: "path \<rightharpoonup> byte list"
  fs_dirs :: "path \<Rightarrow> bool"
  fs_fds :: "open_file option list"
  fs_faults :: "fault list"
  fs_errno :: errno_t

text \<open>
  A path name as its components: empty components and \<open>.\<close> name the directory they
  stand in. The process keeps one working directory, so a relative name and the
  same name from the root are not told apart.
\<close>

fun split_on :: "char \<Rightarrow> string \<Rightarrow> string list" where
  "split_on c [] = [[]]"
| "split_on c (x # xs) =
     (if x = c then [] # split_on c xs
      else (case split_on c xs of [] \<Rightarrow> [[x]] | y # ys \<Rightarrow> (x # y) # ys))"

definition components :: "string \<Rightarrow> path" where
  "components s = filter (\<lambda>c. c \<noteq> [] \<and> c \<noteq> ''.'') (split_on CHR ''/'' s)"

text \<open>A strict prefix of the path is a regular file.\<close>

definition through_file :: "'a fsys_scheme \<Rightarrow> path \<Rightarrow> bool" where
  "through_file s p = list_ex (\<lambda>k. fs_files s (take k p) \<noteq> None) [1..<length p]"

definition lookup_fd :: "'a fsys_scheme \<Rightarrow> int \<Rightarrow> open_file option" where
  "lookup_fd s fd =
     (if fd < 0 \<or> length (fs_fds s) \<le> nat fd then None else fs_fds s ! nat fd)"

section \<open>Calls\<close>

definition next_fault :: "('a fsys_scheme, fault) prog" where
  "next_fault = (\<lambda>s. case fs_faults s of [] \<Rightarrow> Inr (NoFault, s)
                     | f # fs \<Rightarrow> Inr (f, s\<lparr>fs_faults := fs\<rparr>))"

definition fails :: "errno_t \<Rightarrow> ('a fsys_scheme, int) prog" where
  "fails e = (\<lambda>s. Inr (-1, s\<lparr>fs_errno := e\<rparr>))"

text \<open>The lowest free descriptor.\<close>

fun alloc_fd :: "open_file option list \<Rightarrow> open_file \<Rightarrow> nat \<times> open_file option list" where
  "alloc_fd [] f = (0, [Some f])"
| "alloc_fd (None # t) f = (0, Some f # t)"
| "alloc_fd (Some g # t) f = (case alloc_fd t f of (n, t') \<Rightarrow> (Suc n, Some g # t'))"

definition new_fd :: "path \<Rightarrow> ('a fsys_scheme, int) prog" where
  "new_fd p = (\<lambda>s. case alloc_fd (fs_fds s) \<lparr>of_path = p, of_pos = 0\<rparr> of
                     (n, t) \<Rightarrow> Inr (int n, s\<lparr>fs_fds := t\<rparr>))"

text \<open>\<open>open(name, O_RDWR)\<close>, and \<open>open(name, O_RDWR|O_CREAT, mode)\<close> when \<open>creat\<close>.\<close>

definition posix_open :: "string \<Rightarrow> bool \<Rightarrow> ('a fsys_scheme, int) prog" where
  "posix_open name creat =
     andthen next_fault (\<lambda>f. case f of
       Fail e \<Rightarrow> fails e
     | _ \<Rightarrow> (\<lambda>s. let p = components name in
         if name = [] then fails ENOENT s
         else if fs_dirs s p then fails EISDIR s
         else if fs_files s p \<noteq> None then new_fd p s
         else if through_file s p then fails ENOTDIR s
         else if creat \<and> fs_dirs s (butlast p)
           then new_fd p (s\<lparr>fs_files := (fs_files s)(p \<mapsto> [])\<rparr>)
         else fails ENOENT s))"

definition posix_close :: "int \<Rightarrow> ('a fsys_scheme, int) prog" where
  "posix_close fd = (\<lambda>s. case lookup_fd s fd of
       None \<Rightarrow> fails EBADF s
     | Some _ \<Rightarrow> Inr (0, s\<lparr>fs_fds := (fs_fds s)[nat fd := None]\<rparr>))"

definition set_pos :: "int \<Rightarrow> open_file \<Rightarrow> nat \<Rightarrow> 'a fsys_scheme \<Rightarrow> 'a fsys_scheme" where
  "set_pos fd f n s = s\<lparr>fs_fds := (fs_fds s)[nat fd := Some (f\<lparr>of_pos := n\<rparr>)]\<rparr>"

text \<open>\<open>lseek(fd, off, SEEK_SET)\<close>.\<close>

definition posix_lseek :: "int \<Rightarrow> int \<Rightarrow> ('a fsys_scheme, int) prog" where
  "posix_lseek fd off =
     andthen next_fault (\<lambda>f. case f of
       Fail e \<Rightarrow> fails e
     | _ \<Rightarrow> (\<lambda>s. case lookup_fd s fd of
         None \<Rightarrow> fails EBADF s
       | Some h \<Rightarrow> if off < 0 then fails EINVAL s else Inr (off, set_pos fd h (nat off) s)))"

text \<open>How much of \<open>n\<close> bytes a transfer moves: a fault may cut it short.\<close>

definition transfer :: "fault \<Rightarrow> nat \<Rightarrow> nat" where
  "transfer f n = (case f of Short k \<Rightarrow> min k n | _ \<Rightarrow> n)"

text \<open>
  \<open>read(fd, buf, n)\<close>: the result of the call and the bytes it put into the buffer. A
  count beyond \<open>SSIZE_MAX\<close> leaves the address space and fails.
\<close>

definition posix_read :: "int \<Rightarrow> nat \<Rightarrow> ('a fsys_scheme, int \<times> byte list) prog" where
  "posix_read fd n =
     andthen next_fault (\<lambda>f. case f of
       Fail e \<Rightarrow> andthen (fails e) (\<lambda>r. ret (r, []))
     | _ \<Rightarrow> (\<lambda>s. case lookup_fd s fd of
         None \<Rightarrow> andthen (fails EBADF) (\<lambda>r. ret (r, [])) s
       | Some h \<Rightarrow>
           if 2 ^ 63 \<le> n then andthen (fails EFAULT) (\<lambda>r. ret (r, [])) s
           else (case fs_files s (of_path h) of
             None \<Rightarrow> andthen (fails EIO) (\<lambda>r. ret (r, [])) s
           | Some c \<Rightarrow> (let bs = read_at (of_pos h) (transfer f n) c
                        in Inr ((int (length bs), bs), set_pos fd h (of_pos h + length bs) s)))))"

text \<open>\<open>write(fd, buf, n)\<close> of the bytes \<open>bs\<close>.\<close>

definition posix_write :: "int \<Rightarrow> byte list \<Rightarrow> ('a fsys_scheme, int) prog" where
  "posix_write fd bs =
     andthen next_fault (\<lambda>f. case f of
       Fail e \<Rightarrow> fails e
     | _ \<Rightarrow> (\<lambda>s. case lookup_fd s fd of
         None \<Rightarrow> fails EBADF s
       | Some h \<Rightarrow> (case fs_files s (of_path h) of
             None \<Rightarrow> fails EIO s
           | Some c \<Rightarrow> (let bs' = take (transfer f (length bs)) bs
                        in Inr (int (length bs'),
                             set_pos fd h (of_pos h + length bs')
                               (s\<lparr>fs_files := (fs_files s)(of_path h \<mapsto>
                                     write_at (of_pos h) bs' c)\<rparr>))))))"

text \<open>\<open>stat(name, &s)\<close>: the result, and whether the object is a directory.\<close>

definition posix_stat :: "string \<Rightarrow> ('a fsys_scheme, int \<times> bool) prog" where
  "posix_stat name =
     andthen next_fault (\<lambda>f. case f of
       Fail e \<Rightarrow> andthen (fails e) (\<lambda>r. ret (r, False))
     | _ \<Rightarrow> (\<lambda>s. let p = components name in
         if name = [] then andthen (fails ENOENT) (\<lambda>r. ret (r, False)) s
         else if fs_dirs s p then Inr ((0, True), s)
         else if fs_files s p \<noteq> None then Inr ((0, False), s)
         else if through_file s p then andthen (fails ENOTDIR) (\<lambda>r. ret (r, False)) s
         else andthen (fails ENOENT) (\<lambda>r. ret (r, False)) s))"

definition posix_mkdir :: "string \<Rightarrow> ('a fsys_scheme, int) prog" where
  "posix_mkdir name =
     andthen next_fault (\<lambda>f. case f of
       Fail e \<Rightarrow> fails e
     | _ \<Rightarrow> (\<lambda>s. let p = components name in
         if name = [] then fails ENOENT s
         else if fs_dirs s p \<or> fs_files s p \<noteq> None then fails EEXIST s
         else if through_file s p then fails ENOTDIR s
         else if \<not> fs_dirs s (butlast p) then fails ENOENT s
         else Inr (0, s\<lparr>fs_dirs := (fs_dirs s)(p := True)\<rparr>)))"

section \<open>An open file as a position and its bytes\<close>

text \<open>
  \<open>fd_ok s fd\<close>: the descriptor has a place in the table and no fault is scripted. In
  such a state \<open>fview fd p n c s\<close> is the state \<open>s\<close> in which the descriptor stands at
  position \<open>n\<close> of the file \<open>p\<close> with the bytes \<open>c\<close>. The calls map such views to such
  views, which is how the whisper operations are evaluated.
\<close>

definition fd_ok :: "'a fsys_scheme \<Rightarrow> int \<Rightarrow> bool" where
  "fd_ok s fd \<longleftrightarrow> 0 \<le> fd \<and> nat fd < length (fs_fds s) \<and> fs_faults s = []"

definition fview :: "int \<Rightarrow> path \<Rightarrow> nat \<Rightarrow> byte list \<Rightarrow> 'a fsys_scheme \<Rightarrow> 'a fsys_scheme" where
  "fview fd p n c s =
     s\<lparr>fs_files := (fs_files s)(p \<mapsto> c),
       fs_fds := (fs_fds s)[nat fd := Some \<lparr>of_path = p, of_pos = n\<rparr>]\<rparr>"

lemma fd_ok_fview [simp]: "fd_ok (fview fd' p n c s) fd = fd_ok s fd"
  by (simp add: fd_ok_def fview_def)

lemma fview_fview [simp]: "fview fd p n c (fview fd p n' c' s) = fview fd p n c s"
  by (simp add: fview_def)

lemma fs_files_fview [simp]: "fs_files (fview fd p n c s) = (fs_files s)(p \<mapsto> c)"
  by (simp add: fview_def)

lemma fs_dirs_fview [simp]: "fs_dirs (fview fd p n c s) = fs_dirs s"
  by (simp add: fview_def)

lemma fs_faults_fview [simp]: "fs_faults (fview fd p n c s) = fs_faults s"
  by (simp add: fview_def)

lemma lookup_fd_fview [simp]:
  "fd_ok s fd \<Longrightarrow> lookup_fd (fview fd p n c s) fd = Some \<lparr>of_path = p, of_pos = n\<rparr>"
  by (simp add: fd_ok_def fview_def lookup_fd_def)

lemma next_fault_none [prog_simps]: "fs_faults s = [] \<Longrightarrow> next_fault s = Inr (NoFault, s)"
  by (simp add: next_fault_def)

lemma fd_ok_faults: "fd_ok s fd \<Longrightarrow> fs_faults s = []"
  by (simp add: fd_ok_def)

lemma set_pos_fview:
  "set_pos fd \<lparr>of_path = p, of_pos = n\<rparr> m (fview fd p n' c s) = fview fd p m c s"
  by (simp add: set_pos_def fview_def)

lemma lseek_fview [posix_simps]:
  "fd_ok s fd \<Longrightarrow> 0 \<le> off \<Longrightarrow>
   posix_lseek fd off (fview fd p n c s) = Inr (off, fview fd p (nat off) c s)"
  by (simp add: posix_lseek_def andthen_def next_fault_none fd_ok_faults set_pos_fview)

lemma read_fview [posix_simps]:
  "fd_ok s fd \<Longrightarrow> k < 2 ^ 63 \<Longrightarrow>
   posix_read fd k (fview fd p n c s) =
     Inr ((int (length (read_at n k c)), read_at n k c),
          fview fd p (n + length (read_at n k c)) c s)"
  by (simp add: posix_read_def andthen_def next_fault_none fd_ok_faults set_pos_fview
      transfer_def Let_def)

lemma write_fview [posix_simps]:
  "fd_ok s fd \<Longrightarrow>
   posix_write fd bs (fview fd p n c s) =
     Inr (int (length bs), fview fd p (n + length bs) (write_at n bs c) s)"
  by (simp add: posix_write_def andthen_def next_fault_none fd_ok_faults transfer_def Let_def)
    (simp add: set_pos_def fview_def)

lemma close_fview [posix_simps]:
  "fd_ok s fd \<Longrightarrow>
   posix_close fd (fview fd p n c s) =
     Inr (0, s\<lparr>fs_files := (fs_files s)(p \<mapsto> c), fs_fds := (fs_fds s)[nat fd := None]\<rparr>)"
  by (simp add: posix_close_def) (simp add: fview_def)

text \<open>A bad descriptor makes every call fail.\<close>

lemma lseek_negative [posix_simps]:
  "fs_faults s = [] \<Longrightarrow> fd < 0 \<Longrightarrow> posix_lseek fd off s = Inr (-1, s\<lparr>fs_errno := EBADF\<rparr>)"
  by (simp add: posix_lseek_def andthen_def next_fault_none lookup_fd_def fails_def)

section \<open>Opening\<close>

lemma alloc_fd_spec:
  "alloc_fd t f = (n, t') \<Longrightarrow>
     n < length t' \<and> t' ! n = Some f \<and> (n < length t \<longrightarrow> t ! n = None) \<and>
     length t \<le> length t' \<and> t' = (t @ replicate (length t' - length t) None)[n := Some f]"
proof (induction t f arbitrary: n t' rule: alloc_fd.induct)
  case (3 g t f)
  obtain m u where mu: "alloc_fd t f = (m, u)" by fastforce
  with 3 show ?case by (auto split: prod.splits)
qed auto

lemma open_existing:
  assumes "fs_faults s = []" "name \<noteq> []" "\<not> fs_dirs s (components name)"
    "fs_files s (components name) = Some c"
    "alloc_fd (fs_fds s) \<lparr>of_path = components name, of_pos = 0\<rparr> = (n, t)"
  shows "posix_open name creat s =
           Inr (int n, fview (int n) (components name) 0 c (s\<lparr>fs_fds := t\<rparr>))"
    and "fd_ok (s\<lparr>fs_fds := t\<rparr>) (int n)"
proof -
  have t: "n < length t" "t ! n = Some \<lparr>of_path = components name, of_pos = 0\<rparr>"
    using alloc_fd_spec [OF assms(5)] by auto
  then have t': "t[n := Some \<lparr>of_path = components name, of_pos = 0\<rparr>] = t"
    by (metis list_update_id)
  show "fd_ok (s\<lparr>fs_fds := t\<rparr>) (int n)"
    using t assms(1) by (simp add: fd_ok_def)
  have "(fs_files s)(components name \<mapsto> c) = fs_files s"
    using assms(4) by (simp add: fun_upd_idem)
  then have "fview (int n) (components name) 0 c (s\<lparr>fs_fds := t\<rparr>) = s\<lparr>fs_fds := t\<rparr>"
    using t' by (simp add: fview_def)
  with assms show "posix_open name creat s =
      Inr (int n, fview (int n) (components name) 0 c (s\<lparr>fs_fds := t\<rparr>))"
    by (simp add: posix_open_def andthen_def next_fault_none new_fd_def Let_def)
qed

lemma open_create:
  assumes "fs_faults s = []" "name \<noteq> []" "\<not> fs_dirs s (components name)"
    "fs_files s (components name) = None" "\<not> through_file s (components name)"
    "fs_dirs s (butlast (components name))"
    "alloc_fd (fs_fds s) \<lparr>of_path = components name, of_pos = 0\<rparr> = (n, t)"
  shows "posix_open name True s =
           Inr (int n, fview (int n) (components name) 0 [] (s\<lparr>fs_fds := t\<rparr>))"
    and "fd_ok (s\<lparr>fs_fds := t\<rparr>) (int n)"
proof -
  have t: "n < length t" "t ! n = Some \<lparr>of_path = components name, of_pos = 0\<rparr>"
    using alloc_fd_spec [OF assms(7)] by auto
  then have t': "t[n := Some \<lparr>of_path = components name, of_pos = 0\<rparr>] = t"
    by (metis list_update_id)
  show "fd_ok (s\<lparr>fs_fds := t\<rparr>) (int n)"
    using t assms(1) by (simp add: fd_ok_def)
  show "posix_open name True s =
      Inr (int n, fview (int n) (components name) 0 [] (s\<lparr>fs_fds := t\<rparr>))"
    using assms t' by (simp add: posix_open_def andthen_def next_fault_none new_fd_def Let_def fview_def)
qed

lemma open_missing:
  assumes "fs_faults s = []" "\<not> fs_dirs s (components name)"
    "fs_files s (components name) = None" "\<not> through_file s (components name)"
  shows "posix_open name False s = Inr (-1, s\<lparr>fs_errno := ENOENT\<rparr>)"
  using assms by (simp add: posix_open_def andthen_def next_fault_none fails_def Let_def)

text \<open>Closing gives back the descriptor table that was there before the file was opened.\<close>

lemma lookup_fd_closed:
  assumes "alloc_fd (fs_fds s) f = (n, t)" and "fs_fds s' = t[n := None]"
  shows "lookup_fd s' fd = lookup_fd s fd"
proof -
  define k where "k = length t - length (fs_fds s)"
  have spec: "n < length t" "length (fs_fds s) \<le> length t"
    "n < length (fs_fds s) \<longrightarrow> fs_fds s ! n = None"
    "t = (fs_fds s @ replicate k None)[n := Some f]"
    using alloc_fd_spec [OF assms(1)] by (auto simp: k_def)
  have "t[n := None] = (fs_fds s @ replicate k None)[n := None]"
    by (subst spec(4)) simp
  also have "\<dots> = fs_fds s @ replicate k None"
    using spec(1,2,3) by (intro list_update_same_conv [THEN iffD2]) (auto simp: nth_append k_def)
  finally show ?thesis
    using assms(2) spec(2) by (auto simp: lookup_fd_def nth_append)
qed

section \<open>Path names\<close>

lemma split_on_nonempty [simp]: "split_on c s \<noteq> []"
  by (induction s) (auto split: list.splits)

lemma split_on_append: "split_on c (a @ c # b) = split_on c a @ split_on c b"
proof (induction a)
  case (Cons x a)
  then show ?case
    by (cases "split_on c a") (auto simp: Cons_eq_append_conv split: list.splits)
qed simp

lemma split_on_single: "c \<notin> set t \<Longrightarrow> split_on c t = [t]"
  by (induction t) auto

lemma components_append: "components (a @ ''/'' @ b) = components a @ components b"
  using split_on_append [of "CHR ''/''" a b] by (simp add: components_def)

text \<open>A name that is one component of a path.\<close>

definition simple_name :: "string \<Rightarrow> bool" where
  "simple_name t \<longleftrightarrow> t \<noteq> [] \<and> t \<noteq> ''.'' \<and> CHR ''/'' \<notin> set t"

lemma components_simple: "simple_name t \<Longrightarrow> components t = [t]"
  by (simp add: simple_name_def components_def split_on_single)

section \<open>Making directories\<close>

text \<open>No prefix of the path is a regular file.\<close>

definition clear_path :: "'a fsys_scheme \<Rightarrow> path \<Rightarrow> bool" where
  "clear_path s p \<longleftrightarrow> (\<forall>k. 0 < k \<longrightarrow> k \<le> length p \<longrightarrow> fs_files s (take k p) = None)"

text \<open>The states differ in the directories of \<open>D\<close> and in \<open>errno\<close> only.\<close>

definition dirs_added :: "'a fsys_scheme \<Rightarrow> path set \<Rightarrow> 'a fsys_scheme \<Rightarrow> bool" where
  "dirs_added s D s' \<longleftrightarrow>
     (\<exists>e. s' = s\<lparr>fs_dirs := (\<lambda>q. fs_dirs s q \<or> q \<in> D), fs_errno := e\<rparr>)"

lemma clear_path_through: "clear_path s p \<Longrightarrow> \<not> through_file s p"
  by (auto simp: clear_path_def through_file_def list_ex_iff)

lemma clear_path_butlast: "clear_path s (butlast p) \<Longrightarrow> \<not> through_file s p"
  by (auto simp: clear_path_def through_file_def list_ex_iff take_butlast)

lemma clear_path_take: "clear_path s p \<Longrightarrow> clear_path s (take k p)"
  by (auto simp: clear_path_def min_def)

lemma clear_path_files: "p \<noteq> [] \<Longrightarrow> clear_path s p \<Longrightarrow> fs_files s p = None"
  by (force simp: clear_path_def)

lemma dirs_added_trans:
  "dirs_added s D s1 \<Longrightarrow> dirs_added s1 E s2 \<Longrightarrow> dirs_added s (D \<union> E) s2"
  unfolding dirs_added_def by (force simp: fun_eq_iff disj_assoc)

lemma dirs_added_simps:
  assumes "dirs_added s D s1"
  shows "fs_files s1 = fs_files s" "fs_fds s1 = fs_fds s" "fs_faults s1 = fs_faults s"
    "fs_dirs s1 q \<longleftrightarrow> fs_dirs s q \<or> q \<in> D" "clear_path s1 p \<longleftrightarrow> clear_path s p"
  using assms by (auto simp: dirs_added_def clear_path_def)

lemma dirs_added_refl: "(\<And>q. q \<in> D \<Longrightarrow> fs_dirs s q) \<Longrightarrow> dirs_added s D s"
proof -
  assume "\<And>q. q \<in> D \<Longrightarrow> fs_dirs s q"
  then have "(\<lambda>q. fs_dirs s q \<or> q \<in> D) = fs_dirs s" by blast
  then show ?thesis unfolding dirs_added_def by (intro exI [of _ "fs_errno s"]) simp
qed

lemma dirs_added_empty [simp]: "dirs_added s {} s"
  by (rule dirs_added_refl) simp

end
