(* ===== verification/C_Float.thy ===== *)
theory C_Float
  imports Carbon_Prelude
begin

text \<open>
  The C types \<open>float\<close> and \<open>double\<close> as their IEEE 754 bit patterns, with the operations
  the sources use: addition, division, comparison, the conversions from unsigned
  integers and from a decimal fraction. Every operation computes the exact result
  and rounds it once, to nearest, ties to even. An invalid operation gives the
  pattern the x86-64 processors give, and a NaN operand is passed on, made quiet.
\<close>

named_theorems float_simps
  \<open>evaluation of floating-point operations on exact integers\<close>

type_synonym cfloat = u32
type_synonym cdouble = u64

section \<open>Rounding\<close>

fun nbits :: "nat \<Rightarrow> nat" where
  "nbits n = (if n = 0 then 0 else Suc (nbits (n div 2)))"

declare nbits.simps [simp del]

text \<open>\<open>le_scaled a b c\<close> is \<open>a * 2 ^ c \<le> b\<close>, for an exponent of either sign.\<close>

definition le_scaled :: "nat \<Rightarrow> nat \<Rightarrow> int \<Rightarrow> bool" where
  "le_scaled a b c \<longleftrightarrow> (if 0 \<le> c then a * 2 ^ nat c \<le> b else a \<le> b * 2 ^ nat (- c))"

text \<open>The nearest integer to \<open>N / D\<close>, an even one when two are as near.\<close>

definition div_even :: "nat \<Rightarrow> nat \<Rightarrow> nat" where
  "div_even N D =
     (let q = N div D; r = N mod D
      in if D < 2 * r \<or> (2 * r = D \<and> odd q) then Suc q else q)"

text \<open>The exponent of the leading bit of \<open>num / den\<close>.\<close>

definition lead_exp :: "nat \<Rightarrow> nat \<Rightarrow> int" where
  "lead_exp num den =
     (let c = int (nbits num) - int (nbits den) in if le_scaled den num c then c else c - 1)"

text \<open>
  The magnitude bits (exponent and fraction fields) of \<open>num / den * 2 ^ e\<close> in the format with
  \<open>p\<close> significant bits, least exponent \<open>emin\<close> and infinity \<open>infv\<close>.
\<close>

definition ieee_round :: "nat \<Rightarrow> int \<Rightarrow> nat \<Rightarrow> nat \<Rightarrow> nat \<Rightarrow> int \<Rightarrow> nat" where
  "ieee_round p emin infv num den e =
     (if num = 0 then 0
      else let E = max emin (lead_exp num den + e - (int p - 1));
               q = (if E \<le> e then div_even (num * 2 ^ nat (e - E)) den
                    else div_even num (den * 2 ^ nat (E - e)))
           in min infv (nat (E - emin) * 2 ^ (p - 1) + q))"

section \<open>Values of bit patterns\<close>

datatype fnum = NaN | Inf bool | Fin bool nat int

definition fp_decode :: "nat \<Rightarrow> nat \<Rightarrow> int \<Rightarrow> nat \<Rightarrow> fnum" where
  "fp_decode p eb emin w =
     (let s = odd (w div 2 ^ (p - 1 + eb));
          x = w div 2 ^ (p - 1) mod 2 ^ eb;
          m = w mod 2 ^ (p - 1)
      in if x = 2 ^ eb - 1 then (if m = 0 then Inf s else NaN)
         else if x = 0 then Fin s m emin
         else Fin s (m + 2 ^ (p - 1)) (int x - 1 + emin))"

definition fnum_le :: "fnum \<Rightarrow> fnum \<Rightarrow> bool" where
  "fnum_le a b =
     (case (a, b) of
        (NaN, _) \<Rightarrow> False
      | (_, NaN) \<Rightarrow> False
      | (Inf s, Inf t) \<Rightarrow> s \<or> \<not> t
      | (Inf s, Fin _ _ _) \<Rightarrow> s
      | (Fin _ _ _, Inf t) \<Rightarrow> \<not> t
      | (Fin s m e, Fin t n f) \<Rightarrow>
          (let k = min e f;
               i = (if s then - 1 else 1) * int m * 2 ^ nat (e - k);
               j = (if t then - 1 else 1) * int n * 2 ^ nat (f - k)
           in i \<le> j))"

subsection \<open>Double precision\<close>

definition double_inf :: nat where
  "double_inf = 2047 * 2 ^ 52"

definition double_decode :: "cdouble \<Rightarrow> fnum" where
  "double_decode w = fp_decode 53 11 (- 1074) (unat w)"

definition double_nan :: cdouble where
  "double_nan = 0xFFF8000000000000"

definition double_quiet :: "cdouble \<Rightarrow> cdouble" where
  "double_quiet w = or w 0x0008000000000000"

definition double_make :: "bool \<Rightarrow> nat \<Rightarrow> nat \<Rightarrow> int \<Rightarrow> cdouble" where
  "double_make s num den e =
     word_of_nat ((if s then 2 ^ 63 else 0) + ieee_round 53 (- 1074) double_inf num den e)"

definition double_infinity :: "bool \<Rightarrow> cdouble" where
  "double_infinity s = word_of_nat ((if s then 2 ^ 63 else 0) + double_inf)"

definition double_add :: "cdouble \<Rightarrow> cdouble \<Rightarrow> cdouble" where
  "double_add a b =
     (case (double_decode a, double_decode b) of
        (NaN, _) \<Rightarrow> double_quiet a
      | (_, NaN) \<Rightarrow> double_quiet b
      | (Inf s, Inf t) \<Rightarrow> if s = t then a else double_nan
      | (Inf _, _) \<Rightarrow> a
      | (_, Inf _) \<Rightarrow> b
      | (Fin s m e, Fin t n f) \<Rightarrow>
          (let k = min e f;
               i = (if s then - 1 else 1) * int m * 2 ^ nat (e - k)
                 + (if t then - 1 else 1) * int n * 2 ^ nat (f - k)
           in double_make (if i = 0 then s \<and> t else i < 0) (nat \<bar>i\<bar>) 1 k))"

definition double_div :: "cdouble \<Rightarrow> cdouble \<Rightarrow> cdouble" where
  "double_div a b =
     (case (double_decode a, double_decode b) of
        (NaN, _) \<Rightarrow> double_quiet a
      | (_, NaN) \<Rightarrow> double_quiet b
      | (Inf _, Inf _) \<Rightarrow> double_nan
      | (Inf s, Fin t _ _) \<Rightarrow> double_infinity (s \<noteq> t)
      | (Fin s _ _, Inf t) \<Rightarrow> double_make (s \<noteq> t) 0 1 0
      | (Fin s m e, Fin t n f) \<Rightarrow>
          if n = 0 then (if m = 0 then double_nan else double_infinity (s \<noteq> t))
          else double_make (s \<noteq> t) m n (e - f))"

definition double_of_nat :: "nat \<Rightarrow> cdouble" where
  "double_of_nat n = double_make False n 1 0"

text \<open>The correctly rounded quotient of two natural numbers.\<close>

definition double_of_ratio :: "nat \<Rightarrow> nat \<Rightarrow> cdouble" where
  "double_of_ratio a b = double_make False a b 0"

definition double_of_u32 :: "u32 \<Rightarrow> cdouble" where
  "double_of_u32 w = double_of_nat (unat w)"

subsection \<open>Single precision\<close>

definition float_decode :: "cfloat \<Rightarrow> fnum" where
  "float_decode w = fp_decode 24 8 (- 149) (unat w)"

definition float_make :: "bool \<Rightarrow> nat \<Rightarrow> nat \<Rightarrow> int \<Rightarrow> cfloat" where
  "float_make s num den e =
     word_of_nat ((if s then 2 ^ 31 else 0) + ieee_round 24 (- 149) (255 * 2 ^ 23) num den e)"

definition float_of_u32 :: "u32 \<Rightarrow> cfloat" where
  "float_of_u32 w = float_make False (unat w) 1 0"

definition float_ge :: "cfloat \<Rightarrow> cfloat \<Rightarrow> bool" where
  "float_ge a b = fnum_le (float_decode b) (float_decode a)"

section \<open>Rounding depends on the value only\<close>

lemma nbits_0 [simp]: "nbits 0 = 0"
  by (simp add: nbits.simps)

lemma nbits_1 [simp]: "nbits (Suc 0) = Suc 0"
  by (simp add: nbits.simps)

lemma nbits_double [simp]: "0 < n \<Longrightarrow> nbits (2 * n) = Suc (nbits n)"
  by (subst nbits.simps) simp

lemma nbits_shift [simp]: "0 < n \<Longrightarrow> nbits (n * 2 ^ k) = nbits n + k"
proof (induction k)
  case (Suc k)
  then have "nbits (2 * (n * 2 ^ k)) = Suc (nbits n + k)"
    by simp
  then show ?case by (simp add: mult.left_commute)
qed simp

lemma nbits_bounds: "0 < n \<Longrightarrow> 2 ^ (nbits n - 1) \<le> n \<and> n < 2 ^ nbits n"
proof (induction n rule: nbits.induct)
  case (1 n)
  show ?case
  proof (cases "n div 2 = 0")
    case True
    with 1 have "n = 1" by simp
    then show ?thesis by simp
  next
    case False
    with 1 have IH: "2 ^ (nbits (n div 2) - 1) \<le> n div 2" "n div 2 < 2 ^ nbits (n div 2)"
      by auto
    have n: "nbits n = Suc (nbits (n div 2))"
      using 1 by (simp add: nbits.simps [of n])
    have pos: "nbits (n div 2) = Suc (nbits (n div 2) - 1)"
      using False by (simp add: nbits.simps [of "n div 2"])
    then have "2 * 2 ^ (nbits (n div 2) - 1) = (2 :: nat) ^ nbits (n div 2)"
      by (metis power_Suc)
    moreover have "2 * (n div 2) \<le> n" "n < 2 * (n div 2) + 2" by simp_all
    ultimately have "2 ^ nbits (n div 2) \<le> n" "n < 2 * 2 ^ nbits (n div 2)"
      using IH by linarith+
    with n show ?thesis by simp
  qed
qed

lemma le_scaled_shift: "le_scaled d (n * 2 ^ k) (c + int k) = le_scaled d n c"
proof (cases "0 \<le> c")
  case True
  then have "nat (c + int k) = nat c + k" by simp
  with True show ?thesis by (simp add: le_scaled_def power_add flip: mult.assoc)
next
  case False
  show ?thesis
  proof (cases "0 \<le> c + int k")
    case True
    define j where "j = nat (c + int k)"
    have k: "k = j + nat (- c)" using False True by (simp add: j_def)
    with False True show ?thesis
      by (simp add: le_scaled_def power_add mult.left_commute mult.commute flip: j_def)
  next
    case neg: False
    have "nat (- c) = nat (- (c + int k)) + k" using False neg by simp
    with False neg show ?thesis by (simp add: le_scaled_def power_add mult_ac)
  qed
qed

lemma lead_exp_shift: "0 < n \<Longrightarrow> lead_exp (n * 2 ^ k) d = lead_exp n d + int k"
proof -
  assume n: "0 < n"
  define c where "c = int (nbits n) - int (nbits d)"
  have "int (nbits (n * 2 ^ k)) - int (nbits d) = c + int k"
    using n by (simp add: c_def)
  then show ?thesis
    by (simp add: lead_exp_def Let_def le_scaled_shift flip: c_def)
qed

lemma div_even_scale: "0 < f \<Longrightarrow> div_even (n * f) (d * f) = div_even n d"
  by (auto simp: div_even_def Let_def simp flip: mult.assoc)

lemma div_even_exact: "div_even n 1 = n"
  by (simp add: div_even_def)

lemma ieee_round_shift:
  assumes n: "0 < n"
  shows "ieee_round p emin infv (n * 2 ^ k) d (e - int k) = ieee_round p emin infv n d e"
proof -
  define E where "E = max emin (lead_exp n d + e - (int p - 1))"
  have E': "max emin (lead_exp (n * 2 ^ k) d + (e - int k) - (int p - 1)) = E"
    using n by (simp add: E_def lead_exp_shift)
  have "(if E \<le> e - int k then div_even (n * 2 ^ k * 2 ^ nat (e - int k - E)) d
         else div_even (n * 2 ^ k) (d * 2 ^ nat (E - (e - int k)))) =
        (if E \<le> e then div_even (n * 2 ^ nat (e - E)) d
         else div_even n (d * 2 ^ nat (E - e)))" (is "?lhs = ?rhs")
  proof -
    consider (a) "E \<le> e - int k" | (b) "\<not> E \<le> e - int k" "E \<le> e" | (c) "e < E"
      by linarith
    then show ?thesis
    proof cases
      case a
      then have "nat (e - E) = k + nat (e - int k - E)" by simp
      with a show ?thesis by (simp add: power_add mult.assoc)
    next
      case b
      define f where "f = nat (E - (e - int k))"
      have k: "k = nat (e - E) + f" using b by (simp add: f_def)
      have "?lhs = div_even (n * 2 ^ nat (e - E) * 2 ^ f) (d * 2 ^ f)"
        using b k by (simp add: power_add mult.assoc flip: f_def)
      also have "\<dots> = ?rhs" using b by (simp add: div_even_scale)
      finally show ?thesis .
    next
      case c
      then have "nat (E - (e - int k)) = nat (E - e) + k" by simp
      with c have "?lhs = div_even (n * 2 ^ k) (d * 2 ^ nat (E - e) * 2 ^ k)"
        by (simp add: power_add mult.assoc)
      also have "\<dots> = ?rhs" using c by (simp add: div_even_scale)
      finally show ?thesis .
    qed
  qed
  with n show ?thesis
    by (simp add: ieee_round_def E' Let_def flip: E_def)
qed

section \<open>Integers below two to the 53 are exact\<close>

lemma le_scaled_common: "0 < f \<Longrightarrow> le_scaled (d * f) (n * f) c = le_scaled d n c"
proof -
  assume f: "0 < f"
  have "d * f * x \<le> n * f \<longleftrightarrow> d * x \<le> n" "d * f \<le> n * f * x \<longleftrightarrow> d \<le> n * x" for x
    using f mult_le_cancel2 [of "d * x" f n] mult_le_cancel2 [of d f "n * x"]
    by (simp_all add: mult_ac)
  then show ?thesis by (simp add: le_scaled_def)
qed

lemma ieee_round_common:
  assumes "0 < n" "0 < d"
  shows "ieee_round p emin infv (n * 2 ^ k) (d * 2 ^ k) e = ieee_round p emin infv n d e"
proof -
  have "lead_exp (n * 2 ^ k) (d * 2 ^ k) = lead_exp n d"
    using assms by (simp add: lead_exp_def Let_def le_scaled_common)
  moreover have "div_even (n * 2 ^ k * x) (d * 2 ^ k) = div_even (n * x) d"
    "div_even (n * 2 ^ k) (d * 2 ^ k * x) = div_even n (d * x)" for x
    using div_even_scale [of "2 ^ k" "n * x" d] div_even_scale [of "2 ^ k" n "d * x"]
    by (simp_all add: mult_ac)
  ultimately show ?thesis
    using assms by (simp add: ieee_round_def Let_def)
qed

lemma ieee_round_shift_den:
  assumes "0 < n" "0 < d"
  shows "ieee_round p emin infv n (d * 2 ^ k) (e + int k) = ieee_round p emin infv n d e"
  using ieee_round_shift [of n p emin infv k "d * 2 ^ k" "e + int k"]
    ieee_round_common [of n d p emin infv k e] assms by simp

lemma double_make_value:
  assumes "n \<noteq> 0 \<Longrightarrow> 0 < d"
  shows "double_make s (n * 2 ^ j) (d * 2 ^ k) (int k - int j) = double_make s n d 0"
proof (cases "n = 0")
  case True
  then show ?thesis by (simp add: double_make_def ieee_round_def)
next
  case False
  with assms show ?thesis
    using ieee_round_shift [of n "53" "- 1074" double_inf j "d * 2 ^ k" "int k"]
      ieee_round_shift_den [of n d "53" "- 1074" double_inf k 0]
    by (simp add: double_make_def)
qed

section \<open>Integers below two to the 53 are exact\<close>

lemma lead_exp_int: "0 < n \<Longrightarrow> lead_exp n 1 = int (nbits n) - 1"
proof -
  assume n: "0 < n"
  then have b: "2 ^ (nbits n - 1) \<le> n" using nbits_bounds by blast
  have "0 < nbits n" using n by (simp add: nbits.simps [of n])
  then have "nat (int (nbits n) - 1) = nbits n - 1" by simp
  with b \<open>0 < nbits n\<close> show ?thesis by (simp add: lead_exp_def Let_def le_scaled_def)
qed

lemma nbits_le: "0 < n \<Longrightarrow> n < 2 ^ k \<Longrightarrow> nbits n \<le> k"
proof -
  assume "0 < n" "n < 2 ^ k"
  then have "2 ^ (nbits n - 1) < (2::nat) ^ k"
    using nbits_bounds [of n] by linarith
  then have "nbits n - 1 < k" by (rule power_less_imp_less_exp [rotated]) simp
  then show ?thesis by simp
qed

text \<open>The double \<open>w\<close> is the natural number \<open>n\<close>.\<close>

definition double_is_nat :: "cdouble \<Rightarrow> nat \<Rightarrow> bool" where
  "double_is_nat w n \<longleftrightarrow> (\<exists>k. double_decode w = Fin False (n * 2 ^ k) (- int k))"

lemma ieee_round_int:
  assumes n: "0 < n" "n < 2 ^ 53"
  shows "ieee_round 53 (- 1074) double_inf n 1 0
           = (1021 + nbits n) * 2 ^ 52 + n * 2 ^ (53 - nbits n)"
proof -
  have b: "nbits n \<le> 53" using nbits_le [OF n] .
  have up: "n * 2 ^ (53 - nbits n) < 2 ^ 53"
  proof -
    have "n * 2 ^ (53 - nbits n) < 2 ^ nbits n * 2 ^ (53 - nbits n)"
      using nbits_bounds [OF n(1)] by simp
    also have "\<dots> = (2::nat) ^ 53" using b by (simp flip: power_add)
    finally show ?thesis .
  qed
  define E where "E = max (- 1074) (lead_exp n 1 + 0 - (int 53 - 1))"
  have E: "E = int (nbits n) - 53"
    using b lead_exp_int [OF n(1)] by (simp add: E_def)
  have sh: "nat (0 - E) = 53 - nbits n" "E \<le> 0" using b by (simp_all add: E)
  have ex: "nat (E - - 1074) = 1021 + nbits n" by (simp add: E)
  have "(1021 + nbits n) * 2 ^ 52 + n * 2 ^ (53 - nbits n) \<le> 1074 * 2 ^ 52 + 2 ^ 53"
    using b up by (intro add_mono mult_right_mono) simp_all
  also have "\<dots> \<le> double_inf" by (simp add: double_inf_def)
  finally have le: "(1021 + nbits n) * 2 ^ 52 + n * 2 ^ (53 - nbits n) \<le> double_inf" .
  have "ieee_round 53 (- 1074) double_inf n 1 0 =
      min double_inf (nat (E - - 1074) * 2 ^ (53 - 1) + div_even (n * 2 ^ nat (0 - E)) 1)"
    unfolding ieee_round_def Let_def E_def [symmetric] using n sh(2) by (simp only: if_True if_False) simp
  also have "\<dots> = min double_inf ((1021 + nbits n) * 2 ^ 52 + n * 2 ^ (53 - nbits n))"
    unfolding sh ex div_even_exact by simp
  finally show ?thesis using le by (simp only: min_absorb2)
qed

lemma double_of_nat_0 [simp]: "double_of_nat 0 = 0"
  by (simp add: double_of_nat_def double_make_def ieee_round_def)

lemma double_is_nat_of_nat:
  assumes "n < 2 ^ 53"
  shows "double_is_nat (double_of_nat n) n"
proof (cases "n = 0")
  case True
  have "double_decode (double_of_nat n) = Fin False (n * 2 ^ 1074) (- int 1074)"
    by (simp add: True double_decode_def fp_decode_def)
  then show ?thesis unfolding double_is_nat_def by blast
next
  case False
  then have n: "0 < n" by simp
  define m where "m = n * 2 ^ (53 - nbits n)"
  have b: "nbits n \<le> 53" "0 < nbits n"
    using nbits_le [OF n assms] n by (simp_all add: nbits.simps [of n])
  have up: "m < 2 ^ 53" "2 ^ 52 \<le> m"
  proof -
    have "m < 2 ^ nbits n * 2 ^ (53 - nbits n)"
      using nbits_bounds [OF n] by (simp add: m_def)
    then show "m < 2 ^ 53" using b by (simp flip: power_add)
    have "2 ^ (nbits n - 1) * 2 ^ (53 - nbits n) \<le> m"
      using nbits_bounds [OF n] by (simp add: m_def)
    then show "2 ^ 52 \<le> m" using b by (simp flip: power_add)
  qed
  define r where "r = m - 2 ^ 52"
  have r: "m = r + 2 ^ 52" "r < 2 ^ 52" using up by (simp_all add: r_def)
  define B where "B = (1022 + nbits n) * 2 ^ 52 + r"
  have B: "ieee_round 53 (- 1074) double_inf n 1 0 = B"
    using ieee_round_int [OF n assms] r by (simp add: B_def flip: m_def)
  have Bdiv: "B div 2 ^ 52 = 1022 + nbits n" "B mod 2 ^ 52 = r"
    using r(2) unfolding B_def by (simp_all only: div_mult_self3 mod_mult_self3) simp_all
  have "B < 2 ^ 63" using b r(2) by (simp add: B_def)
  then have unat: "unat (double_of_nat n) = B"
    unfolding double_of_nat_def double_make_def B
    by (simp add: unat_of_nat take_bit_nat_eq_self)
  have "B div 2 ^ 63 = 0" using \<open>B < 2 ^ 63\<close> by simp
  then have "double_decode (double_of_nat n) = Fin False m (- int (53 - nbits n))"
    unfolding double_decode_def fp_decode_def unat Let_def
    using Bdiv b r by (simp add: of_nat_diff)
  then show ?thesis unfolding double_is_nat_def m_def by blast
qed

lemma double_add_nat:
  assumes "double_is_nat a x" "double_is_nat b y"
  shows "double_add a b = double_of_nat (x + y)"
proof -
  from assms obtain j k where
    a: "double_decode a = Fin False (x * 2 ^ j) (- int j)" and
    b: "double_decode b = Fin False (y * 2 ^ k) (- int k)"
    unfolding double_is_nat_def by blast
  define K where "K = max j k"
  have mn: "min (- int j) (- int k) = - int K" by (simp add: K_def)
  have sh: "nat (- int j - - int K) = K - j" "nat (- int k - - int K) = K - k"
    by (simp_all add: K_def)
  have "x * 2 ^ j * 2 ^ (K - j) = x * 2 ^ K" "y * 2 ^ k * 2 ^ (K - k) = y * 2 ^ K"
    by (simp_all add: K_def mult.assoc flip: power_add)
  then have "x * 2 ^ j * 2 ^ (K - j) + y * 2 ^ k * 2 ^ (K - k) = (x + y) * 2 ^ K"
    by (simp only: distrib_right)
  then have "int (x * 2 ^ j * 2 ^ (K - j) + y * 2 ^ k * 2 ^ (K - k)) = int ((x + y) * 2 ^ K)"
    by (simp only:)
  then have sum: "1 * int (x * 2 ^ j) * 2 ^ (K - j) + 1 * int (y * 2 ^ k) * 2 ^ (K - k)
      = int ((x + y) * 2 ^ K)"
    by (simp only: of_nat_add of_nat_mult of_nat_power of_nat_numeral mult_1)
  have "double_add a b = double_make False ((x + y) * 2 ^ K) 1 (- int K)"
    unfolding double_add_def a b prod.case fnum.case mn Let_def sh if_False sum
    by (simp only: abs_of_nat nat_int of_nat_less_0_iff if_False simp_thms if_cancel)
  also have "\<dots> = double_of_nat (x + y)"
    using double_make_value [of "x + y" 1 False K 0] by (simp add: double_of_nat_def)
  finally show ?thesis .
qed

lemma double_div_nat:
  assumes "double_is_nat a x" "double_is_nat b y" "0 < y"
  shows "double_div a b = double_of_ratio x y"
proof -
  from assms obtain j k where
    a: "double_decode a = Fin False (x * 2 ^ j) (- int j)" and
    b: "double_decode b = Fin False (y * 2 ^ k) (- int k)"
    unfolding double_is_nat_def by blast
  have "double_div a b = double_make False (x * 2 ^ j) (y * 2 ^ k) (int k - int j)"
    using \<open>0 < y\<close> by (simp add: double_div_def a b)
  then show ?thesis
    using double_make_value [of x y False j k] \<open>0 < y\<close> by (simp add: double_of_ratio_def)
qed

text \<open>Summing from zero, as the loops of the sources do.\<close>

lemma double_sum_nat:
  assumes "list_all2 double_is_nat vs ns" "a + sum_list ns < 2 ^ 53"
  shows "foldl double_add (double_of_nat a) vs = double_of_nat (a + sum_list ns)"
  using assms
proof (induction vs ns arbitrary: a rule: list_all2_induct)
  case Nil
  then show ?case by simp
next
  case (Cons v vs n ns)
  have "double_is_nat (double_of_nat a) a"
    using Cons.prems by (intro double_is_nat_of_nat) simp
  then have "double_add (double_of_nat a) v = double_of_nat (a + n)"
    using Cons.hyps by (intro double_add_nat)
  with Cons.IH [of "a + n"] Cons.prems show ?case by (simp add: add.assoc)
qed

section \<open>Comparing small counts with a float\<close>

lemma double_is_nat_u32: "double_is_nat (double_of_u32 w) (unat w)"
  unfolding double_of_u32_def
  by (rule double_is_nat_of_nat, rule less_trans [OF unsigned_less]) simp

end
