(* ===== verification/Common.thy ===== *)
theory Common
  imports C_Float
begin

text \<open>
  The structures of \<open>common.h\<close> and \<open>log.h\<close> that configure the daemon, and the
  platform it runs on. A linked list of configuration entries is a HOL list in
  the order of its \<open>next\<close> pointers, with \<open>[]\<close> for \<open>NULL\<close>; a string is its
  characters up to the terminating NUL.
\<close>

section \<open>Platform\<close>

text \<open>
  What the code relies on outside its own sources: the byte order of the host, the
  number of bytes the allocator really provides for a request (at least as many as
  asked for), and the PCRE library (whether a pattern compiles, and the result of
  \<open>pcre_exec\<close> for a pattern on a subject).
\<close>

record platform =
  host :: host_order
  usable :: "nat \<Rightarrow> nat"
  pcre_compiles :: "string \<Rightarrow> bool"
  pcre_exec :: "string \<Rightarrow> string \<Rightarrow> int"

definition allocator_ok :: "platform \<Rightarrow> bool" where
  "allocator_ok P \<longleftrightarrow> (\<forall>n. n \<le> usable P n)"

text \<open>The size glibc's \<open>malloc\<close> on a 64-bit host provides for a request of \<open>n\<close> bytes.\<close>

definition glibc_usable :: "nat \<Rightarrow> nat" where
  "glibc_usable n = max 24 ((n + 23) div 16 * 16 - 8)"

lemma glibc_usable_ge: "n \<le> glibc_usable n"
  unfolding glibc_usable_def by arith

abbreviation (input) METRIC_NAME_MAX_LEN :: nat where "METRIC_NAME_MAX_LEN \<equiv> 100"
abbreviation (input) PATH_MAX :: nat where "PATH_MAX \<equiv> 4096"
abbreviation (input) EXIT_SUCCESS :: int where "EXIT_SUCCESS \<equiv> 0"
abbreviation (input) EXIT_FAILURE :: int where "EXIT_FAILURE \<equiv> 1"

section \<open>Configuration\<close>

record retention =
  time_per_point :: u32
  time_to_store :: u32

record pattern_retention =
  str_pattern :: string
  str_retention :: string
  retention_list :: "retention list"

datatype aggregation_type = AGG_TYPE_UNDEF | AGG_TYPE_AVERAGE | AGG_TYPE_SUM
  | AGG_TYPE_LAST | AGG_TYPE_MAX | AGG_TYPE_MIN

text \<open>The values of the enumeration.\<close>

fun agg_code :: "aggregation_type \<Rightarrow> u32" where
  "agg_code AGG_TYPE_UNDEF = 0"
| "agg_code AGG_TYPE_AVERAGE = 1"
| "agg_code AGG_TYPE_SUM = 2"
| "agg_code AGG_TYPE_LAST = 3"
| "agg_code AGG_TYPE_MAX = 4"
| "agg_code AGG_TYPE_MIN = 5"

record pattern_aggregation =
  agg_pattern :: string
  agg_xff :: cfloat
  agg_method :: aggregation_type

datatype log_level = LOG_LEVEL_QUIET | LOG_LEVEL_ERROR | LOG_LEVEL_WARNING | LOG_LEVEL_INFO
  | LOG_LEVEL_VERBOSE | LOG_LEVEL_DEBUG | LOG_LEVEL_END

record carbon_conf =
  schema :: "pattern_retention list"
  aggregation :: "pattern_aggregation list"
  conf_dir :: string
  conf_file :: string
  storage_dir :: string
  line_receiver_port :: int
  udp_receiver_port :: int
  run :: bool
  tracing :: bool
  conf_log_level :: log_level

end
