(* ===== verification/Whisper_Format.thy ===== *)
theory Whisper_Format
  imports Common
begin

text \<open>
  The structures of \<open>whisper.h\<close>, their layout in memory, the conversions between
  host and network byte order (\<open>hton_*\<close>, \<open>ntoh_*\<close>) and the sizes derived from an
  archive header. A structure is written to a file as the memory image of its
  converted copy, and read back the other way round. The locale \<open>byte_codec\<close> is the
  contract of such a pair; it is interpreted for the header, the archive headers
  and the points of a whisper file.
\<close>

section \<open>Structures\<close>

record whisper_metadata =
  md_aggregation_type :: u32
  md_max_retention :: u32
  md_x_files_factor :: cfloat
  md_archive_count :: u32

record archive_info =
  offset :: u32
  seconds_per_point :: u32
  points :: u32

record archive_point =
  pt_timestamp :: u32
  pt_value :: cdouble

abbreviation (input) WHISPER_HEADER_SIZE :: nat where "WHISPER_HEADER_SIZE \<equiv> 16"
abbreviation (input) WHISPER_ARCHIVE_SIZE :: nat where "WHISPER_ARCHIVE_SIZE \<equiv> 12"
abbreviation (input) WHISPER_POINT_SIZE :: nat where "WHISPER_POINT_SIZE \<equiv> 12"

section \<open>Layout in memory\<close>

definition metadata_mem :: "host_order \<Rightarrow> whisper_metadata \<Rightarrow> byte list" where
  "metadata_mem ho md =
     store ho 4 (md_aggregation_type md) @ store ho 4 (md_max_retention md)
     @ store ho 4 (md_x_files_factor md) @ store ho 4 (md_archive_count md)"

definition metadata_of_mem :: "host_order \<Rightarrow> byte list \<Rightarrow> whisper_metadata" where
  "metadata_of_mem ho bs =
     \<lparr>md_aggregation_type = load ho (read_at 0 4 bs), md_max_retention = load ho (read_at 4 4 bs),
      md_x_files_factor = load ho (read_at 8 4 bs), md_archive_count = load ho (read_at 12 4 bs)\<rparr>"

definition archive_info_mem :: "host_order \<Rightarrow> archive_info \<Rightarrow> byte list" where
  "archive_info_mem ho a =
     store ho 4 (offset a) @ store ho 4 (seconds_per_point a) @ store ho 4 (points a)"

definition archive_info_of_mem :: "host_order \<Rightarrow> byte list \<Rightarrow> archive_info" where
  "archive_info_of_mem ho bs =
     \<lparr>offset = load ho (read_at 0 4 bs), seconds_per_point = load ho (read_at 4 4 bs),
      points = load ho (read_at 8 4 bs)\<rparr>"

text \<open>\<open>archive_point_t\<close> is packed, so the value follows the timestamp at once.\<close>

definition archive_point_mem :: "host_order \<Rightarrow> archive_point \<Rightarrow> byte list" where
  "archive_point_mem ho p = store ho 4 (pt_timestamp p) @ store ho 8 (pt_value p)"

definition archive_point_of_mem :: "host_order \<Rightarrow> byte list \<Rightarrow> archive_point" where
  "archive_point_of_mem ho bs =
     \<lparr>pt_timestamp = load ho (read_at 0 4 bs), pt_value = load ho (read_at 4 8 bs)\<rparr>"

section \<open>Byte order\<close>

definition htonl :: "host_order \<Rightarrow> u32 \<Rightarrow> u32" where
  "htonl ho w = (case ho of LittleEndian \<Rightarrow> bswap 4 w | BigEndian \<Rightarrow> w)"

definition ntohl :: "host_order \<Rightarrow> u32 \<Rightarrow> u32" where
  "ntohl ho w = (case ho of LittleEndian \<Rightarrow> bswap 4 w | BigEndian \<Rightarrow> w)"

definition htobe64 :: "host_order \<Rightarrow> u64 \<Rightarrow> u64" where
  "htobe64 ho w = (case ho of LittleEndian \<Rightarrow> bswap 8 w | BigEndian \<Rightarrow> w)"

definition be64toh :: "host_order \<Rightarrow> u64 \<Rightarrow> u64" where
  "be64toh ho w = (case ho of LittleEndian \<Rightarrow> bswap 8 w | BigEndian \<Rightarrow> w)"

definition hton_whisper_metadata :: "host_order \<Rightarrow> whisper_metadata \<Rightarrow> whisper_metadata" where
  "hton_whisper_metadata ho md =
     md\<lparr>md_aggregation_type := htonl ho (md_aggregation_type md),
        md_max_retention := htonl ho (md_max_retention md),
        md_archive_count := htonl ho (md_archive_count md),
        md_x_files_factor := htonl ho (md_x_files_factor md)\<rparr>"

definition ntoh_whisper_metadata :: "host_order \<Rightarrow> whisper_metadata \<Rightarrow> whisper_metadata" where
  "ntoh_whisper_metadata ho md =
     md\<lparr>md_aggregation_type := ntohl ho (md_aggregation_type md),
        md_max_retention := ntohl ho (md_max_retention md),
        md_archive_count := ntohl ho (md_archive_count md),
        md_x_files_factor := ntohl ho (md_x_files_factor md)\<rparr>"

definition hton_archive_info :: "host_order \<Rightarrow> archive_info \<Rightarrow> archive_info" where
  "hton_archive_info ho a =
     a\<lparr>offset := htonl ho (offset a), seconds_per_point := htonl ho (seconds_per_point a),
       points := htonl ho (points a)\<rparr>"

definition ntoh_archive_info :: "host_order \<Rightarrow> archive_info \<Rightarrow> archive_info" where
  "ntoh_archive_info ho a =
     a\<lparr>offset := ntohl ho (offset a), seconds_per_point := ntohl ho (seconds_per_point a),
       points := ntohl ho (points a)\<rparr>"

definition hton_archive_point :: "host_order \<Rightarrow> archive_point \<Rightarrow> archive_point" where
  "hton_archive_point ho p =
     p\<lparr>pt_timestamp := htonl ho (pt_timestamp p), pt_value := htobe64 ho (pt_value p)\<rparr>"

definition ntoh_archive_point :: "host_order \<Rightarrow> archive_point \<Rightarrow> archive_point" where
  "ntoh_archive_point ho p =
     p\<lparr>pt_timestamp := ntohl ho (pt_timestamp p), pt_value := be64toh ho (pt_value p)\<rparr>"

section \<open>Sizes\<close>

text \<open>
  The products are taken in 32 bits and widened afterwards; the end of an archive
  is cut back to 32 bits.
\<close>

definition archive_retention :: "archive_info \<Rightarrow> u64" where
  "archive_retention a = ucast (seconds_per_point a * points a)"

definition archive_size :: "archive_info \<Rightarrow> u64" where
  "archive_size a = ucast (points a * 12)"

definition archive_offset_end :: "archive_info \<Rightarrow> u32" where
  "archive_offset_end a = ucast (ucast (offset a) + archive_size a)"

text \<open>The size of a structure is the length of its memory image.\<close>

definition check_whisper_sizes :: "host_order \<Rightarrow> stop + unit" where
  "check_whisper_sizes ho =
     (if length (metadata_mem ho \<lparr>md_aggregation_type = 0, md_max_retention = 0, md_x_files_factor = 0,
           md_archive_count = 0\<rparr>) \<noteq> WHISPER_HEADER_SIZE then Inl AssertFailed
      else if length (archive_info_mem ho \<lparr>offset = 0, seconds_per_point = 0, points = 0\<rparr>) \<noteq> WHISPER_ARCHIVE_SIZE
      then Inl AssertFailed
      else if length (archive_point_mem ho \<lparr>pt_timestamp = 0, pt_value = 0\<rparr>) \<noteq> WHISPER_POINT_SIZE
      then Inl AssertFailed
      else Inr ())"

lemma length_metadata_mem [simp, bytes_simps]: "length (metadata_mem ho md) = WHISPER_HEADER_SIZE"
  by (simp add: metadata_mem_def)

lemma length_archive_info_mem [simp, bytes_simps]:
  "length (archive_info_mem ho a) = WHISPER_ARCHIVE_SIZE"
  by (simp add: archive_info_mem_def)

lemma length_archive_point_mem [simp, bytes_simps]:
  "length (archive_point_mem ho p) = WHISPER_POINT_SIZE"
  by (simp add: archive_point_mem_def)

section \<open>Fixed-width codecs\<close>

locale byte_codec =
  fixes enc :: "'a \<Rightarrow> byte list"
    and dec :: "byte list \<Rightarrow> 'a"
    and width :: nat
  assumes length_enc: "length (enc x) = width"
    and dec_enc: "dec (enc x) = x"
begin

lemma enc_inject: "enc x = enc y \<longleftrightarrow> x = y"
  by (metis dec_enc)

text \<open>What is written at a position is what is read there.\<close>

lemma read_back: "dec (read_at p width (write_at p (enc x) c)) = x"
  by (simp add: length_enc dec_enc)

text \<open>Writing one slot of an array of slots leaves the other slots as they are.\<close>

lemma slots_apart: "i \<noteq> j \<Longrightarrow> i * width + width \<le> j * width \<or> j * width + width \<le> i * width"
  by (metis Suc_leI linorder_neqE_nat mult_Suc mult_le_mono1 add.commute)

lemma other_slot:
  assumes "i \<noteq> j" "base + j * width + width \<le> length c"
  shows "read_at (base + j * width) width (write_at (base + i * width) (enc x) c) =
         read_at (base + j * width) width c"
  using assms slots_apart [of i j] by (intro read_write_apart) (auto simp: length_enc)

text \<open>The slots of a sequence of encoded values.\<close>

lemma length_concat_enc: "length (concat (map enc xs)) = length xs * width"
  by (induction xs) (simp_all add: length_enc)

lemma read_slot:
  "i < length xs \<Longrightarrow> dec (read_at (i * width) width (concat (map enc xs) @ ys)) = xs ! i"
proof (induction xs arbitrary: i)
  case (Cons x xs)
  show ?case
  proof (cases i)
    case 0
    then show ?thesis by (simp add: read_at_def length_enc dec_enc)
  next
    case (Suc j)
    then have "read_at (i * width) width (concat (map enc (x # xs)) @ ys) =
        read_at (j * width) width (concat (map enc xs) @ ys)"
      by (simp add: read_at_append2 length_enc)
    with Cons Suc show ?thesis by simp
  qed
qed simp

end

section \<open>The codecs of a whisper file\<close>

lemma ntohl_htonl [simp]: "ntohl ho (htonl ho w) = w"
  by (cases ho) (simp_all add: ntohl_def htonl_def bswap_bswap)

lemma be64toh_htobe64 [simp]: "be64toh ho (htobe64 ho w) = w"
  by (cases ho) (simp_all add: be64toh_def htobe64_def bswap_bswap)

text \<open>Whatever the host's byte order, the bytes in the file are most significant first.\<close>

lemma store_htonl [bytes_simps]: "store ho 4 (htonl ho w) = rev (store_le 4 w)"
  by (cases ho) (simp_all add: store_def htonl_def store_le_bswap)

lemma store_htobe64 [bytes_simps]: "store ho 8 (htobe64 ho w) = rev (store_le 8 w)"
  by (cases ho) (simp_all add: store_def htobe64_def store_le_bswap)

definition metadata_enc :: "host_order \<Rightarrow> whisper_metadata \<Rightarrow> byte list" where
  "metadata_enc ho md = metadata_mem ho (hton_whisper_metadata ho md)"

definition metadata_dec :: "host_order \<Rightarrow> byte list \<Rightarrow> whisper_metadata" where
  "metadata_dec ho bs = ntoh_whisper_metadata ho (metadata_of_mem ho bs)"

definition info_enc :: "host_order \<Rightarrow> archive_info \<Rightarrow> byte list" where
  "info_enc ho a = archive_info_mem ho (hton_archive_info ho a)"

definition info_dec :: "host_order \<Rightarrow> byte list \<Rightarrow> archive_info" where
  "info_dec ho bs = ntoh_archive_info ho (archive_info_of_mem ho bs)"

definition point_enc :: "host_order \<Rightarrow> archive_point \<Rightarrow> byte list" where
  "point_enc ho p = archive_point_mem ho (hton_archive_point ho p)"

definition point_dec :: "host_order \<Rightarrow> byte list \<Rightarrow> archive_point" where
  "point_dec ho bs = ntoh_archive_point ho (archive_point_of_mem ho bs)"

lemmas mem_defs =
  metadata_mem_def metadata_of_mem_def archive_info_mem_def archive_info_of_mem_def
  archive_point_mem_def archive_point_of_mem_def

lemmas order_defs =
  hton_whisper_metadata_def ntoh_whisper_metadata_def hton_archive_info_def
  ntoh_archive_info_def hton_archive_point_def ntoh_archive_point_def

lemma metadata_of_mem_mem [simp]: "metadata_of_mem ho (metadata_mem ho md) = md"
  by (simp add: mem_defs read_at_def)

lemma archive_info_of_mem_mem [simp]: "archive_info_of_mem ho (archive_info_mem ho a) = a"
  by (simp add: mem_defs read_at_def)

lemma archive_point_of_mem_mem [simp]: "archive_point_of_mem ho (archive_point_mem ho p) = p"
  by (simp add: mem_defs read_at_def)

lemma length_metadata_enc [simp]: "length (metadata_enc ho md) = WHISPER_HEADER_SIZE"
  by (simp add: metadata_enc_def)

lemma length_info_enc [simp]: "length (info_enc ho a) = WHISPER_ARCHIVE_SIZE"
  by (simp add: info_enc_def)

lemma length_point_enc [simp]: "length (point_enc ho p) = WHISPER_POINT_SIZE"
  by (simp add: point_enc_def)

interpretation md_codec: byte_codec "metadata_enc ho" "metadata_dec ho" WHISPER_HEADER_SIZE
  for ho
  by unfold_locales (simp_all add: metadata_enc_def metadata_dec_def order_defs)

interpretation info_codec: byte_codec "info_enc ho" "info_dec ho" WHISPER_ARCHIVE_SIZE
  for ho
  by unfold_locales (simp_all add: info_enc_def info_dec_def order_defs)

interpretation point_codec: byte_codec "point_enc ho" "point_dec ho" WHISPER_POINT_SIZE
  for ho
  by unfold_locales (simp_all add: point_enc_def point_dec_def order_defs)

lemmas codec_simps [simp] =
  md_codec.dec_enc info_codec.dec_enc point_codec.dec_enc

lemma point_dec_zeros [simp]: "point_dec ho (replicate 12 0) = \<lparr>pt_timestamp = 0, pt_value = 0\<rparr>"
  by (simp add: point_dec_def order_defs mem_defs read_at_replicate ntohl_def be64toh_def
      split: host_order.split)

end
