(* ===== verification/C_String.thy ===== *)
theory C_String
  imports C_Float
begin

text \<open>
  The functions of the C library that the parsers of the sources call, on strings
  given as the characters before the terminating NUL: \<open>strncmp\<close>, \<open>strtok_r\<close>,
  \<open>strtoul\<close>, \<open>strtol\<close>, \<open>strtod\<close>, \<open>strtof\<close>, \<open>fgets\<close> and the conversions \<open>%s\<close>, \<open>%lf\<close> and \<open>%u\<close>
  of \<open>sscanf\<close>, as glibc implements them on a 64-bit host.
\<close>

section \<open>Characters\<close>

definition isspace :: "char \<Rightarrow> bool" where
  "isspace c \<longleftrightarrow> c \<in> {CHR '' '', CHR 0x09, CHR 0x0A, CHR 0x0B, CHR 0x0C, CHR 0x0D}"

definition char_code :: "char \<Rightarrow> nat" where
  "char_code c = of_char c"

definition isdigit :: "char \<Rightarrow> bool" where
  "isdigit c \<longleftrightarrow> 48 \<le> char_code c \<and> char_code c \<le> 57"

definition tolower :: "char \<Rightarrow> char" where
  "tolower c = (if 65 \<le> char_code c \<and> char_code c \<le> 90 then char_of (char_code c + 32) else c)"

definition isxdigit :: "char \<Rightarrow> bool" where
  "isxdigit c \<longleftrightarrow> isdigit c \<or> (97 \<le> char_code (tolower c) \<and> char_code (tolower c) \<le> 102)"

definition digit_value :: "char \<Rightarrow> nat" where
  "digit_value c = (if isdigit c then char_code c - 48 else char_code (tolower c) - 87)"

definition base_value :: "nat \<Rightarrow> string \<Rightarrow> nat" where
  "base_value b ds = foldl (\<lambda>a c. b * a + digit_value c) 0 ds"

section \<open>Comparing and splitting\<close>

text \<open>\<open>strncmp(a, b, n) == 0\<close>.\<close>

fun strncmp_eq :: "string \<Rightarrow> string \<Rightarrow> nat \<Rightarrow> bool" where
  "strncmp_eq a b 0 = True"
| "strncmp_eq [] [] (Suc n) = True"
| "strncmp_eq (x # xs) (y # ys) (Suc n) = (x = y \<and> strncmp_eq xs ys n)"
| "strncmp_eq _ _ (Suc n) = False"

lemma strncmp_eq_take: "strncmp_eq a b n \<longleftrightarrow> take n a = take n b"
  by (induction a b n rule: strncmp_eq.induct) auto

text \<open>
  One call of \<open>strtok_r\<close>: the token and what the saved pointer is left at, or \<open>None\<close> for
  \<open>NULL\<close>.
\<close>

definition strtok_r :: "string \<Rightarrow> string \<Rightarrow> (string \<times> string) option" where
  "strtok_r ds s =
     (case dropWhile (\<lambda>c. c \<in> set ds) s of
        [] \<Rightarrow> None
      | s' \<Rightarrow> Some (takeWhile (\<lambda>c. c \<notin> set ds) s', tl (dropWhile (\<lambda>c. c \<notin> set ds) s')))"

lemma strtok_r_Some_iff:
  "strtok_r ds s = Some (t, r) \<longleftrightarrow>
     (\<exists>s'. s' = dropWhile (\<lambda>c. c \<in> set ds) s \<and> s' \<noteq> [] \<and>
        t = takeWhile (\<lambda>c. c \<notin> set ds) s' \<and> r = tl (dropWhile (\<lambda>c. c \<notin> set ds) s'))"
proof -
  define s' where "s' = dropWhile (\<lambda>c. c \<in> set ds) s"
  show ?thesis unfolding strtok_r_def s'_def [symmetric] by (cases s') auto
qed

lemma strtok_r_shorter: "strtok_r ds s = Some (t, r) \<Longrightarrow> length r < length s"
proof -
  assume "strtok_r ds s = Some (t, r)"
  then obtain s' where s': "s' = dropWhile (\<lambda>c. c \<in> set ds) s" "s' \<noteq> []"
    and r: "r = tl (dropWhile (\<lambda>c. c \<notin> set ds) s')"
    unfolding strtok_r_Some_iff by blast
  have "length (dropWhile (\<lambda>c. c \<notin> set ds) s') \<le> length s'" "length s' \<le> length s"
    by (simp_all add: s'(1) length_dropWhile_le)
  with s'(2) r show ?thesis by (cases s') auto
qed

lemma strtok_r_token:
  "strtok_r ds s = Some (t, r) \<Longrightarrow> t \<noteq> [] \<and> set t \<inter> set ds = {} \<and> set t \<subseteq> set s \<and> set r \<subseteq> set s"
proof -
  assume "strtok_r ds s = Some (t, r)"
  then obtain s' where s': "s' = dropWhile (\<lambda>c. c \<in> set ds) s" "s' \<noteq> []"
    and t: "t = takeWhile (\<lambda>c. c \<notin> set ds) s'"
    and r: "r = tl (dropWhile (\<lambda>c. c \<notin> set ds) s')"
    unfolding strtok_r_Some_iff by blast
  have "hd s' \<notin> set ds" using s' by (metis hd_dropWhile)
  then have "t \<noteq> []" using s'(2) t by (cases s') auto
  moreover have "set t \<inter> set ds = {}" using t by (auto dest: set_takeWhileD)
  moreover have "set s' \<subseteq> set s" using s'(1) set_dropWhileD by fastforce
  moreover have "set t \<subseteq> set s'" using t set_takeWhileD by fastforce
  moreover have "set r \<subseteq> set s'"
    using r by (metis list.set_sel(2) set_dropWhileD subsetI tl_Nil)
  ultimately show ?thesis by blast
qed

text \<open>All the tokens that successive calls return.\<close>

function tokens :: "string \<Rightarrow> string \<Rightarrow> string list" where
  "tokens ds s = (case strtok_r ds s of None \<Rightarrow> [] | Some (t, r) \<Rightarrow> t # tokens ds r)"
  by pat_completeness auto
termination
  by (relation "measure (\<lambda>(ds, s). length s)") (auto simp: strtok_r_shorter)

declare tokens.simps [simp del]

lemma tokens_None [simp]: "strtok_r ds s = None \<Longrightarrow> tokens ds s = []"
  by (simp add: tokens.simps)

lemma tokens_Some [simp]: "strtok_r ds s = Some (t, r) \<Longrightarrow> tokens ds s = t # tokens ds r"
  by (subst tokens.simps) simp

lemma tokens_ok: "t \<in> set (tokens ds s) \<Longrightarrow> t \<noteq> [] \<and> set t \<inter> set ds = {} \<and> set t \<subseteq> set s"
proof (induction ds s rule: tokens.induct)
  case (1 ds s)
  show ?case
  proof (cases "strtok_r ds s")
    case (Some tr)
    then obtain u r where ur: "strtok_r ds s = Some (u, r)" by (cases tr) auto
    from "1.IH" [OF ur] "1.prems" strtok_r_token [OF ur] show ?thesis
      by (simp add: ur) blast
  qed (use 1 in simp)
qed

lemma strtok_r_skip: "d \<in> set ds \<Longrightarrow> strtok_r ds (d # s) = strtok_r ds s"
  by (simp add: strtok_r_def)

lemma strtok_r_next:
  assumes "t \<noteq> []" "set t \<inter> set ds = {}" "d \<in> set ds"
  shows "strtok_r ds (t @ d # s) = Some (t, s)" "strtok_r ds t = Some (t, [])"
proof -
  have all: "\<forall>c\<in>set t. c \<notin> set ds" using assms(2) by auto
  then have "dropWhile (\<lambda>c. c \<in> set ds) (t @ s') = t @ s'" for s'
    using assms(1) by (cases t) auto
  from this [of "d # s"] this [of "[]"] show
    "strtok_r ds (t @ d # s) = Some (t, s)" "strtok_r ds t = Some (t, [])"
    using all assms(1,3) unfolding strtok_r_Some_iff
    by (simp_all add: takeWhile_append dropWhile_append takeWhile_eq_all_conv [THEN iffD2]
        dropWhile_eq_Nil_conv [THEN iffD2])
qed

text \<open>Tokens joined by a delimiter are split again.\<close>

fun join :: "char \<Rightarrow> string list \<Rightarrow> string" where
  "join d [] = []"
| "join d [t] = t"
| "join d (t # u # ts) = t @ d # join d (u # ts)"

lemma tokens_join:
  assumes "\<forall>t\<in>set ts. t \<noteq> [] \<and> set t \<inter> set ds = {}" "d \<in> set ds"
  shows "tokens ds (join d ts) = ts"
  using assms
proof (induction d ts rule: join.induct)
  case (1 d)
  then show ?case by (simp add: strtok_r_def)
next
  case (2 d t)
  then have "strtok_r ds t = Some (t, [])" by (intro strtok_r_next) auto
  moreover have "tokens ds [] = []" by (simp add: strtok_r_def)
  ultimately show ?case by simp
next
  case (3 d t u ts)
  then have "strtok_r ds (t @ d # join d (u # ts)) = Some (t, join d (u # ts))"
    by (intro strtok_r_next) auto
  with 3 show ?case by simp
qed

section \<open>Integers\<close>

text \<open>An optional sign: whether it was a minus, and what follows it.\<close>

definition strip_sign :: "string \<Rightarrow> bool \<times> string" where
  "strip_sign s =
     (case s of c # r \<Rightarrow> if c = CHR ''-'' then (True, r) else if c = CHR ''+'' then (False, r)
                          else (False, s)
      | [] \<Rightarrow> (False, []))"

definition strtoul10 :: "string \<Rightarrow> u64" where
  "strtoul10 s =
     (case strip_sign (dropWhile isspace s) of (neg, r) \<Rightarrow>
        let n = base_value 10 (takeWhile isdigit r)
        in if 2 ^ 64 \<le> n then - 1 else if neg then - word_of_nat n else word_of_nat n)"

text \<open>\<open>strtol\<close>: the value, and whether \<open>errno\<close> was set to \<open>ERANGE\<close>.\<close>

definition strtol10 :: "string \<Rightarrow> int \<times> bool" where
  "strtol10 s =
     (case strip_sign (dropWhile isspace s) of (neg, r) \<Rightarrow>
        let n = int (base_value 10 (takeWhile isdigit r))
        in if neg then (if 2 ^ 63 < n then (- (2 ^ 63), True) else (- n, False))
           else (if 2 ^ 63 \<le> n then (2 ^ 63 - 1, True) else (n, False)))"

section \<open>Floating-point numbers\<close>

datatype fpval = FInf | FNan | FRat nat nat int

definition starts_ci :: "string \<Rightarrow> string \<Rightarrow> bool" where
  "starts_ci pre s \<longleftrightarrow> take (length pre) (map tolower s) = pre"

text \<open>The exponent part: \<open>x\<close>, an optional sign and digits; 0 when it is not there.\<close>

definition exponent_part :: "char \<Rightarrow> string \<Rightarrow> int" where
  "exponent_part x s =
     (case s of [] \<Rightarrow> 0
      | c # r \<Rightarrow> if tolower c = x
          then (case strip_sign r of (neg, d) \<Rightarrow>
                  (if neg then - 1 else 1) * int (base_value 10 (takeWhile isdigit d)))
          else 0)"

text \<open>Digits with an optional point: the digits before and after it, and what follows.\<close>

definition mantissa :: "(char \<Rightarrow> bool) \<Rightarrow> string \<Rightarrow> string \<times> string \<times> string" where
  "mantissa isd s =
     (let ip = takeWhile isd s; r = dropWhile isd s
      in case r of
           c # r' \<Rightarrow> if c = CHR ''.'' then (ip, takeWhile isd r', dropWhile isd r') else (ip, [], r)
         | [] \<Rightarrow> (ip, [], []))"

definition decimal_body :: "string \<Rightarrow> fpval option" where
  "decimal_body s =
     (case mantissa isdigit s of (ip, fp, r) \<Rightarrow>
        if ip = [] \<and> fp = [] then None
        else let m = base_value 10 (ip @ fp); k = exponent_part CHR ''e'' r - int (length fp)
             in Some (if 0 \<le> k then FRat (m * 10 ^ nat k) 1 0 else FRat m (10 ^ nat (- k)) 0))"

definition hex_body :: "string \<Rightarrow> fpval option" where
  "hex_body s =
     (case mantissa isxdigit s of (ip, fp, r) \<Rightarrow>
        if ip = [] \<and> fp = [] then None
        else Some (FRat (base_value 16 (ip @ fp)) 1
                     (exponent_part CHR ''p'' r - 4 * int (length fp))))"

definition float_body :: "string \<Rightarrow> fpval option" where
  "float_body s =
     (if starts_ci ''inf'' s then Some FInf
      else if starts_ci ''nan'' s then Some FNan
      else if starts_ci ''0x'' s \<and> hex_body (drop 2 s) \<noteq> None then hex_body (drop 2 s)
      else decimal_body s)"

definition strtod_opt :: "string \<Rightarrow> cdouble option" where
  "strtod_opt s =
     (case strip_sign (dropWhile isspace s) of (neg, r) \<Rightarrow>
        case float_body r of
          None \<Rightarrow> None
        | Some FInf \<Rightarrow> Some (double_infinity neg)
        | Some FNan \<Rightarrow> Some (if neg then 0xFFF8000000000000 else 0x7FF8000000000000)
        | Some (FRat m d e) \<Rightarrow> Some (double_make neg m d e))"

definition strtof :: "string \<Rightarrow> cfloat" where
  "strtof s =
     (case strip_sign (dropWhile isspace s) of (neg, r) \<Rightarrow>
        case float_body r of
          None \<Rightarrow> 0
        | Some FInf \<Rightarrow> if neg then 0xFF800000 else 0x7F800000
        | Some FNan \<Rightarrow> if neg then 0xFFC00000 else 0x7FC00000
        | Some (FRat m d e) \<Rightarrow> float_make neg m d e)"

section \<open>Input conversions\<close>

text \<open>\<open>%s\<close>: the word and the rest of the input, \<open>None\<close> at the end of the input.\<close>

definition scan_s :: "string \<Rightarrow> (string \<times> string) option" where
  "scan_s s =
     (case dropWhile isspace s of [] \<Rightarrow> None
      | s' \<Rightarrow> Some (takeWhile (\<lambda>c. \<not> isspace c) s', dropWhile (\<lambda>c. \<not> isspace c) s'))"

text \<open>
  \<open>%u\<close>: digits after an optional sign, converted by \<open>strtoul\<close> and cut to 32 bits.
\<close>

definition scan_u :: "string \<Rightarrow> u32 option" where
  "scan_u s =
     (let s' = dropWhile isspace s
      in case strip_sign s' of (neg, r) \<Rightarrow>
           if takeWhile isdigit r = [] then None else Some (ucast (strtoul10 s')))"

text \<open>
  The characters that \<open>%lf\<close> takes from the input once the sign is read: digits, one
  point, one exponent letter after a digit, a sign right after that letter.
\<close>

fun float_chars :: "bool \<Rightarrow> bool \<Rightarrow> bool \<Rightarrow> bool \<Rightarrow> bool \<Rightarrow> string \<Rightarrow> string" where
  "float_chars hex dig dot ex prev_ex [] = []"
| "float_chars hex dig dot ex prev_ex (c # s) =
     (if isdigit c \<or> (hex \<and> \<not> ex \<and> isxdigit c) then c # float_chars hex True dot ex False s
      else if ex \<and> prev_ex \<and> (c = CHR ''+'' \<or> c = CHR ''-'') then c # float_chars hex dig dot ex False s
      else if dig \<and> \<not> ex \<and> tolower c = (if hex then CHR ''p'' else CHR ''e'')
        then c # float_chars hex dig True True True s
      else if c = CHR ''.'' \<and> \<not> dot then c # float_chars hex dig True ex False s
      else [])"

definition float_item :: "string \<Rightarrow> string option" where
  "float_item s =
     (if s \<noteq> [] \<and> tolower (hd s) = CHR ''n''
        then (if starts_ci ''nan'' s then Some (take 3 s) else None)
      else if s \<noteq> [] \<and> tolower (hd s) = CHR ''i''
        then (if starts_ci ''infinity'' s then Some (take 8 s)
              else if starts_ci ''inf'' s \<and> \<not> starts_ci ''infi'' s then Some (take 3 s) else None)
      else if starts_ci ''0x'' s
        then (let t = float_chars True False False False False (drop 2 s)
              in if t = [] then None else Some (take 2 s @ t))
      else (let t = float_chars False False False False False s
            in if t = [] then None else Some t))"

definition scan_lf :: "string \<Rightarrow> (cdouble \<times> string) option" where
  "scan_lf s =
     (let s' = dropWhile isspace s
      in case strip_sign s' of (neg, r) \<Rightarrow>
           case float_item r of
             None \<Rightarrow> None
           | Some t \<Rightarrow>
               map_option (\<lambda>v. (v, drop (length t) r))
                 (strtod_opt ((if neg then ''-'' else []) @ t)))"

section \<open>Lines of a file\<close>

text \<open>
  \<open>fgets(buf, n, fh)\<close>: at most \<open>n - 1\<close> characters, up to and including a newline; the
  characters put into the buffer and the rest of the file, \<open>None\<close> at its end.
\<close>

fun line_take :: "nat \<Rightarrow> string \<Rightarrow> string" where
  "line_take 0 s = []"
| "line_take (Suc n) [] = []"
| "line_take (Suc n) (c # s) = (if c = CHR 0x0A then [c] else c # line_take n s)"

definition fgets :: "nat \<Rightarrow> string \<Rightarrow> (string \<times> string) option" where
  "fgets n s =
     (case s of [] \<Rightarrow> None
      | _ \<Rightarrow> let l = line_take (n - 1) s in Some (l, drop (length l) s))"

lemma length_line_take: "length (line_take n s) \<le> n"
  by (induction n s rule: line_take.induct) auto

lemma line_take_nonempty: "0 < n \<Longrightarrow> s \<noteq> [] \<Longrightarrow> line_take n s \<noteq> []"
  by (cases n; cases s) auto

lemma fgets_shorter: "2 \<le> n \<Longrightarrow> fgets n s = Some (l, r) \<Longrightarrow> length r < length s"
  using line_take_nonempty [of "n - 1" s]
  by (cases s) (auto simp: fgets_def Let_def)

text \<open>The string a buffer holds: the characters before the first NUL.\<close>

definition cstr :: "string \<Rightarrow> string" where
  "cstr buf = takeWhile (\<lambda>c. c \<noteq> CHR 0x00) buf"

end
