(* ===== verification/Whisper_Create.thy ===== *)
theory Whisper_Create
  imports Posix_Files Whisper_Format C_String
begin

text \<open>
  The first half of \<open>whisper.c\<close>: seeking and reading in a whisper file, choosing the
  retentions and the aggregation of a metric by pattern, its file name and
  directories, the layout of the archives and the creation of the file. A metric
  is passed as its name, the only member these functions read. Messages for the
  log are left out.
\<close>

section \<open>Reading\<close>

definition whisper_seek :: "int \<Rightarrow> int \<Rightarrow> ('a fsys_scheme, int) prog" where
  "whisper_seek fd off =
     andthen (posix_lseek fd off) (\<lambda>r. ret (if r < 0 then EXIT_FAILURE else EXIT_SUCCESS))"

definition whisper_read_metadata ::
    "platform \<Rightarrow> int \<Rightarrow> ('a fsys_scheme, whisper_metadata option) prog" where
  "whisper_read_metadata P fd =
     andthen (whisper_seek fd 0) (\<lambda>r.
       if r \<noteq> 0 then ret None
       else andthen (posix_read fd WHISPER_HEADER_SIZE) (\<lambda>(n, bs).
         if n < 0 then ret None
         else ret (Some (ntoh_whisper_metadata (host P)
                (metadata_of_mem (host P) (zero_pad WHISPER_HEADER_SIZE bs))))))"

definition whisper_read_archive_info ::
    "platform \<Rightarrow> int \<Rightarrow> int \<Rightarrow> ('a fsys_scheme, archive_info option) prog" where
  "whisper_read_archive_info P fd archive_id =
     andthen (whisper_seek fd (int32 (16 + archive_id * 12))) (\<lambda>r.
       if r \<noteq> 0 then ret None
       else andthen (posix_read fd WHISPER_ARCHIVE_SIZE) (\<lambda>(n, bs).
         if n < 0 then ret None
         else ret (Some (ntoh_archive_info (host P)
                (archive_info_of_mem (host P) (zero_pad WHISPER_ARCHIVE_SIZE bs))))))"

definition whisper_read_archive_point ::
    "platform \<Rightarrow> int \<Rightarrow> ('a fsys_scheme, archive_point option) prog" where
  "whisper_read_archive_point P fd =
     andthen (posix_read fd 4) (\<lambda>(n, bs).
       if n < 0 then ret None
       else andthen (posix_read fd 8) (\<lambda>(m, cs).
         if m < 0 then ret None
         else ret (Some (ntoh_archive_point (host P)
                (archive_point_of_mem (host P) (zero_pad 4 bs @ zero_pad 8 cs))))))"

section \<open>Patterns\<close>

text \<open>0 when the pattern matches, 1 when it does not, 2 on an error.\<close>

definition whisper_pattern_match :: "platform \<Rightarrow> string \<Rightarrow> string \<Rightarrow> int" where
  "whisper_pattern_match P pattern str =
     (if \<not> pcre_compiles P pattern then 2
      else let rc = pcre_exec P pattern str
           in if 0 \<le> rc then 0 else if rc \<noteq> -1 then 2 else 1)"

fun whisper_find_retention ::
    "platform \<Rightarrow> string \<Rightarrow> pattern_retention list \<Rightarrow> retention list" where
  "whisper_find_retention P name [] = []"
| "whisper_find_retention P name (pr # prs) =
     (let m = whisper_pattern_match P (str_pattern pr) name
      in if m = 0 then retention_list pr else if m = 2 then []
         else whisper_find_retention P name prs)"

fun whisper_find_aggregation ::
    "platform \<Rightarrow> string \<Rightarrow> pattern_aggregation list \<Rightarrow> pattern_aggregation option" where
  "whisper_find_aggregation P name [] = None"
| "whisper_find_aggregation P name (a # as) =
     (let m = whisper_pattern_match P (agg_pattern a) name
      in if m = 0 then Some a else if m = 2 then None
         else whisper_find_aggregation P name as)"

section \<open>File names and directories\<close>

definition create_dir :: "string \<Rightarrow> ('a fsys_scheme, unit) prog" where
  "create_dir dir_name =
     andthen (posix_stat dir_name) (\<lambda>(stat_value, is_dir) s.
       if stat_value = -1
         then (if fs_errno s = ENOENT then andthen (posix_mkdir dir_name) (\<lambda>_. ret ()) s
               else Inl (Exit 1))
       else if \<not> is_dir then Inl (Exit 1)
       else Inr ((), s))"

text \<open>
  The loop over the components of the name: \<open>tmp\<close> is \<open>tmp_dir_name\<close>, \<open>sub\<close> is
  \<open>metric_substr_last\<close>, \<open>save\<close> is what \<open>saveptr\<close> points to.
\<close>

function filename_loop :: "platform \<Rightarrow> string \<Rightarrow> string \<Rightarrow> string \<Rightarrow> stop + string" where
  "filename_loop P tmp sub save =
     (let tmp' = tmp @ ''/'' @ sub
      in if usable P PATH_MAX < length tmp' + 1 then Inl HeapOverflow
         else case strtok_r ''.'' save of
           None \<Rightarrow>
             (let res = tmp' @ ''.wsp''
              in if usable P PATH_MAX < length res + 1 then Inl HeapOverflow else Inr res)
         | Some (t, r) \<Rightarrow> filename_loop P tmp' t r)"
  by pat_completeness auto
termination
  by (relation "measure (\<lambda>(P, tmp, sub, save). length save)") (auto simp: strtok_r_shorter)

definition whisper_metric_filename :: "platform \<Rightarrow> carbon_conf \<Rightarrow> string \<Rightarrow> stop + string" where
  "whisper_metric_filename P cf name =
     (if usable P PATH_MAX < length (storage_dir cf) + 1 then Inl HeapOverflow
      else if METRIC_NAME_MAX_LEN \<le> length name then Inl OutOfBounds
      else case strtok_r ''.'' name of
        None \<Rightarrow> Inr []
      | Some (t, r) \<Rightarrow> filename_loop P (storage_dir cf) t r)"

function create_dirs_loop ::
    "platform \<Rightarrow> string \<Rightarrow> string \<Rightarrow> string \<Rightarrow> ('a fsys_scheme, unit) prog" where
  "create_dirs_loop P tmp sub save =
     (let tmp' = tmp @ ''/'' @ sub
      in if usable P PATH_MAX < length tmp' + 1 then halt HeapOverflow
         else case strtok_r ''.'' save of
           None \<Rightarrow> ret ()
         | Some (t, r) \<Rightarrow> andthen (create_dir tmp') (\<lambda>_. create_dirs_loop P tmp' t r))"
  by pat_completeness auto
termination
  by (relation "measure (\<lambda>(P, tmp, sub, save). length save)") (auto simp: strtok_r_shorter)

definition whisper_create_dirs ::
    "platform \<Rightarrow> carbon_conf \<Rightarrow> string \<Rightarrow> ('a fsys_scheme, unit) prog" where
  "whisper_create_dirs P cf name =
     (if usable P PATH_MAX < length (storage_dir cf) + 1 then halt HeapOverflow
      else andthen (create_dir (storage_dir cf)) (\<lambda>_.
        if METRIC_NAME_MAX_LEN \<le> length name then halt OutOfBounds
        else case strtok_r ''.'' name of
          None \<Rightarrow> ret ()
        | Some (t, r) \<Rightarrow> create_dirs_loop P (storage_dir cf) t r))"

declare filename_loop.simps [simp del] create_dirs_loop.simps [simp del]

section \<open>Layout of the archives\<close>

text \<open>The second loop: \<open>cur_ret\<close> walks over the first \<open>id_ret\<close> retentions.\<close>

fun offset_loop :: "retention list \<Rightarrow> nat \<Rightarrow> u32 \<Rightarrow> stop + u32" where
  "offset_loop cur 0 off = Inr off"
| "offset_loop [] (Suc n) off = Inl NullDeref"
| "offset_loop (r # rs) (Suc n) off =
     (if time_per_point r = 0 then Inl DivByZero
      else offset_loop rs n (off + time_to_store r div time_per_point r * 12))"

definition whisper_get_archive_offset :: "retention list \<Rightarrow> nat \<Rightarrow> stop + u32" where
  "whisper_get_archive_offset rets id_ret =
     offset_loop rets id_ret (fold (\<lambda>_ off. off + 12) rets 16)"

definition whisper_higher_archive_timestamp_start ::
    "u32 \<Rightarrow> archive_info \<Rightarrow> archive_info \<Rightarrow> u32" where
  "whisper_higher_archive_timestamp_start ts higher lower =
     ts - seconds_per_point lower + seconds_per_point higher"

section \<open>Creating a file\<close>

text \<open>The number of archives and the longest retention.\<close>

fun count_archs :: "retention list \<Rightarrow> u32 \<Rightarrow> u32 \<Rightarrow> u32 \<times> u32" where
  "count_archs [] nb_arch max_ret = (nb_arch, max_ret)"
| "count_archs (r # rs) nb_arch max_ret =
     count_archs rs (nb_arch + 1) (if max_ret < time_to_store r then time_to_store r else max_ret)"

text \<open>The two loops that write; \<open>False\<close> when one of their checks made the function return -1.\<close>

fun write_archive_headers ::
    "platform \<Rightarrow> int \<Rightarrow> retention list \<Rightarrow> retention list \<Rightarrow> nat \<Rightarrow> ('a fsys_scheme, bool) prog" where
  "write_archive_headers P fd rets [] id_ret = ret True"
| "write_archive_headers P fd rets (r # rs) id_ret =
     (if time_per_point r = 0 then halt DivByZero
      else let nb_points = time_to_store r div time_per_point r
           in andthen (pure_prog (whisper_get_archive_offset rets id_ret)) (\<lambda>off.
              andthen (posix_write fd (archive_info_mem (host P) (hton_archive_info (host P)
                   \<lparr>offset = off, seconds_per_point = time_per_point r, points = nb_points\<rparr>)))
                (\<lambda>n. if n < 12 then ret False
                     else write_archive_headers P fd rets rs (Suc id_ret))))"

text \<open>
  The size of an archive is a \<open>size_t\<close>, so the result of \<open>write\<close> is converted to an
  unsigned number before the comparison.
\<close>

fun write_empty_archives :: "int \<Rightarrow> retention list \<Rightarrow> ('a fsys_scheme, bool) prog" where
  "write_empty_archives fd [] = ret True"
| "write_empty_archives fd (r # rs) =
     (if time_per_point r = 0 then halt DivByZero
      else let nb_points = time_to_store r div time_per_point r;
               sizeof_arch = ucast (nb_points * 12) :: u64
           in andthen (posix_write fd (replicate (unat sizeof_arch) 0))
                (\<lambda>n. if (word_of_int n :: u64) < sizeof_arch then ret False
                     else write_empty_archives fd rs))"

definition whisper_create_file ::
    "platform \<Rightarrow> carbon_conf \<Rightarrow> string \<Rightarrow> ('a fsys_scheme, int) prog" where
  "whisper_create_file P cf name =
     (let rets = whisper_find_retention P name (schema cf)
      in andthen (pure_prog (whisper_metric_filename P cf name)) (\<lambda>filename.
         andthen (whisper_create_dirs P cf name) (\<lambda>_.
         case count_archs rets 0 0 of (nb_arch, max_ret) \<Rightarrow>
         case whisper_find_aggregation P name (aggregation cf) of
           None \<Rightarrow> ret (- 1)
         | Some agg \<Rightarrow>
             andthen (posix_open filename True) (\<lambda>fd.
             if fd = -1 then ret (- 1)
             else andthen (posix_write fd (metadata_mem (host P) (hton_whisper_metadata (host P)
                      \<lparr>md_aggregation_type = agg_code (agg_method agg), md_max_retention = max_ret,
                       md_x_files_factor = agg_xff agg, md_archive_count = nb_arch\<rparr>))) (\<lambda>n.
             if n < 16 then ret (- 1)
             else andthen (write_archive_headers P fd rets rets 0) (\<lambda>ok.
             if \<not> ok then ret (- 1)
             else andthen (write_empty_archives fd rets) (\<lambda>ok.
             if \<not> ok then ret (- 1) else ret fd)))))))"

section \<open>Reading from an open file\<close>

lemma seek_fview [posix_simps]:
  "fd_ok s fd \<Longrightarrow> 0 \<le> off \<Longrightarrow>
   whisper_seek fd off (fview fd p n c s) = Inr (0, fview fd p (nat off) c s)"
  by (simp add: whisper_seek_def andthen_def posix_simps)

lemma seek_bad_fd [posix_simps]:
  "fs_faults s = [] \<Longrightarrow> fd < 0 \<Longrightarrow> whisper_seek fd off s = Inr (1, s\<lparr>fs_errno := EBADF\<rparr>)"
  by (simp add: whisper_seek_def andthen_def posix_simps)

lemma read_metadata_fview [posix_simps]:
  "fd_ok s fd \<Longrightarrow> WHISPER_HEADER_SIZE \<le> length c \<Longrightarrow>
   whisper_read_metadata P fd (fview fd p n c s) =
     Inr (Some (metadata_dec (host P) (read_at 0 WHISPER_HEADER_SIZE c)),
          fview fd p WHISPER_HEADER_SIZE c s)"
  by (simp add: whisper_read_metadata_def andthen_def posix_simps metadata_dec_def)

lemma read_metadata_bad_fd [posix_simps]:
  "fs_faults s = [] \<Longrightarrow> fd < 0 \<Longrightarrow>
   whisper_read_metadata P fd s = Inr (None, s\<lparr>fs_errno := EBADF\<rparr>)"
  by (simp add: whisper_read_metadata_def andthen_def posix_simps)

lemma read_archive_info_fview [posix_simps]:
  assumes "fd_ok s fd" "16 + i * 12 < 2 ^ 31"
  shows "whisper_read_archive_info P fd (int i) (fview fd p n c s) =
     Inr (Some (info_dec (host P) (zero_pad 12 (read_at (16 + i * 12) 12 c))),
          fview fd p (16 + i * 12 + length (read_at (16 + i * 12) 12 c)) c s)"
proof -
  have "int32 (16 + int i * 12) = 16 + int i * 12"
    using assms(2) by (intro int32_id) auto
  moreover have "nat (16 + int i * 12) = 16 + i * 12" by simp
  ultimately show ?thesis
    using assms(1) by (simp add: whisper_read_archive_info_def andthen_def posix_simps info_dec_def)
qed

lemma read_archive_point_fview [posix_simps]:
  assumes "fd_ok s fd" "n + 12 \<le> length c"
  shows "whisper_read_archive_point P fd (fview fd p n c s) =
     Inr (Some (point_dec (host P) (read_at n 12 c)), fview fd p (n + 12) c s)"
proof -
  have "read_at n 4 c @ read_at (n + 4) 8 c = read_at n 12 c"
    using take_add [of 4 8 "drop n c"] by (simp add: read_at_def add.commute)
  with assms show ?thesis
    by (simp add: whisper_read_archive_point_def andthen_def posix_simps point_dec_def add.assoc)
qed

section \<open>First match wins\<close>

text \<open>
  What the two searches of the configuration promise: the entries are tried in
  their order, the first that matches is taken, and a pattern that does not
  compile ends the search without a result.
\<close>

locale first_match =
  fixes verdict :: "'e \<Rightarrow> int"
    and select :: "'e list \<Rightarrow> 'r"
    and found :: "'e \<Rightarrow> 'r"
    and missing :: 'r
  assumes select_Nil: "select [] = missing"
    and select_Cons: "select (e # es) =
      (if verdict e = 0 then found e else if verdict e = 2 then missing else select es)"
begin

lemma select_skip: "\<forall>x\<in>set pre. verdict x = 1 \<Longrightarrow> select (pre @ es) = select es"
  by (induction pre) (simp_all add: select_Cons)

lemma select_first:
  "\<forall>x\<in>set pre. verdict x = 1 \<Longrightarrow> verdict e = 0 \<Longrightarrow> select (pre @ e # post) = found e"
  by (simp add: select_skip select_Cons)

lemma select_error:
  "\<forall>x\<in>set pre. verdict x = 1 \<Longrightarrow> verdict e = 2 \<Longrightarrow> select (pre @ e # post) = missing"
  by (simp add: select_skip select_Cons)

lemma select_none: "\<forall>x\<in>set es. verdict x = 1 \<Longrightarrow> select es = missing"
  using select_skip [of es "[]"] by (simp add: select_Nil)

text \<open>The three cases are all there are, for verdicts between 0 and 2.\<close>

lemma select_cases:
  assumes "\<forall>x\<in>set es. verdict x \<in> {0, 1, 2}"
  shows "(\<exists>pre e post. es = pre @ e # post \<and> (\<forall>x\<in>set pre. verdict x = 1) \<and>
            verdict e = 0 \<and> select es = found e) \<or> select es = missing"
  using assms
proof (induction es)
  case Nil
  then show ?case by (simp add: select_Nil)
next
  case (Cons e es)
  consider "verdict e = 0" | "verdict e = 2" | "verdict e = 1" using Cons.prems by auto
  then show ?case
  proof cases
    case 1
    then have "select (e # es) = found e" by (simp add: select_Cons)
    moreover have "e # es = [] @ e # es" by simp
    ultimately show ?thesis using 1 by (metis empty_iff list.set(1))
  next
    case 2
    then show ?thesis by (simp add: select_Cons)
  next
    case 3
    from Cons have "(\<exists>pre e' post. es = pre @ e' # post \<and> (\<forall>x\<in>set pre. verdict x = 1) \<and>
        verdict e' = 0 \<and> select es = found e') \<or> select es = missing" by simp
    then show ?thesis
    proof
      assume "\<exists>pre e' post. es = pre @ e' # post \<and> (\<forall>x\<in>set pre. verdict x = 1) \<and>
        verdict e' = 0 \<and> select es = found e'"
      then obtain pre e' post where *: "es = pre @ e' # post" "\<forall>x\<in>set pre. verdict x = 1"
        "verdict e' = 0" "select es = found e'" by blast
      then have "e # es = (e # pre) @ e' # post" "\<forall>x\<in>set (e # pre). verdict x = 1"
        "select (e # es) = found e'" using 3 by (simp_all add: select_Cons)
      with *(3) show ?thesis by blast
    qed (use 3 in \<open>simp add: select_Cons\<close>)
  qed
qed

end

interpretation retention_search: first_match
  "\<lambda>pr. whisper_pattern_match P (str_pattern pr) name" "whisper_find_retention P name"
  retention_list "[]"
  for P name
  by unfold_locales (simp_all add: Let_def)

interpretation aggregation_search: first_match
  "\<lambda>a. whisper_pattern_match P (agg_pattern a) name" "whisper_find_aggregation P name"
  Some None
  for P name
  by unfold_locales (simp_all add: Let_def)

section \<open>Names of files and directories\<close>

text \<open>A path below a directory: one more component for each part of the name.\<close>

definition below :: "string \<Rightarrow> string list \<Rightarrow> string" where
  "below d ts = d @ concat (map (\<lambda>t. CHR ''/'' # t) ts)"

lemma below_Nil [simp]: "below d [] = d"
  by (simp add: below_def)

lemma below_Cons: "below d (t # ts) = below (d @ ''/'' @ t) ts"
  by (simp add: below_def)

lemma below_append: "below d (ts @ us) = below (below d ts) us"
  by (simp add: below_def)

lemma filename_loop_spec:
  "filename_loop P tmp sub save =
     (let f = below tmp (sub # tokens ''.'' save)
      in if usable P PATH_MAX < length f + 5 then Inl HeapOverflow else Inr (f @ ''.wsp''))"
proof (induction P tmp sub save rule: filename_loop.induct)
  case (1 P tmp sub save)
  let ?tmp' = "tmp @ ''/'' @ sub"
  show ?case
  proof (cases "strtok_r ''.'' save")
    case None
    then show ?thesis
      by (subst filename_loop.simps) (auto simp: Let_def below_def)
  next
    case (Some tr)
    then obtain t r where tr: "strtok_r ''.'' save = Some (t, r)" by (cases tr) auto
    have len: "length ?tmp' \<le> length (below ?tmp' (t # tokens ''.'' r))"
      by (simp add: below_def)
    have eq: "below tmp (sub # tokens ''.'' save) = below ?tmp' (t # tokens ''.'' r)"
      using tr by (simp add: below_Cons)
    show ?thesis
    proof (cases "usable P PATH_MAX < length ?tmp' + 1")
      case True
      then show ?thesis unfolding eq using len
        by (subst filename_loop.simps) (simp add: Let_def)
    next
      case False
      from "1.IH" [OF refl False tr refl] show ?thesis unfolding eq using False tr
        by (subst filename_loop.simps) (simp add: Let_def)
    qed
  qed
qed

theorem metric_filename_spec:
  "whisper_metric_filename P cf name =
     (if usable P PATH_MAX < length (storage_dir cf) + 1 then Inl HeapOverflow
      else if METRIC_NAME_MAX_LEN \<le> length name then Inl OutOfBounds
      else let ts = tokens ''.'' name; f = below (storage_dir cf) ts
           in if ts = [] then Inr []
              else if usable P PATH_MAX < length f + 5 then Inl HeapOverflow
              else Inr (f @ ''.wsp''))"
  by (cases "strtok_r ''.'' name")
    (auto simp: whisper_metric_filename_def filename_loop_spec Let_def split: prod.splits)

lemma create_dir_spec:
  assumes "fs_faults s = []" "name \<noteq> []" "fs_dirs s (butlast (components name))"
    "clear_path s (components name)"
  obtains s1 where "create_dir name s = Inr ((), s1)" "dirs_added s {components name} s1"
proof (cases "fs_dirs s (components name)")
  case True
  then have "create_dir name s = Inr ((), s)"
    using assms by (simp add: create_dir_def posix_stat_def andthen_def next_fault_none Let_def)
  moreover have "dirs_added s {components name} s"
    using True by (intro dirs_added_refl) simp
  ultimately show ?thesis by (rule that)
next
  case False
  then have ne: "components name \<noteq> []" using assms(3) by auto
  define s1 where
    "s1 = s\<lparr>fs_errno := ENOENT, fs_dirs := (fs_dirs s)(components name := True)\<rparr>"
  have "through_file (s\<lparr>fs_errno := ENOENT\<rparr>) p = through_file s p" for p
    by (simp add: through_file_def)
  then have "create_dir name s = Inr ((), s1)"
    using False assms clear_path_files [OF ne assms(4)] clear_path_through [OF assms(4)]
    by (simp add: create_dir_def posix_stat_def posix_mkdir_def andthen_def next_fault_none
        fails_def Let_def s1_def)
  moreover have "dirs_added s {components name} s1"
    unfolding dirs_added_def s1_def by (rule exI [of _ ENOENT]) (auto simp: fun_eq_iff)
  ultimately show ?thesis by (rule that)
qed

lemma components_below:
  "\<forall>t\<in>set ts. simple_name t \<Longrightarrow> components (below d ts) = components d @ ts"
proof (induction ts arbitrary: d)
  case (Cons t ts)
  then have "components (below (d @ ''/'' @ t) ts) = components (d @ ''/'' @ t) @ ts" by simp
  also have "\<dots> = components d @ t # ts"
    unfolding components_append using Cons.prems by (simp add: components_simple)
  finally show ?case by (simp add: below_Cons)
qed simp

text \<open>The directories between a directory and a file below it.\<close>

definition dirs_between :: "path \<Rightarrow> string list \<Rightarrow> path set" where
  "dirs_between q ts = {q @ take k ts |k. 0 < k \<and> k < length ts}"

lemma dirs_between_single [simp]: "dirs_between q [t] = {}"
  by (auto simp: dirs_between_def)

lemma mem_dirs_between_Cons:
  "x \<in> dirs_between q (t # ts) \<longleftrightarrow> (\<exists>j. j < length ts \<and> x = q @ t # take j ts)"
proof -
  have "x \<in> dirs_between q (t # ts) \<longleftrightarrow>
      (\<exists>j. x = q @ take (Suc j) (t # ts) \<and> Suc j < length (t # ts))"
    unfolding dirs_between_def mem_Collect_eq by (metis gr0_conv_Suc zero_less_Suc)
  then show ?thesis by auto
qed

lemma dirs_between_Cons:
  "dirs_between q (t # u # us) = {q @ [t]} \<union> dirs_between (q @ [t]) (u # us)"
proof (rule set_eqI)
  fix x
  have "x \<in> dirs_between q (t # u # us) \<longleftrightarrow>
      x = q @ [t] \<or> (\<exists>j. j < length us \<and> x = q @ t # take (Suc j) (u # us))"
    unfolding mem_dirs_between_Cons
    by (metis length_Cons not0_implies_Suc not_less_eq take0 zero_less_Suc take_0)
  then show "x \<in> dirs_between q (t # u # us) \<longleftrightarrow>
      x \<in> {q @ [t]} \<union> dirs_between (q @ [t]) (u # us)"
    by (auto simp: mem_dirs_between_Cons)
qed

lemma create_dirs_loop_spec:
  assumes "fs_faults s = []" "fs_dirs s (components tmp)"
    and "\<forall>t\<in>set (sub # tokens ''.'' save). simple_name t"
    and "clear_path s (components tmp @ butlast (sub # tokens ''.'' save))"
    and "length (below tmp (sub # tokens ''.'' save)) + 1 \<le> usable P PATH_MAX"
  shows "\<exists>s1. create_dirs_loop P tmp sub save s = Inr ((), s1) \<and>
           dirs_added s (dirs_between (components tmp) (sub # tokens ''.'' save)) s1"
  using assms
proof (induction P tmp sub save arbitrary: s rule: create_dirs_loop.induct)
  case (1 P tmp sub save)
  let ?tmp' = "tmp @ ''/'' @ sub"
  have fits: "\<not> usable P PATH_MAX < length ?tmp' + 1"
    using "1.prems"(5) by (simp add: below_def)
  have comp: "components ?tmp' = components tmp @ [sub]"
    using "1.prems"(3) by (simp only: components_append) (simp add: components_simple)
  show ?case
  proof (cases "strtok_r ''.'' save")
    case None
    with fits show ?thesis
      by (subst create_dirs_loop.simps) (simp add: Let_def dirs_added_refl)
  next
    case (Some tr)
    then obtain t r where tr: "strtok_r ''.'' save = Some (t, r)" by (cases tr) auto
    have toks: "tokens ''.'' save = t # tokens ''.'' r" using tr by simp
    have "clear_path s (take (length (components tmp) + 1)
        (components tmp @ butlast (sub # tokens ''.'' save)))"
      using "1.prems"(4) by (rule clear_path_take)
    then have "clear_path s (components ?tmp')" unfolding comp by (simp add: toks)
    with "1.prems"(1,2) obtain s1 where
      s1: "create_dir ?tmp' s = Inr ((), s1)" "dirs_added s {components ?tmp'} s1"
      by (rule_tac name = ?tmp' and s = s in create_dir_spec) (auto simp: comp [simplified])
    note ds = dirs_added_simps [OF s1(2)]
    have "\<exists>s2. create_dirs_loop P ?tmp' t r s1 = Inr ((), s2) \<and>
        dirs_added s1 (dirs_between (components ?tmp') (t # tokens ''.'' r)) s2"
    proof (rule "1.IH" [OF refl fits tr refl])
      show "clear_path s1 (components ?tmp' @ butlast (t # tokens ''.'' r))"
        unfolding ds comp using "1.prems"(4) toks by simp
      show "length (below ?tmp' (t # tokens ''.'' r)) + 1 \<le> usable P PATH_MAX"
        using "1.prems"(5) by (simp add: toks below_Cons)
    qed (use "1.prems" toks ds comp in auto)
    then obtain s2 where s2: "create_dirs_loop P ?tmp' t r s1 = Inr ((), s2)"
      "dirs_added s1 (dirs_between (components ?tmp') (t # tokens ''.'' r)) s2" by blast
    have "create_dirs_loop P tmp sub save s = Inr ((), s2)"
      using fits tr s1(1) s2(1)
      by (subst create_dirs_loop.simps) (simp add: Let_def andthen_def)
    moreover have "dirs_added s (dirs_between (components tmp) (sub # tokens ''.'' save)) s2"
      using dirs_added_trans [OF s1(2) s2(2)] unfolding toks dirs_between_Cons comp .
    ultimately show ?thesis by blast
  qed
qed

end
