(* ===== verification/Whisper_Write.thy ===== *)
theory Whisper_Write
  imports Whisper_Create
begin

text \<open>
  The second half of \<open>whisper.c\<close>: aggregation, writing a point into its slot,
  propagation to the archives of lower precision, and \<open>whisper_write_value\<close>. The
  state is the file state and the counter of written points that the monitoring
  thread reads.
\<close>

record wsp_state = fsys +
  monitoring_points :: u32

section \<open>Aggregation\<close>

definition whisper_aggregate_values :: "cdouble list \<Rightarrow> u32 \<Rightarrow> u32 \<Rightarrow> cdouble" where
  "whisper_aggregate_values aggregated_values nb_known_points aggregation_type =
     (let total = foldl double_add 0 (take (unat nb_known_points) aggregated_values)
      in if aggregation_type = agg_code AGG_TYPE_AVERAGE
           then double_div total (double_of_u32 nb_known_points)
         else if aggregation_type = agg_code AGG_TYPE_SUM then total
         else 0)"

section \<open>Writing a point\<close>

text \<open>
  Where the point goes: at the start of an archive that was never written, else at
  the distance of the timestamps in points, modulo the archive. The distance in
  bytes is a 32-bit product.
\<close>

definition point_write_offset :: "archive_info \<Rightarrow> u32 \<Rightarrow> u32 \<Rightarrow> stop + u32" where
  "point_write_offset archive ts first_ts =
     (if first_ts = 0 then Inr (offset archive)
      else if seconds_per_point archive = 0 then Inl DivByZero
      else let time_distance = (ts - first_ts) div seconds_per_point archive
           in if archive_size archive = 0 then Inl DivByZero
              else Inr (ucast (ucast (offset archive)
                          + ucast (time_distance * 12) mod archive_size archive)))"

definition whisper_write_point ::
    "platform \<Rightarrow> int \<Rightarrow> archive_info \<Rightarrow> u32 \<Rightarrow> archive_point \<Rightarrow> ('a wsp_state_scheme, int) prog" where
  "whisper_write_point P fd archive ts point =
     andthen (whisper_seek fd (sint (offset archive))) (\<lambda>r.
     if r \<noteq> 0 then ret 1
     else andthen (whisper_read_archive_point P fd) (\<lambda>first.
     case first of
       None \<Rightarrow> halt NullDeref
     | Some first_arch_pt \<Rightarrow>
         andthen (pure_prog (point_write_offset archive ts (pt_timestamp first_arch_pt))) (\<lambda>write_offset.
         andthen (posix_lseek fd (uint write_offset)) (\<lambda>r.
         if r < 0 then ret 1
         else andthen (posix_write fd (archive_point_mem (host P) point)) (\<lambda>n.
         if n < 12 then ret 1
         else (\<lambda>s. Inr (0, s\<lparr>monitoring_points := monitoring_points s + 1\<rparr>)))))))"

section \<open>Propagation\<close>

text \<open>\<open>higher_start_offset\<close>, \<open>higher_end_offset\<close> and \<open>nb_higher_points\<close>.\<close>

definition propagate_window ::
    "archive_info \<Rightarrow> archive_info \<Rightarrow> u32 \<Rightarrow> u32 \<Rightarrow> stop + u32 \<times> u32 \<times> u32" where
  "propagate_window higher lower ts first_ts =
     (if seconds_per_point higher = 0 then Inl DivByZero
      else let points_distance =
             (whisper_higher_archive_timestamp_start ts higher lower - first_ts)
               div seconds_per_point higher
           in if archive_size higher = 0 then Inl DivByZero
              else let higher_start = ucast (ucast (offset higher)
                         + ucast (points_distance * 12) mod archive_size higher);
                       nb = seconds_per_point lower div seconds_per_point higher;
                       higher_end = ucast (ucast (higher_start + nb * 12) mod archive_size higher)
                   in Inr (higher_start, higher_end, nb))"

text \<open>The conversion of an \<open>int\<close> to \<open>size_t\<close>.\<close>

definition size_of_int :: "int \<Rightarrow> nat" where
  "size_of_int i = nat (i mod 2 ^ 64)"

text \<open>Bytes that arrive in the buffer from index \<open>pos\<close> on; \<open>cap\<close> bytes are allocated.\<close>

definition buf_put :: "nat \<Rightarrow> int \<Rightarrow> byte list \<Rightarrow> byte list \<Rightarrow> stop + byte list" where
  "buf_put cap pos bs buf =
     (if bs = [] then Inr buf
      else if pos < 0 \<or> cap < nat pos + length bs then Inl HeapOverflow
      else Inr (write_at (nat pos) bs buf))"

definition propagate_read ::
    "platform \<Rightarrow> int \<Rightarrow> archive_info \<Rightarrow> u32 \<Rightarrow> u32 \<Rightarrow> ('a fsys_scheme, byte list) prog" where
  "propagate_read P fd higher higher_start higher_end =
     (let size = unat (archive_size higher); cap = usable P size; rd_buf = replicate size 0
      in andthen (whisper_seek fd (sint higher_start)) (\<lambda>_.
         if higher_start < higher_end
         then andthen (posix_read fd (unat (higher_end - higher_start))) (\<lambda>(_, bs).
              pure_prog (buf_put cap 0 bs rd_buf))
         else let rd_len = sint (archive_offset_end higher - higher_start);
                  rd_len2 = sint (offset higher - higher_end)
              in andthen (posix_read fd (size_of_int rd_len)) (\<lambda>(_, bs).
                 andthen (pure_prog (buf_put cap 0 bs rd_buf)) (\<lambda>rd_buf.
                 andthen (whisper_seek fd (sint (offset higher))) (\<lambda>_.
                 andthen (posix_read fd (size_of_int rd_len2)) (\<lambda>(_, bs).
                 pure_prog (buf_put cap rd_len bs rd_buf)))))))"

text \<open>
  The loop over the points of the buffer: \<open>n\<close> points are left, \<open>i\<close> is
  \<open>higher_point_id\<close>, \<open>room\<close> the length of \<open>agregated_values\<close>.
\<close>

fun collect_known ::
    "platform \<Rightarrow> byte list \<Rightarrow> nat \<Rightarrow> u32 \<Rightarrow> nat \<Rightarrow> nat \<Rightarrow> u32 \<Rightarrow> cdouble list \<Rightarrow> stop + cdouble list" where
  "collect_known P rd_buf room spp 0 i cur_ts vals = Inr vals"
| "collect_known P rd_buf room spp (Suc n) i cur_ts vals =
     (if length rd_buf < i * 12 + 12 then Inl OutOfBounds
      else let p = ntoh_archive_point (host P)
                     (archive_point_of_mem (host P) (read_at (i * 12) 12 rd_buf))
           in if pt_timestamp p = cur_ts
              then (if room \<le> length vals then Inl StackOverflow
                    else collect_known P rd_buf room spp n (Suc i) (cur_ts + spp)
                           (vals @ [pt_value p]))
              else collect_known P rd_buf room spp n (Suc i) (cur_ts + spp) vals)"

definition whisper_write_propagate ::
    "platform \<Rightarrow> int \<Rightarrow> u32 \<Rightarrow> whisper_metadata \<Rightarrow> archive_info \<Rightarrow> archive_info
       \<Rightarrow> ('a wsp_state_scheme, int) prog" where
  "whisper_write_propagate P fd ts wsp_md higher lower =
     andthen (whisper_seek fd (sint (offset higher))) (\<lambda>_.
     andthen (whisper_read_archive_point P fd) (\<lambda>first.
     case first of
       None \<Rightarrow> halt NullDeref
     | Some first_higher_point \<Rightarrow>
         andthen (pure_prog (propagate_window higher lower ts (pt_timestamp first_higher_point)))
           (\<lambda>(higher_start, higher_end, nb_higher_points).
         andthen (propagate_read P fd higher higher_start higher_end) (\<lambda>rd_buf.
         andthen (pure_prog (collect_known P rd_buf (unat (points higher))
              (seconds_per_point higher) (unat nb_higher_points) 0
              (whisper_higher_archive_timestamp_start ts higher lower) [])) (\<lambda>vals.
         let nb_known_points = of_nat (length vals) :: u32
         in if nb_higher_points = 0 then halt DivByZero
            else if float_ge (float_of_u32 (nb_known_points div nb_higher_points))
                      (md_x_files_factor wsp_md)
            then andthen (whisper_write_point P fd lower ts (hton_archive_point (host P)
                   \<lparr>pt_timestamp = ts,
                    pt_value = whisper_aggregate_values vals nb_known_points
                                 (md_aggregation_type wsp_md)\<rparr>)) (\<lambda>_.
                 ret EXIT_SUCCESS)
            else ret EXIT_SUCCESS)))))"

text \<open>The propagation loop: \<open>n\<close> archives are left, the next one has number \<open>archive_id\<close>.\<close>

fun propagate_loop ::
    "platform \<Rightarrow> int \<Rightarrow> whisper_metadata \<Rightarrow> u32 \<Rightarrow> archive_info \<Rightarrow> nat \<Rightarrow> nat
       \<Rightarrow> ('a wsp_state_scheme, unit) prog" where
  "propagate_loop P fd wsp_md ts higher archive_id 0 = ret ()"
| "propagate_loop P fd wsp_md ts higher archive_id (Suc n) =
     andthen (whisper_read_archive_info P fd (int archive_id)) (\<lambda>arch.
     case arch of
       None \<Rightarrow> halt NullDeref
     | Some lower \<Rightarrow>
         if seconds_per_point lower = 0 then halt AssertFailed
         else if ts mod seconds_per_point lower = 0
         then andthen (whisper_write_propagate P fd ts wsp_md higher lower) (\<lambda>_.
              propagate_loop P fd wsp_md ts lower (Suc archive_id) n)
         else ret ())"

section \<open>Writing a value\<close>

text \<open>Opening the file of a metric, which creates it when it is missing; \<open>None\<close> on other errors.\<close>

definition whisper_open ::
    "platform \<Rightarrow> carbon_conf \<Rightarrow> string \<Rightarrow> string \<Rightarrow> ('a fsys_scheme, int option) prog" where
  "whisper_open P cf name filename =
     andthen (posix_open filename False) (\<lambda>fd s.
       if fd < 0
       then (if fs_errno s = ENOENT
             then andthen (whisper_create_file P cf name) (\<lambda>fd. ret (Some fd)) s
             else Inr (None, s))
       else Inr (Some fd, s))"

text \<open>The work on the open file, up to the point where it is closed.\<close>

definition whisper_update ::
    "platform \<Rightarrow> int \<Rightarrow> u32 \<Rightarrow> cdouble \<Rightarrow> ('a wsp_state_scheme, int) prog" where
  "whisper_update P fd ts v =
     andthen (whisper_read_metadata P fd) (\<lambda>md.
     case md of None \<Rightarrow> ret EXIT_FAILURE | Some wsp_md \<Rightarrow>
     andthen (whisper_read_archive_info P fd 0) (\<lambda>arch.
     case arch of None \<Rightarrow> ret EXIT_FAILURE | Some wsp_arch \<Rightarrow>
     if seconds_per_point wsp_arch = 0 then halt DivByZero
     else let aligned_ts = ts - ts mod seconds_per_point wsp_arch
          in andthen (whisper_write_point P fd wsp_arch aligned_ts
                 (hton_archive_point (host P) \<lparr>pt_timestamp = aligned_ts, pt_value = v\<rparr>)) (\<lambda>_.
             andthen (propagate_loop P fd wsp_md aligned_ts wsp_arch 1
                 (unat (md_archive_count wsp_md) - 1)) (\<lambda>_.
             andthen (posix_close fd) (\<lambda>_. ret EXIT_SUCCESS)))))"

definition whisper_write_value ::
    "platform \<Rightarrow> carbon_conf \<Rightarrow> string \<Rightarrow> u32 \<Rightarrow> cdouble \<Rightarrow> ('a wsp_state_scheme, int) prog" where
  "whisper_write_value P cf name ts v =
     andthen (pure_prog (whisper_metric_filename P cf name)) (\<lambda>filename.
     andthen (whisper_open P cf name filename) (\<lambda>fd.
     case fd of None \<Rightarrow> ret EXIT_FAILURE | Some fd \<Rightarrow> whisper_update P fd ts v))"

end
