(* ===== verification/Whisper_Layout.thy ===== *)
theory Whisper_Layout
  imports Whisper_Create
begin

text \<open>
  What \<open>whisper_create_file\<close> leaves on disk: the directories of the metric, and a
  file that holds the header, the archive headers with contiguous offsets and
  zeroed archives. The reference layout is stated here with natural numbers and
  related to the 32-bit computation of the code.
\<close>

section \<open>The path of a metric\<close>

text \<open>
  The conditions under which the directories and the file of a metric can be
  made: no fault, a name that fits the buffers and has a component, no regular
  file in the way, and a storage directory whose parent exists.
\<close>

definition metric_ready :: "platform \<Rightarrow> carbon_conf \<Rightarrow> string \<Rightarrow> 'a fsys_scheme \<Rightarrow> bool" where
  "metric_ready P cf name s \<longleftrightarrow>
     fs_faults s = [] \<and> storage_dir cf \<noteq> [] \<and> length name < METRIC_NAME_MAX_LEN \<and>
     tokens ''.'' name \<noteq> [] \<and> CHR ''/'' \<notin> set name \<and>
     length (below (storage_dir cf) (tokens ''.'' name)) + 5 \<le> usable P PATH_MAX \<and>
     fs_dirs s (butlast (components (storage_dir cf))) \<and>
     clear_path s (components (storage_dir cf) @ butlast (tokens ''.'' name))"

definition metric_path :: "carbon_conf \<Rightarrow> string \<Rightarrow> path" where
  "metric_path cf name =
     (let ts = tokens ''.'' name
      in components (storage_dir cf) @ butlast ts @ [last ts @ ''.wsp''])"

definition metric_file :: "carbon_conf \<Rightarrow> string \<Rightarrow> string" where
  "metric_file cf name = below (storage_dir cf) (tokens ''.'' name) @ ''.wsp''"

lemma token_simple:
  "CHR ''/'' \<notin> set name \<Longrightarrow> t \<in> set (tokens ''.'' name) \<Longrightarrow> simple_name t"
  using tokens_ok [of t "''.''" name] by (auto simp: simple_name_def)

lemma metric_filename_ready:
  assumes "metric_ready P cf name s"
  shows "whisper_metric_filename P cf name = Inr (metric_file cf name)"
    and "metric_file cf name \<noteq> []"
    and "components (metric_file cf name) = metric_path cf name"
proof -
  let ?ts = "tokens ''.'' name" and ?d = "storage_dir cf"
  have len: "length ?d \<le> length (below ?d ?ts)" by (simp add: below_def)
  with assms show "whisper_metric_filename P cf name = Inr (metric_file cf name)"
    by (simp add: metric_ready_def metric_filename_spec Let_def metric_file_def)
  show "metric_file cf name \<noteq> []" by (simp add: metric_file_def)
  have ne: "?ts \<noteq> []" and sl: "CHR ''/'' \<notin> set name"
    using assms by (simp_all add: metric_ready_def)
  have ok: "\<forall>t\<in>set ?ts. simple_name t" using token_simple [OF sl] by blast
  have "last ?ts \<in> set ?ts" using ne by simp
  with ok have "simple_name (last ?ts @ ''.wsp'')"
    by (auto simp: simple_name_def)
  with ok have "\<forall>t\<in>set (butlast ?ts @ [last ?ts @ ''.wsp'']). simple_name t"
    by (auto dest: in_set_butlastD)
  note comp = components_below [OF this, of ?d]
  have "metric_file cf name = below ?d (butlast ?ts @ [last ?ts]) @ ''.wsp''"
    using ne by (simp add: metric_file_def)
  also have "\<dots> = below ?d (butlast ?ts @ [last ?ts @ ''.wsp''])"
    by (simp only: below_append) (simp add: below_def)
  finally show "components (metric_file cf name) = metric_path cf name"
    using comp by (simp add: metric_path_def Let_def)
qed

lemma butlast_metric_path:
  "butlast (metric_path cf name) = components (storage_dir cf) @ butlast (tokens ''.'' name)"
  by (simp add: metric_path_def Let_def butlast_append)

lemma create_dirs_ready:
  assumes "metric_ready P cf name s"
  obtains s1 where "whisper_create_dirs P cf name s = Inr ((), s1)"
    "dirs_added s ({components (storage_dir cf)}
        \<union> dirs_between (components (storage_dir cf)) (tokens ''.'' name)) s1"
proof -
  let ?ts = "tokens ''.'' name" and ?d = "storage_dir cf"
  note r = assms [unfolded metric_ready_def]
  have "clear_path s (take (length (components ?d)) (components ?d @ butlast ?ts))"
    using r by (intro clear_path_take) simp
  then have "clear_path s (components ?d)" by simp
  with r obtain s1 where
    s1: "create_dir ?d s = Inr ((), s1)" "dirs_added s {components ?d} s1"
    by (rule_tac name = ?d and s = s in create_dir_spec) auto
  note ds = dirs_added_simps [OF s1(2)]
  obtain t save where tr: "strtok_r ''.'' name = Some (t, save)"
    using r by (cases "strtok_r ''.'' name") auto
  then have ts: "?ts = t # tokens ''.'' save" by simp
  have "\<exists>s2. create_dirs_loop P ?d t save s1 = Inr ((), s2) \<and>
      dirs_added s1 (dirs_between (components ?d) (t # tokens ''.'' save)) s2"
    using r token_simple [of name] by (intro create_dirs_loop_spec) (auto simp: ds ts)
  then obtain s2 where s2: "create_dirs_loop P ?d t save s1 = Inr ((), s2)"
    "dirs_added s1 (dirs_between (components ?d) ?ts) s2" by (auto simp: ts)
  have "length ?d \<le> length (below ?d ?ts)" by (simp add: below_def)
  then have "whisper_create_dirs P cf name s = Inr ((), s2)"
    using r s1(1) s2(1) tr by (simp add: whisper_create_dirs_def andthen_def)
  with dirs_added_trans [OF s1(2) s2(2)] show ?thesis using that by blast
qed

text \<open>The directory of the file is among those that were made.\<close>

lemma parent_added:
  assumes "metric_ready P cf name s"
  shows "butlast (metric_path cf name) \<in> {components (storage_dir cf)}
    \<union> dirs_between (components (storage_dir cf)) (tokens ''.'' name)"
proof (cases "length (tokens ''.'' name) = 1")
  case True
  then have "butlast (tokens ''.'' name) = []" by (cases "tokens ''.'' name") auto
  then show ?thesis by (simp add: butlast_metric_path)
next
  case False
  let ?ts = "tokens ''.'' name" and ?d = "components (storage_dir cf)"
  have "?d @ take (length ?ts - 1) ?ts \<in> dirs_between ?d ?ts"
    using assms False unfolding dirs_between_def metric_ready_def
    by (intro CollectI exI [of _ "length ?ts - 1"]) (cases ?ts; auto)
  then show ?thesis unfolding butlast_metric_path by (simp add: butlast_conv_take)
qed

section \<open>The reference layout\<close>

definition nb_points :: "retention \<Rightarrow> u32" where
  "nb_points r = time_to_store r div time_per_point r"

definition archive_start :: "retention list \<Rightarrow> nat \<Rightarrow> u32" where
  "archive_start rets i =
     16 + of_nat (length rets) * 12 + sum_list (map (\<lambda>r. nb_points r * 12) (take i rets))"

definition layout :: "retention list \<Rightarrow> archive_info list" where
  "layout rets =
     map (\<lambda>i. \<lparr>offset = archive_start rets i, seconds_per_point = time_per_point (rets ! i),
               points = nb_points (rets ! i)\<rparr>) [0..<length rets]"

definition new_metadata :: "pattern_aggregation \<Rightarrow> retention list \<Rightarrow> whisper_metadata" where
  "new_metadata agg rets =
     \<lparr>md_aggregation_type = agg_code (agg_method agg),
      md_max_retention = foldl max 0 (map time_to_store rets),
      md_x_files_factor = agg_xff agg, md_archive_count = of_nat (length rets)\<rparr>"

definition file_image :: "host_order \<Rightarrow> pattern_aggregation \<Rightarrow> retention list \<Rightarrow> byte list" where
  "file_image ho agg rets =
     metadata_enc ho (new_metadata agg rets) @ concat (map (info_enc ho) (layout rets))
     @ concat (map (\<lambda>r. replicate (unat (nb_points r * 12)) 0) rets)"

text \<open>Retentions the file can be made for: no interval of zero seconds, and 31-bit sizes.\<close>

definition file_size :: "retention list \<Rightarrow> nat" where
  "file_size rets = 16 + length rets * 12 + (\<Sum>r\<leftarrow>rets. unat (nb_points r) * 12)"

definition retentions_ok :: "retention list \<Rightarrow> bool" where
  "retentions_ok rets \<longleftrightarrow>
     (\<forall>r\<in>set rets. time_per_point r \<noteq> 0) \<and> file_size rets < 2 ^ 31"

lemma length_layout [simp]: "length (layout rets) = length rets"
  by (simp add: layout_def)

lemma offset_loop_spec:
  "n \<le> length rs \<Longrightarrow> \<forall>r\<in>set rs. time_per_point r \<noteq> 0 \<Longrightarrow>
   offset_loop rs n off = Inr (off + sum_list (map (\<lambda>r. nb_points r * 12) (take n rs)))"
  by (induction rs n off rule: offset_loop.induct) (auto simp: nb_points_def add.assoc)

lemma get_archive_offset_spec:
  assumes "i \<le> length rets" "\<forall>r\<in>set rets. time_per_point r \<noteq> 0"
  shows "whisper_get_archive_offset rets i = Inr (archive_start rets i)"
proof -
  have "fold (\<lambda>_ off. off + 12) rs off = off + of_nat (length rs) * 12"
    for rs :: "retention list" and off :: u32
    by (induction rs arbitrary: off) (simp_all add: algebra_simps)
  then show ?thesis
    using assms by (simp add: whisper_get_archive_offset_def offset_loop_spec archive_start_def)
qed

text \<open>In natural numbers: the archives follow the headers and each other without a gap.\<close>

lemma unat_sum_list_u32:
  "(\<Sum>x\<leftarrow>xs. unat (f x)) < 2 ^ 32 \<Longrightarrow> unat (\<Sum>x\<leftarrow>xs. f x :: u32) = (\<Sum>x\<leftarrow>xs. unat (f x))"
proof (induction xs)
  case (Cons x xs)
  then have "unat (\<Sum>x\<leftarrow>xs. f x) = (\<Sum>x\<leftarrow>xs. unat (f x))" by simp
  with Cons.prems show ?case by (simp add: unat_word_ariths)
qed simp

lemma unat_times_12: "unat (w :: u32) * 12 < 2 ^ 32 \<Longrightarrow> unat (w * 12) = unat w * 12"
  by (simp add: unat_word_ariths)

lemma member_le_file_size: "r \<in> set rets \<Longrightarrow> unat (nb_points r) * 12 \<le> file_size rets"
  using member_le_sum_list [of "unat (nb_points r) * 12" "map (\<lambda>r. unat (nb_points r) * 12) rets"]
  by (auto simp: file_size_def)

lemma unat_archive_start:
  assumes "retentions_ok rets" "i \<le> length rets"
  shows "unat (archive_start rets i)
           = 16 + length rets * 12 + (\<Sum>r\<leftarrow>take i rets. unat (nb_points r) * 12)"
proof -
  have size: "file_size rets < 2 ^ 31" using assms(1) by (simp add: retentions_ok_def)
  have tk: "(\<Sum>r\<leftarrow>take i rets. unat (nb_points r) * 12) \<le> (\<Sum>r\<leftarrow>rets. unat (nb_points r) * 12)"
    by (metis append_take_drop_id le_add1 map_append sum_list_append)
  have "\<forall>r\<in>set rets. unat (nb_points r * 12) = unat (nb_points r) * 12"
    using member_le_file_size size by (fastforce intro: unat_times_12)
  then have eq: "(\<Sum>r\<leftarrow>take i rets. unat (nb_points r * 12)) = (\<Sum>r\<leftarrow>take i rets. unat (nb_points r) * 12)"
    by (intro arg_cong [where f = sum_list] map_cong) (auto dest: in_set_takeD)
  have small: "16 + length rets * 12 + (\<Sum>r\<leftarrow>take i rets. unat (nb_points r) * 12) < 2 ^ 32"
    using tk size by (simp add: file_size_def)
  then have "unat (\<Sum>r\<leftarrow>take i rets. nb_points r * 12) = (\<Sum>r\<leftarrow>take i rets. unat (nb_points r) * 12)"
    using eq by (subst unat_sum_list_u32) simp_all
  moreover have "unat (of_nat (length rets) :: u32) = length rets"
    using small by (simp add: unat_of_nat take_bit_nat_eq_self)
  ultimately show ?thesis
    using small by (simp add: archive_start_def unat_word_ariths)
qed

section \<open>Writing the new file\<close>

lemma count_archs_spec:
  "count_archs rs n m = (n + of_nat (length rs), foldl max m (map time_to_store rs))"
  by (induction rs n m rule: count_archs.induct) (auto simp: max_def add.assoc)

lemma layout_drop:
  "i < length rets \<Longrightarrow>
   drop i (layout rets) =
     \<lparr>offset = archive_start rets i, seconds_per_point = time_per_point (rets ! i),
      points = nb_points (rets ! i)\<rparr> # drop (Suc i) (layout rets)"
  by (simp add: Cons_nth_drop_Suc [symmetric] layout_def)

lemma write_archive_headers_fview:
  assumes "fd_ok s fd" "\<forall>r\<in>set rets. time_per_point r \<noteq> 0" "rs = drop i rets" "i \<le> length rets"
  shows "write_archive_headers P fd rets rs i (fview fd p (length c) c s) =
     (let c' = c @ concat (map (info_enc (host P)) (drop i (layout rets)))
      in Inr (True, fview fd p (length c') c' s))"
  using assms(3,4)
proof (induction rs arbitrary: i c)
  case Nil
  then show ?case by simp
next
  case (Cons r rs)
  from Cons.prems have i: "i < length rets" by (cases "i < length rets") auto
  with Cons.prems have r: "r = rets ! i" "rs = drop (Suc i) rets"
    by (metis Cons_nth_drop_Suc list.inject)+
  have tpp: "time_per_point r \<noteq> 0" using assms(2) i r(1) by simp
  let ?a = "\<lparr>offset = archive_start rets i, seconds_per_point = time_per_point r,
    points = time_to_store r div time_per_point r\<rparr>"
  have drop: "drop i (layout rets) = ?a # drop (Suc i) (layout rets)"
    using i r(1) by (simp add: layout_drop nb_points_def)
  have "write_archive_headers P fd rets (r # rs) i (fview fd p (length c) c s) =
      write_archive_headers P fd rets rs (Suc i)
        (fview fd p (length c + 12) (c @ info_enc (host P) ?a) s)"
    using tpp i assms(1,2)
    by (simp add: Let_def get_archive_offset_spec andthen_def posix_simps info_enc_def)
  also have "\<dots> = (let c' = (c @ info_enc (host P) ?a)
      @ concat (map (info_enc (host P)) (drop (Suc i) (layout rets)))
      in Inr (True, fview fd p (length c') c' s))"
    using Cons.IH [of "Suc i" "c @ info_enc (host P) ?a"] r i by simp
  finally show ?case by (simp add: drop)
qed

lemma word_of_int_length [simp]:
  "(word_of_int (int (unat (w :: u64))) :: u64) = w"
  by simp

lemma write_empty_archives_fview:
  assumes "fd_ok s fd" "\<forall>r\<in>set rs. time_per_point r \<noteq> 0"
  shows "write_empty_archives fd rs (fview fd p (length c) c s) =
     (let c' = c @ concat (map (\<lambda>r. replicate (unat (nb_points r * 12)) 0) rs)
      in Inr (True, fview fd p (length c') c' s))"
  using assms(2)
proof (induction rs arbitrary: c)
  case (Cons r rs)
  let ?z = "replicate (unat (nb_points r * 12)) (0 :: byte)"
  have len: "(word_of_int (int (unat (nb_points r * 12))) :: u64) = ucast (nb_points r * 12)"
    by (simp flip: unat_ucast_u64)
  have "write_empty_archives fd (r # rs) (fview fd p (length c) c s) =
      write_empty_archives fd rs (fview fd p (length c + length ?z) (c @ ?z) s)"
    using Cons.prems assms(1)
    by (simp add: Let_def andthen_def posix_simps len del: of_int_of_nat_eq flip: nb_points_def)
  with Cons.IH [of "c @ ?z"] Cons.prems show ?case by simp
qed simp

text \<open>
  The state after a file was made: the directories are there, the descriptor is a
  free one, and it stands at the end of the new file.
\<close>

lemma open_metric_file:
  assumes ready: "metric_ready P cf name s"
    and new: "fs_files s (metric_path cf name) = None" "\<not> fs_dirs s (metric_path cf name)"
    and added: "dirs_added s ({components (storage_dir cf)}
        \<union> dirs_between (components (storage_dir cf)) (tokens ''.'' name)) s1"
    and nt: "alloc_fd (fs_fds s1) \<lparr>of_path = metric_path cf name, of_pos = 0\<rparr> = (n, t)"
  shows "posix_open (metric_file cf name) True s1 =
      Inr (int n, fview (int n) (metric_path cf name) 0 [] (s1\<lparr>fs_fds := t\<rparr>))"
    and "fd_ok (s1\<lparr>fs_fds := t\<rparr>) (int n)"
proof -
  let ?p = "metric_path cf name" and ?d = "components (storage_dir cf)" and ?ts = "tokens ''.'' name"
  note ds = dirs_added_simps [OF added]
  note fn = metric_filename_ready [OF ready]
  note r = ready [unfolded metric_ready_def]
  have parent: "fs_dirs s1 (butlast ?p)" using parent_added [OF ready] by (simp only: ds) blast
  have "?p \<notin> {?d} \<union> dirs_between ?d ?ts"
  proof
    assume "?p \<in> {?d} \<union> dirs_between ?d ?ts"
    then have "length ?p < length ?d + length ?ts" using r by (auto simp: dirs_between_def)
    then show False using r by (simp add: metric_path_def Let_def)
  qed
  then have notdir: "\<not> fs_dirs s1 ?p" using new(2) by (simp add: ds)
  have "\<not> through_file s1 ?p"
    using r by (intro clear_path_butlast) (simp add: butlast_metric_path ds)
  note op = open_create [of s1 "metric_file cf name" n t, unfolded fn,
      OF _ _ notdir _ this parent nt]
  show "posix_open (metric_file cf name) True s1 = Inr (int n, fview (int n) ?p 0 [] (s1\<lparr>fs_fds := t\<rparr>))"
    "fd_ok (s1\<lparr>fs_fds := t\<rparr>) (int n)"
    using op r new(1) fn(2) by (simp_all add: ds)
qed

lemma create_file_ready:
  assumes ready: "metric_ready P cf name s"
    and new: "fs_files s (metric_path cf name) = None" "\<not> fs_dirs s (metric_path cf name)"
    and tpp: "\<forall>r\<in>set (whisper_find_retention P name (schema cf)). time_per_point r \<noteq> 0"
    and agg: "whisper_find_aggregation P name (aggregation cf) = Some agg"
  obtains n t s1 where
    "whisper_create_file P cf name s =
       (let c = file_image (host P) agg (whisper_find_retention P name (schema cf))
        in Inr (int n, fview (int n) (metric_path cf name) (length c) c (s1\<lparr>fs_fds := t\<rparr>)))"
    "fd_ok (s1\<lparr>fs_fds := t\<rparr>) (int n)"
    "alloc_fd (fs_fds s) \<lparr>of_path = metric_path cf name, of_pos = 0\<rparr> = (n, t)"
    "dirs_added s ({components (storage_dir cf)}
        \<union> dirs_between (components (storage_dir cf)) (tokens ''.'' name)) s1"
proof -
  let ?rets = "whisper_find_retention P name (schema cf)" and ?p = "metric_path cf name"
    and ?d = "components (storage_dir cf)" and ?ts = "tokens ''.'' name"
  let ?D = "{?d} \<union> dirs_between ?d ?ts"
  obtain s1 where s1: "whisper_create_dirs P cf name s = Inr ((), s1)" "dirs_added s ?D s1"
    using create_dirs_ready [OF ready] by blast
  note ds = dirs_added_simps [OF s1(2)]
  note fn = metric_filename_ready [OF ready]
  obtain n t where nt: "alloc_fd (fs_fds s1) \<lparr>of_path = ?p, of_pos = 0\<rparr> = (n, t)"
    by fastforce
  note op1 = open_metric_file [OF ready new s1(2) nt]
  have md: "metadata_mem (host P) (hton_whisper_metadata (host P)
      \<lparr>md_aggregation_type = agg_code (agg_method agg),
       md_max_retention = foldl max 0 (map time_to_store ?rets),
       md_x_files_factor = agg_xff agg, md_archive_count = of_nat (length ?rets)\<rparr>)
      = metadata_enc (host P) (new_metadata agg ?rets)"
    by (simp add: metadata_enc_def new_metadata_def)
  let ?m = "metadata_enc (host P) (new_metadata agg ?rets)"
  have h: "write_archive_headers P (int n) ?rets ?rets 0 (fview (int n) ?p 16 ?m (s1\<lparr>fs_fds := t\<rparr>)) =
      (let c' = ?m @ concat (map (info_enc (host P)) (layout ?rets))
       in Inr (True, fview (int n) ?p (length c') c' (s1\<lparr>fs_fds := t\<rparr>)))"
    using write_archive_headers_fview [OF op1(2) tpp, of ?rets 0 P ?p ?m] by simp
  let ?mi = "?m @ concat (map (info_enc (host P)) (layout ?rets))"
  have z: "write_empty_archives (int n) ?rets
      (fview (int n) ?p (length ?mi) ?mi (s1\<lparr>fs_fds := t\<rparr>)) =
      Inr (True, fview (int n) ?p (length (file_image (host P) agg ?rets))
        (file_image (host P) agg ?rets) (s1\<lparr>fs_fds := t\<rparr>))"
    using write_empty_archives_fview [OF op1(2) tpp, of ?p ?mi] by (simp add: file_image_def)
  have "whisper_create_file P cf name s =
       (let c = file_image (host P) agg ?rets
        in Inr (int n, fview (int n) ?p (length c) c (s1\<lparr>fs_fds := t\<rparr>)))"
    unfolding whisper_create_file_def fn(1) count_archs_spec Let_def
    using op1 agg s1(1)
    by (simp add: andthen_def posix_simps md h [unfolded Let_def] write_at_def del: length_append)
      (simp add: z del: length_append)
  then show ?thesis using that op1(2) nt s1(2) ds(2) by simp
qed

section \<open>The new file decodes to what was asked for\<close>

lemma length_file_image:
  assumes "retentions_ok rets"
  shows "length (file_image ho agg rets) = file_size rets"
proof -
  have "unat (nb_points r * 12) = unat (nb_points r) * 12" if "r \<in> set rets" for r
    using member_le_file_size [OF that] assms by (intro unat_times_12) (simp add: retentions_ok_def)
  then have "map (\<lambda>r. unat (nb_points r * 12)) rets = map (\<lambda>r. unat (nb_points r) * 12) rets"
    by simp
  then have "(\<Sum>r\<leftarrow>rets. unat (nb_points r * 12)) = (\<Sum>r\<leftarrow>rets. unat (nb_points r) * 12)"
    by (rule arg_cong)
  then show ?thesis
    by (simp add: file_image_def file_size_def length_concat comp_def sum_list_triv)
qed

lemma read_new_metadata:
  "metadata_dec ho (read_at 0 16 (file_image ho agg rets)) = new_metadata agg rets"
  by (simp add: file_image_def)

lemma read_new_info:
  "i < length rets \<Longrightarrow>
   info_dec ho (read_at (16 + i * 12) 12 (file_image ho agg rets)) = layout rets ! i"
  unfolding file_image_def
  by (simp add: read_at_append2 [of _ _ "i * 12"] info_codec.read_slot)

lemma read_new_zeros:
  assumes "16 + length rets * 12 \<le> n" "n + k \<le> length (file_image ho agg rets)"
  shows "read_at n k (file_image ho agg rets) = replicate k 0"
proof -
  let ?h = "metadata_enc ho (new_metadata agg rets) @ concat (map (info_enc ho) (layout rets))"
  let ?z = "concat (map (\<lambda>r. replicate (unat (nb_points r * 12)) (0 :: byte)) rets)"
  have img: "file_image ho agg rets = ?h @ ?z" by (simp add: file_image_def)
  have len: "length ?h = 16 + length rets * 12" by (simp add: info_codec.length_concat_enc)
  have "?z = replicate (length ?z) 0"
    by (rule replicate_length_same [symmetric]) auto
  then obtain m where z: "?z = replicate m 0" by blast
  define q where "q = n - length ?h"
  have q: "n = length ?h + q" using assms(1) unfolding len q_def by simp
  have "q + k \<le> m" using assms(2) unfolding img q z by simp
  then have "read_at q k ?z = replicate k 0" unfolding z by (rule read_at_replicate)
  then show ?thesis
    unfolding img read_at_append2 [OF q] .
qed

end
