(* ===== verification/Whisper_Ring.thy ===== *)
theory Whisper_Ring
  imports Whisper_Write Whisper_Layout
begin

text \<open>
  An archive as a ring of points. The abstract ring is a list of points; a write
  replaces the slot given by the distance of the timestamps. The theory relates
  \<open>whisper_write_point\<close> to it, keeps the invariant that each slot holds only points
  of its own residue, and shows how long a point stays readable.
\<close>

named_theorems ring_simps
  \<open>abstract rings\<close>

section \<open>The abstract ring\<close>

type_synonym ring = "archive_point list"

definition ring_first :: "ring \<Rightarrow> nat" where
  "ring_first r = unat (pt_timestamp (r ! 0))"

text \<open>
  The distance of two timestamps is an unsigned difference of 32 bits: for a timestamp before
  the first one it wraps around.
\<close>

definition ring_distance :: "nat \<Rightarrow> nat \<Rightarrow> nat" where
  "ring_distance first t = (t + 2 ^ 32 - first) mod 2 ^ 32"

lemma ring_distance_later:
  assumes "first \<le> t" "t < 2 ^ 32"
  shows "ring_distance first t = t - first"
proof -
  have "t + 2 ^ 32 - first = (t - first) + 2 ^ 32" using assms(1) by simp
  then have "ring_distance first t = (t - first) mod 2 ^ 32" by (simp only: ring_distance_def mod_add_self2)
  also have "\<dots> = t - first" using assms(2) by (intro mod_less) linarith
  finally show ?thesis .
qed

lemma ring_distance_less: "ring_distance first t < 2 ^ 32"
  by (simp add: ring_distance_def)

lemma ring_distance_0 [simp]: "ring_distance 0 (unat (t :: u32)) = unat t"
  using ring_distance_later [OF _ unat_u32_less, of 0 t] by simp

lemma unat_diff_distance: "unat ((a :: u32) - b) = ring_distance (unat b) (unat a)"
proof (cases "b \<le> a")
  case True
  then show ?thesis
    using ring_distance_later [OF _ unat_u32_less, of "unat b" a] by (simp add: word_le_nat_alt unat_sub)
next
  case False
  then show ?thesis
    using unat_u32_less [of b] by (simp add: ring_distance_def unat_sub_if_size word_size word_le_nat_alt)
qed

definition ring_slot :: "nat \<Rightarrow> ring \<Rightarrow> nat \<Rightarrow> nat" where
  "ring_slot spp r t = (if ring_first r = 0 then 0 else ring_distance (ring_first r) t div spp mod length r)"

definition ring_write :: "nat \<Rightarrow> ring \<Rightarrow> archive_point \<Rightarrow> ring" where
  "ring_write spp r p = r[ring_slot spp r (unat (pt_timestamp p)) := p]"

text \<open>
  Every timestamp in slot \<open>i\<close> is \<open>i\<close> intervals after the one in slot 0, up to whole
  turns of the ring, and an empty slot 0 means an empty ring.
\<close>

definition ring_inv :: "nat \<Rightarrow> ring \<Rightarrow> bool" where
  "ring_inv spp r \<longleftrightarrow>
     (\<forall>i<length r. pt_timestamp (r ! i) \<noteq> 0 \<longrightarrow> ring_first r \<noteq> 0 \<and>
        (int (unat (pt_timestamp (r ! i))) - int (ring_first r)) mod (int (length r) * int spp)
          = int i * int spp)"

text \<open>A point that may be written next: on the grid of the ring and not before its first slot.\<close>

definition ring_accepts :: "nat \<Rightarrow> ring \<Rightarrow> nat \<Rightarrow> bool" where
  "ring_accepts spp r t \<longleftrightarrow>
     0 < t \<and> (ring_first r = 0 \<or> ring_first r \<le> t \<and> spp dvd (t - ring_first r))"

lemma ring_slot_less: "r \<noteq> [] \<Longrightarrow> ring_slot spp r t < length r"
  by (simp add: ring_slot_def)

lemma length_ring_write [simp]: "length (ring_write spp r p) = length r"
  by (simp add: ring_write_def)

text \<open>The slot of a timestamp on the grid, as a residue.\<close>

lemma ring_slot_residue:
  assumes "r \<noteq> []" "0 < spp" "ring_first r \<noteq> 0" "ring_first r \<le> t" "spp dvd (t - ring_first r)" "t < 2 ^ 32"
  shows "(int t - int (ring_first r)) mod (int (length r) * int spp)
           = int (ring_slot spp r t) * int spp"
proof -
  obtain k where k: "t - ring_first r = spp * k" using assms(5) by blast
  then have "t = ring_first r + spp * k" using assms(4) by simp
  then have "int t - int (ring_first r) = int k * int spp" by simp
  then have "(int t - int (ring_first r)) mod (int (length r) * int spp)
      = (int k mod int (length r)) * int spp"
    by (simp only: mult_mod_left)
  moreover have "ring_slot spp r t = k mod length r"
    using assms k by (simp add: ring_slot_def ring_distance_later)
  ultimately show ?thesis by (simp add: zmod_int)
qed

lemma mod_diff_shift: "(a - b :: int) mod m = 0 \<Longrightarrow> (c - a) mod m = (c - b) mod m"
proof -
  assume "(a - b) mod m = 0"
  then have "m dvd ((c - b) - (c - a))" by (simp add: mod_eq_0_iff_dvd)
  then show ?thesis by (simp add: mod_eq_dvd_iff dvd_diff_commute)
qed

theorem ring_write_inv:
  assumes inv: "ring_inv spp r" and ne: "r \<noteq> []" "0 < spp"
    and acc: "ring_accepts spp r (unat (pt_timestamp p))"
  shows "ring_inv spp (ring_write spp r p)"
proof (cases "ring_first r = 0")
  case True
  then have slot: "ring_slot spp r t = 0" for t by (simp add: ring_slot_def)
  have "pt_timestamp (r ! i) = 0" if "i < length r" for i
    using inv that True unfolding ring_inv_def by blast
  with ne acc show ?thesis
    by (auto simp: ring_inv_def ring_write_def slot ring_first_def nth_list_update
        ring_accepts_def unat_gt_0)
next
  case False
  let ?t = "unat (pt_timestamp p)" and ?j = "ring_slot spp r (unat (pt_timestamp p))"
    and ?m = "int (length r) * int spp"
  have j: "?j < length r" using ne by (simp add: ring_slot_less)
  have res: "(int ?t - int (ring_first r)) mod ?m = int ?j * int spp"
    using acc False ne by (intro ring_slot_residue) (use unat_u32_less [of "pt_timestamp p"] in \<open>auto simp: ring_accepts_def\<close>)
  have first: "(int (ring_first (ring_write spp r p)) - int (ring_first r)) mod ?m = 0"
    "ring_first (ring_write spp r p) \<noteq> 0"
    using res False acc ne j
    by (cases "?j = 0"; simp add: ring_first_def ring_write_def nth_list_update ring_accepts_def)+
  show ?thesis
    unfolding ring_inv_def length_ring_write
  proof (intro allI impI conjI)
    fix i
    assume i: "i < length r" and nz: "pt_timestamp (ring_write spp r p ! i) \<noteq> 0"
    show "ring_first (ring_write spp r p) \<noteq> 0" by (rule first(2))
    have "(int (unat (pt_timestamp (ring_write spp r p ! i))) - int (ring_first r)) mod ?m
        = int i * int spp"
      using inv i nz res j by (cases "i = ?j") (simp_all add: ring_inv_def ring_write_def)
    with mod_diff_shift [OF first(1)]
    show "(int (unat (pt_timestamp (ring_write spp r p ! i)))
        - int (ring_first (ring_write spp r p))) mod ?m = int i * int spp"
      by simp
  qed
qed

section \<open>How long a point stays\<close>

text \<open>A later point of the same turn leaves a stored point alone.\<close>

theorem ring_keeps_point:
  assumes inv: "ring_inv spp r" and ne: "r \<noteq> []" "0 < spp"
    and i: "i < length r" "r ! i = q" "pt_timestamp q \<noteq> 0"
    and acc: "ring_accepts spp r (unat (pt_timestamp p))"
    and later: "unat (pt_timestamp q) < unat (pt_timestamp p)"
      "unat (pt_timestamp p) < unat (pt_timestamp q) + length r * spp"
  shows "ring_write spp r p ! i = q"
proof -
  let ?t = "unat (pt_timestamp q)" and ?u = "unat (pt_timestamp p)"
    and ?m = "int (length r) * int spp"
  have first: "ring_first r \<noteq> 0"
    and qres: "(int ?t - int (ring_first r)) mod ?m = int i * int spp"
    using inv i unfolding ring_inv_def by auto
  have ures: "(int ?u - int (ring_first r)) mod ?m = int (ring_slot spp r ?u) * int spp"
    using acc first ne by (intro ring_slot_residue) (use unat_u32_less [of "pt_timestamp p"] in \<open>auto simp: ring_accepts_def\<close>)
  have "i \<noteq> ring_slot spp r ?u"
  proof
    assume "i = ring_slot spp r ?u"
    with qres ures have "(int ?u - int (ring_first r)) mod ?m = (int ?t - int (ring_first r)) mod ?m"
      by simp
    then have "?m dvd (int ?u - int (ring_first r)) - (int ?t - int (ring_first r))"
      by (simp only: mod_eq_dvd_iff)
    then have "?m dvd (int ?u - int ?t)" by simp
    moreover have "0 < int ?u - int ?t" using later(1) by linarith
    ultimately have "?m \<le> int ?u - int ?t" by (rule zdvd_imp_le)
    moreover have "int ?u < int (?t + length r * spp)" using later(2) by (simp only: of_nat_less_iff)
    ultimately show False by simp
  qed
  with i show ?thesis by (simp add: ring_write_def)
qed

text \<open>A sequence of writes, each of them accepted by the ring it meets.\<close>

fun accepted :: "nat \<Rightarrow> ring \<Rightarrow> archive_point list \<Rightarrow> bool" where
  "accepted spp r [] = True"
| "accepted spp r (p # ps) =
     (ring_accepts spp r (unat (pt_timestamp p)) \<and> accepted spp (ring_write spp r p) ps)"

lemma ring_run_inv:
  "ring_inv spp r \<Longrightarrow> r \<noteq> [] \<Longrightarrow> 0 < spp \<Longrightarrow> accepted spp r ps \<Longrightarrow>
   ring_inv spp (foldl (ring_write spp) r ps)"
proof (induction ps arbitrary: r)
  case (Cons p ps)
  then have "ring_inv spp (ring_write spp r p)" by (simp add: ring_write_inv)
  moreover have "ring_write spp r p \<noteq> []" using Cons.prems(2) by (simp add: ring_write_def)
  ultimately show ?case using Cons by simp
qed simp

lemma ring_run_keeps:
  "ring_inv spp r \<Longrightarrow> r \<noteq> [] \<Longrightarrow> 0 < spp \<Longrightarrow> accepted spp r ps \<Longrightarrow>
   i < length r \<Longrightarrow> r ! i = q \<Longrightarrow> pt_timestamp q \<noteq> 0 \<Longrightarrow>
   \<forall>p\<in>set ps. unat (pt_timestamp q) < unat (pt_timestamp p) \<and>
      unat (pt_timestamp p) < unat (pt_timestamp q) + length r * spp \<Longrightarrow>
   foldl (ring_write spp) r ps ! i = q"
proof (induction ps arbitrary: r)
  case (Cons p ps)
  let ?r = "ring_write spp r p"
  have "?r ! i = q" using Cons.prems by (intro ring_keeps_point) auto
  moreover have "ring_inv spp ?r" using Cons.prems by (simp add: ring_write_inv)
  moreover have "?r \<noteq> []" using Cons.prems(2) by (simp add: ring_write_def)
  ultimately show ?case using Cons.prems Cons.IH [of ?r] by simp
qed simp

section \<open>The slots of an archive in a file\<close>

definition archive_in :: "archive_info \<Rightarrow> byte list \<Rightarrow> bool" where
  "archive_in a c \<longleftrightarrow>
     points a \<noteq> 0 \<and> seconds_per_point a \<noteq> 0 \<and>
     unat (offset a) + unat (points a) * 12 \<le> length c \<and> length c < 2 ^ 31"

definition ring_of :: "host_order \<Rightarrow> archive_info \<Rightarrow> byte list \<Rightarrow> ring" where
  "ring_of ho a c =
     map (\<lambda>i. point_dec ho (read_at (unat (offset a) + i * 12) 12 c)) [0..<unat (points a)]"

lemma length_ring_of [simp]: "length (ring_of ho a c) = unat (points a)"
  by (simp add: ring_of_def)

lemma ring_of_nth:
  "i < unat (points a) \<Longrightarrow>
   ring_of ho a c ! i = point_dec ho (read_at (unat (offset a) + i * 12) 12 c)"
  by (simp add: ring_of_def)

lemma archive_in_size:
  assumes "archive_in a c"
  shows "unat (archive_size a) = unat (points a) * 12" "0 < unat (points a)"
    "unat (offset a) < 2 ^ 31" "sint (offset a) = int (unat (offset a))"
    "0 < unat (seconds_per_point a)"
proof -
  show pos: "0 < unat (points a)" "0 < unat (seconds_per_point a)"
    using assms by (simp_all add: archive_in_def unat_gt_0)
  have "unat (points a) * 12 < 2 ^ 32" using assms by (simp add: archive_in_def)
  then show "unat (archive_size a) = unat (points a) * 12"
    by (simp add: archive_size_def unat_times_12)
  show off: "unat (offset a) < 2 ^ 31" using assms pos by (simp add: archive_in_def)
  then show "sint (offset a) = int (unat (offset a))" by (rule sint_u32_small)
qed

lemma archive_in_write_at:
  "archive_in a c \<Longrightarrow> n + length bs \<le> length c \<Longrightarrow> archive_in a (write_at n bs c)"
  by (simp add: archive_in_def)

text \<open>
  Replacing one slot of the file replaces one element of the ring, and nothing in
  any other archive.
\<close>

lemma ring_of_write:
  assumes "archive_in a c" "j < unat (points a)"
  shows "ring_of ho a (write_at (unat (offset a) + j * 12) (point_enc ho p) c)
           = (ring_of ho a c)[j := p]"
proof (rule nth_equalityI)
  fix i
  assume "i < length (ring_of ho a (write_at (unat (offset a) + j * 12) (point_enc ho p) c))"
  then have i: "i < unat (points a)" by simp
  then have "i * 12 + 12 \<le> unat (points a) * 12" by simp
  then have inside: "unat (offset a) + i * 12 + 12 \<le> length c"
    using assms(1) unfolding archive_in_def by linarith
  show "ring_of ho a (write_at (unat (offset a) + j * 12) (point_enc ho p) c) ! i
      = (ring_of ho a c)[j := p] ! i"
  proof (cases "i = j")
    case True
    with i show ?thesis by (simp add: ring_of_nth)
  next
    case False
    with point_codec.other_slot [of j i "unat (offset a)" c ho p] inside i show ?thesis
      by (simp add: ring_of_nth)
  qed
qed simp

lemma ring_of_frame:
  assumes "archive_in b c"
    and "n + length bs \<le> unat (offset b) \<or> unat (offset b) + unat (points b) * 12 \<le> n"
  shows "ring_of ho b (write_at n bs c) = ring_of ho b c"
proof (rule nth_equalityI)
  fix i
  assume "i < length (ring_of ho b (write_at n bs c))"
  then have i: "i < unat (points b)" by simp
  then have le: "i * 12 + 12 \<le> unat (points b) * 12" by simp
  with assms have "read_at (unat (offset b) + i * 12) 12 (write_at n bs c) =
      read_at (unat (offset b) + i * 12) 12 c"
    unfolding archive_in_def by (intro read_write_apart) linarith+
  with i show "ring_of ho b (write_at n bs c) ! i = ring_of ho b c ! i"
    by (simp add: ring_of_nth)
qed simp

section \<open>Writing a point\<close>

text \<open>
  The distance in bytes fits 32 bits, so the product of the code does not wrap. This holds for any
  two timestamps when there are at least 12 seconds to a point.
\<close>

definition distance_fits :: "archive_info \<Rightarrow> nat \<Rightarrow> nat \<Rightarrow> bool" where
  "distance_fits a first t \<longleftrightarrow>
     first = 0 \<or> ring_distance first t div unat (seconds_per_point a) * 12 < 2 ^ 32"

lemma distance_div_fits:
  assumes "12 \<le> spp"
  shows "ring_distance first t div spp * 12 < 2 ^ 32"
proof -
  have "ring_distance first t div spp * 12 \<le> ring_distance first t div spp * spp" using assms by simp
  also have "\<dots> \<le> ring_distance first t" by (rule div_times_less_eq_dividend)
  also have "\<dots> < 2 ^ 32" by (rule ring_distance_less)
  finally show ?thesis .
qed

lemma distance_fits_coarse: "12 \<le> unat (seconds_per_point a) \<Longrightarrow> distance_fits a first t"
  by (simp only: distance_fits_def distance_div_fits simp_thms)

lemma unat_diff_u32: "unat (b :: u32) \<le> unat a \<Longrightarrow> unat (a - b) = unat a - unat b"
  by (simp add: unat_sub word_le_nat_alt)

lemma point_write_offset_slot:
  assumes a: "archive_in a c" and d: "distance_fits a (ring_first (ring_of ho a c)) (unat ts)"
  obtains wo where
    "point_write_offset a ts (pt_timestamp (point_dec ho (read_at (unat (offset a)) 12 c))) = Inr wo"
    "unat wo = unat (offset a)
       + ring_slot (unat (seconds_per_point a)) (ring_of ho a c) (unat ts) * 12"
proof -
  note sz = archive_in_size [OF a]
  let ?f = "pt_timestamp (point_dec ho (read_at (unat (offset a)) 12 c))"
  let ?spp = "unat (seconds_per_point a)" and ?r = "ring_of ho a c"
  have f: "unat ?f = ring_first ?r" using sz(2) by (simp add: ring_first_def ring_of_nth)
  show ?thesis
  proof (cases "?f = 0")
    case True
    then show ?thesis
      using that [of "offset a"] f by (simp add: point_write_offset_def ring_slot_def)
  next
    case False
    then have nz: "ring_first ?r \<noteq> 0" using f by (metis unat_eq_zero)
    with d have fit: "ring_distance (ring_first ?r) (unat ts) div ?spp * 12 < 2 ^ 32"
      by (auto simp: distance_fits_def)
    define k where "k = ring_distance (ring_first ?r) (unat ts) div ?spp"
    have k: "unat ((ts - ?f) div seconds_per_point a) = k"
      by (simp add: unat_div unat_diff_distance f k_def)
    then have k12: "unat ((ts - ?f) div seconds_per_point a * 12) = k * 12"
      using fit by (subst unat_times_12) (simp_all add: k_def)
    have slot: "ring_slot ?spp ?r (unat ts) = k mod unat (points a)"
      using nz by (simp add: ring_slot_def k_def)
    define wo :: u32 where "wo = ucast (ucast (offset a)
        + ucast ((ts - ?f) div seconds_per_point a * 12) mod archive_size a :: u64)"
    have m: "unat (ucast ((ts - ?f) div seconds_per_point a * 12) mod archive_size a :: u64)
        = k mod unat (points a) * 12"
      by (simp only: unat_mod sz(1) unat_ucast_u64 k12) (simp add: mult_mod_left)
    have "k mod unat (points a) * 12 < unat (points a) * 12" using sz(2) by simp
    then have lt: "unat (offset a) + k mod unat (points a) * 12 < 2 ^ 31"
      using a unfolding archive_in_def by linarith
    have "unat wo = unat (offset a) + k mod unat (points a) * 12"
      using lt m by (simp add: wo_def unat_word_ariths)
    moreover have "archive_size a \<noteq> 0" using sz(1,2) by auto
    ultimately show ?thesis
      using that [of wo] False a slot
      by (simp add: point_write_offset_def Let_def wo_def archive_in_def)
  qed
qed

text \<open>The slot's place in the file.\<close>

definition slot_offset :: "host_order \<Rightarrow> archive_info \<Rightarrow> byte list \<Rightarrow> nat \<Rightarrow> nat" where
  "slot_offset ho a c t =
     unat (offset a) + ring_slot (unat (seconds_per_point a)) (ring_of ho a c) t * 12"

lemma slot_offset_inside:
  assumes "archive_in a c"
  shows "unat (offset a) \<le> slot_offset ho a c t"
    "slot_offset ho a c t + 12 \<le> unat (offset a) + unat (points a) * 12"
    "slot_offset ho a c t + 12 \<le> length c"
proof -
  have "ring_of ho a c \<noteq> []" using archive_in_size(2) [OF assms] by (simp flip: length_greater_0_conv)
  then have "ring_slot (unat (seconds_per_point a)) (ring_of ho a c) t < unat (points a)"
    by (metis length_ring_of ring_slot_less)
  then have "ring_slot (unat (seconds_per_point a)) (ring_of ho a c) t * 12 + 12
      \<le> unat (points a) * 12" by simp
  then show "unat (offset a) \<le> slot_offset ho a c t"
    "slot_offset ho a c t + 12 \<le> unat (offset a) + unat (points a) * 12"
    "slot_offset ho a c t + 12 \<le> length c"
    using assms unfolding archive_in_def slot_offset_def by linarith+
qed

lemma monitoring_points_fview [simp]:
  "(fview fd p n c s)\<lparr>monitoring_points := m\<rparr> = fview fd p n c (s\<lparr>monitoring_points := m\<rparr>)"
  "monitoring_points (fview fd p n c s) = monitoring_points s"
  by (simp_all add: fview_def)

lemma fd_ok_monitoring [simp]: "fd_ok (s\<lparr>monitoring_points := m\<rparr>) fd = fd_ok s fd"
  by (simp add: fd_ok_def)

lemma write_point_fview:
  assumes fd: "fd_ok s fd" and a: "archive_in a c"
    and d: "distance_fits a (ring_first (ring_of (host P) a c)) (unat ts)"
  shows "whisper_write_point P fd a ts (hton_archive_point (host P) pt) (fview fd p n c s) =
     (let w = slot_offset (host P) a c (unat ts)
      in Inr (0, fview fd p (w + 12) (write_at w (point_enc (host P) pt) c)
                   (s\<lparr>monitoring_points := monitoring_points s + 1\<rparr>)))"
proof -
  note sz = archive_in_size [OF a]
  obtain wo where wo:
    "point_write_offset a ts (pt_timestamp (point_dec (host P) (read_at (unat (offset a)) 12 c))) = Inr wo"
    "unat wo = slot_offset (host P) a c (unat ts)"
    using point_write_offset_slot [OF a d] unfolding slot_offset_def by blast
  have "unat (offset a) + 12 \<le> length c" using sz(2) a by (simp add: archive_in_def)
  moreover have "nat (uint wo) = slot_offset (host P) a c (unat ts)" using wo(2) by simp
  ultimately show ?thesis
    using fd sz(4) wo(1)
    by (simp add: whisper_write_point_def andthen_def posix_simps Let_def point_enc_def)
qed

end
