(* ===== verification/Whisper_Propagate.thy ===== *)
theory Whisper_Propagate
  imports Whisper_Ring
begin

text \<open>
  Propagation to an archive of lower precision: which points of the higher archive
  the code reads, what it writes, and the windows for which its offsets are wrong.
\<close>

section \<open>The window in the higher archive\<close>

definition window_slot :: "archive_info \<Rightarrow> archive_info \<Rightarrow> ring \<Rightarrow> u32 \<Rightarrow> nat" where
  "window_slot higher lower r ts =
     ring_distance (ring_first r) (unat (whisper_higher_archive_timestamp_start ts higher lower))
       div unat (seconds_per_point higher) mod length r"

definition window_len :: "archive_info \<Rightarrow> archive_info \<Rightarrow> nat" where
  "window_len higher lower = unat (seconds_per_point lower) div unat (seconds_per_point higher)"

text \<open>
  The window is not empty, and its distance from the first slot fits 32 bits, in bytes. This
  says nothing about the order of the two: the window may begin before the timestamp in the
  first slot, and \<open>window_slot\<close> is then where the wrapped distance leads.
\<close>

definition window_ready :: "archive_info \<Rightarrow> archive_info \<Rightarrow> ring \<Rightarrow> u32 \<Rightarrow> bool" where
  "window_ready higher lower r ts \<longleftrightarrow>
     ring_distance (ring_first r) (unat (whisper_higher_archive_timestamp_start ts higher lower))
       div unat (seconds_per_point higher) * 12 < 2 ^ 32 \<and>
     0 < window_len higher lower \<and> window_len higher lower * 12 < 2 ^ 31"

text \<open>The values of the window whose timestamps are the expected ones.\<close>

definition known_values :: "ring \<Rightarrow> nat \<Rightarrow> nat \<Rightarrow> u32 \<Rightarrow> u32 \<Rightarrow> cdouble list" where
  "known_values r k n ts spp =
     map (\<lambda>i. pt_value (r ! (k + i)))
       (filter (\<lambda>i. pt_timestamp (r ! (k + i)) = ts + of_nat i * spp) [0..<n])"

lemma window_slot_less: "archive_in higher c \<Longrightarrow> window_slot higher lower (ring_of ho higher c) ts < unat (points higher)"
  using archive_in_size(2) by (simp add: window_slot_def)

text \<open>The offsets of the code, for a distance from the first point whose bytes fit 32 bits.\<close>

lemma window_start_offset:
  fixes d :: u32
  assumes a: "archive_in higher c" and d: "unat d * 12 < 2 ^ 32"
  shows "unat (ucast (ucast (offset higher) + ucast (d * 12) mod archive_size higher :: u64) :: u32)
      = unat (offset higher) + unat d mod unat (points higher) * 12"
    and "unat (offset higher) + unat d mod unat (points higher) * 12 < 2 ^ 31"
proof -
  note sz = archive_in_size [OF a]
  have d12: "unat (d * 12) = unat d * 12" using d by (subst unat_times_12) simp_all
  have m: "unat (ucast (d * 12) mod archive_size higher :: u64) = unat d mod unat (points higher) * 12"
    by (simp only: unat_mod sz(1) unat_ucast_u64 d12) (simp add: mult_mod_left)
  have "unat d mod unat (points higher) * 12 < unat (points higher) * 12" using sz(2) by simp
  then show lt: "unat (offset higher) + unat d mod unat (points higher) * 12 < 2 ^ 31"
    using a unfolding archive_in_def by linarith
  show "unat (ucast (ucast (offset higher) + ucast (d * 12) mod archive_size higher :: u64) :: u32)
      = unat (offset higher) + unat d mod unat (points higher) * 12"
    using m lt by (simp add: unat_word_ariths)
qed

lemma propagate_window_at:
  assumes a: "archive_in higher c"
    and d: "d = (whisper_higher_archive_timestamp_start ts higher lower - f) div seconds_per_point higher"
      "unat d * 12 < 2 ^ 32" "k = unat d mod unat (points higher)"
    and n: "window_len higher lower * 12 < 2 ^ 31"
  obtains hs he nb where
    "propagate_window higher lower ts f = Inr (hs, he, nb)"
    "unat hs = unat (offset higher) + k * 12"
    "unat he = (unat hs + window_len higher lower * 12) mod (unat (points higher) * 12)"
    "unat nb = window_len higher lower"
proof -
  let ?spp = "seconds_per_point higher"
  note sz = archive_in_size [OF a]
  define hs :: u32 where "hs = ucast (ucast (offset higher) + ucast (d * 12) mod archive_size higher :: u64)"
  note start = window_start_offset [OF a d(2)]
  have hs: "unat hs = unat (offset higher) + k * 12" unfolding hs_def d(3) by (rule start(1))
  have lt: "unat hs < 2 ^ 31" unfolding hs using start(2) by (simp add: d(3))
  define nb where "nb = seconds_per_point lower div ?spp"
  have nb: "unat nb = window_len higher lower" by (simp add: nb_def unat_div window_len_def)
  have nb12: "unat (nb * 12) = window_len higher lower * 12"
    using n nb by (subst unat_times_12) simp_all
  have sum: "unat (hs + nb * 12) = unat hs + window_len higher lower * 12"
    using lt n by (simp add: unat_word_ariths(1) nb12)
  define he :: u32 where "he = ucast (ucast (hs + nb * 12) mod archive_size higher :: u64)"
  have "unat he = (unat hs + window_len higher lower * 12) mod (unat (points higher) * 12) mod 2 ^ 32"
    by (simp only: he_def unat_ucast_u32 unat_mod unat_ucast_u64 sum sz(1))
  moreover have "(unat hs + window_len higher lower * 12) mod (unat (points higher) * 12) < 2 ^ 32"
  proof -
    have "(unat hs + window_len higher lower * 12) mod (unat (points higher) * 12)
        < unat (points higher) * 12" using sz(2) by simp
    also have "\<dots> < 2 ^ 32" using a by (simp add: archive_in_def)
    finally show ?thesis .
  qed
  ultimately have he: "unat he = (unat hs + window_len higher lower * 12) mod (unat (points higher) * 12)"
    by simp
  have "archive_size higher \<noteq> 0" using sz(1,2) by auto
  then have "propagate_window higher lower ts f = Inr (hs, he, nb)"
    using a by (simp add: propagate_window_def Let_def hs_def he_def nb_def d(1) archive_in_def)
  then show ?thesis using that hs he nb by blast
qed

text \<open>The distance of the code is the one of the ring.\<close>

lemma window_distance:
  assumes a: "archive_in higher c" and w: "window_ready higher lower (ring_of ho higher c) ts"
    and d: "d = (whisper_higher_archive_timestamp_start ts higher lower
      - pt_timestamp (point_dec ho (read_at (unat (offset higher)) 12 c))) div seconds_per_point higher"
  shows "unat d * 12 < 2 ^ 32" "window_slot higher lower (ring_of ho higher c) ts = unat d mod unat (points higher)"
proof -
  let ?f = "pt_timestamp (point_dec ho (read_at (unat (offset higher)) 12 c))"
  have f: "unat ?f = ring_first (ring_of ho higher c)"
    using archive_in_size(2) [OF a] by (simp add: ring_first_def ring_of_nth)
  have "unat d = ring_distance (ring_first (ring_of ho higher c))
      (unat (whisper_higher_archive_timestamp_start ts higher lower)) div unat (seconds_per_point higher)"
    by (simp add: d unat_div unat_diff_distance f)
  then show "unat d * 12 < 2 ^ 32" "window_slot higher lower (ring_of ho higher c) ts = unat d mod unat (points higher)"
    using w by (simp_all add: window_ready_def window_slot_def)
qed

lemma propagate_window_spec:
  assumes a: "archive_in higher c" and w: "window_ready higher lower (ring_of ho higher c) ts"
  obtains hs he nb where
    "propagate_window higher lower ts
       (pt_timestamp (point_dec ho (read_at (unat (offset higher)) 12 c))) = Inr (hs, he, nb)"
    "unat hs = unat (offset higher) + window_slot higher lower (ring_of ho higher c) ts * 12"
    "unat he = (unat hs + window_len higher lower * 12) mod (unat (points higher) * 12)"
    "unat nb = window_len higher lower"
  using propagate_window_at [OF a refl window_distance [OF a w refl]] w that by (auto simp: window_ready_def)

section \<open>Collecting the known values\<close>

lemma collect_known_spec:
  assumes buf: "n * 12 \<le> length buf" "\<forall>j<n. point_dec (host P) (read_at (j * 12) 12 buf) = r ! (k + j)"
    and room: "n \<le> room"
  shows "m = n - i \<Longrightarrow> i \<le> n \<Longrightarrow> length vals \<le> i \<Longrightarrow>
    collect_known P buf room spp m i (ts + of_nat i * spp) vals =
      Inr (vals @ map (\<lambda>j. pt_value (r ! (k + j)))
        (filter (\<lambda>j. pt_timestamp (r ! (k + j)) = ts + of_nat j * spp) [i..<n]))"
proof (induction m arbitrary: i vals)
  case 0
  then show ?case by simp
next
  case (Suc m)
  then have i: "i < n" "m = n - Suc i" by simp_all
  have "i * 12 + 12 \<le> n * 12" using i by simp
  then have len: "\<not> length buf < i * 12 + 12" using buf(1) by linarith
  have p: "ntoh_archive_point (host P) (archive_point_of_mem (host P) (read_at (i * 12) 12 buf))
      = r ! (k + i)"
    using buf(2) i by (simp add: point_dec_def)
  have next_ts: "ts + of_nat i * spp + spp = ts + of_nat (Suc i) * spp"
    by (simp add: algebra_simps)
  have up: "[i..<n] = i # [Suc i..<n]" using i by (simp add: upt_conv_Cons)
  have step: "collect_known P buf room spp m (Suc i) (ts + of_nat i * spp + spp) vs =
      Inr (vs @ map (\<lambda>j. pt_value (r ! (k + j)))
        (filter (\<lambda>j. pt_timestamp (r ! (k + j)) = ts + of_nat j * spp) [Suc i..<n]))"
    if "length vs \<le> Suc i" for vs
    unfolding next_ts using i that by (intro Suc.IH) simp_all
  show ?case
    unfolding collect_known.simps(2) Let_def p up
    using len i(1) room Suc.prems(3) by (simp add: step del: upt_Suc)
qed

lemma collect_known_window:
  assumes "n * 12 \<le> length buf" "\<forall>j<n. point_dec (host P) (read_at (j * 12) 12 buf) = r ! (k + j)"
    "n \<le> room"
  shows "collect_known P buf room spp n 0 ts [] = Inr (known_values r k n ts spp)"
  using collect_known_spec [OF assms, of n 0 "[]" spp ts] by (simp add: known_values_def)

lemma length_known_values: "length (known_values r k n ts spp) \<le> n"
  unfolding known_values_def length_map by (rule order_trans [OF length_filter_le]) simp

section \<open>A window that the code reads as meant\<close>

lemma sint_diff_u32:
  "unat (b :: u32) \<le> unat a \<Longrightarrow> unat a < 2 ^ 31 \<Longrightarrow> sint (a - b) = int (unat a - unat b)"
  by (subst sint_u32_small) (simp_all add: unat_diff_u32)

lemma size_of_int_nat: "n < 2 ^ 64 \<Longrightarrow> size_of_int (int n) = n"
  by (simp add: size_of_int_def)

lemma archive_offset_end_in:
  "archive_in a c \<Longrightarrow> unat (archive_offset_end a) = unat (offset a) + unat (points a) * 12"
  using archive_in_size(1) [of a c]
  by (simp add: archive_offset_end_def archive_in_def unat_word_ariths)

text \<open>
  The end offset that the code computes: it is reduced modulo the size of the
  archive as if the archive began at offset 0 of the file.
\<close>

definition window_end :: "archive_info \<Rightarrow> archive_info \<Rightarrow> ring \<Rightarrow> u32 \<Rightarrow> nat" where
  "window_end higher lower r ts =
     (unat (offset higher) + (window_slot higher lower r ts + window_len higher lower) * 12)
       mod (length r * 12)"

text \<open>
  The window does not go over the end of the archive. If its end, taken from the start
  of the file, lies before the size of the archive, it is read at once. Otherwise the
  comparison of the offsets selects two reads, of which the first one gets the window
  and more; the second one must not go past the buffer.
\<close>

definition window_plain :: "archive_info \<Rightarrow> archive_info \<Rightarrow> ring \<Rightarrow> u32 \<Rightarrow> bool" where
  "window_plain higher lower r ts \<longleftrightarrow>
     window_slot higher lower r ts + window_len higher lower \<le> length r \<and>
     (unat (offset higher) + (window_slot higher lower r ts + window_len higher lower) * 12 < length r * 12 \<or>
      unat (offset higher) - window_end higher lower r ts \<le> window_slot higher lower r ts * 12)"

definition slots_plain :: "nat \<Rightarrow> nat \<Rightarrow> nat \<Rightarrow> nat \<Rightarrow> bool" where
  "slots_plain off pts k n \<longleftrightarrow>
     k + n \<le> pts \<and> (off + (k + n) * 12 < pts * 12 \<or> off - (off + (k + n) * 12) mod (pts * 12) \<le> k * 12)"

lemma window_plain_slots:
  "window_plain higher lower r ts \<longleftrightarrow>
     slots_plain (unat (offset higher)) (length r) (window_slot higher lower r ts) (window_len higher lower)"
  by (simp add: window_plain_def slots_plain_def window_end_def)

lemma mod_end_le:
  assumes "d \<le> (S :: nat)" "S \<le> off + d" "0 < S"
  shows "(off + d) mod S \<le> off"
proof (cases "off < S")
  case True
  then have "(off + d) mod S = off + d - S" using assms by (simp add: le_mod_geq not_less)
  then show ?thesis using assms by simp
next
  case False
  then show ?thesis using mod_less_divisor [OF assms(3), of "off + d"] by linarith
qed

text \<open>
  The two reads when the end of the window lies before the archive: the second one is shorter
  at the end of the file, and both together may be longer than the buffer.
\<close>

lemma propagate_read_two:
  assumes fd: "fd_ok s fd" and a: "archive_in higher c" and alloc: "allocator_ok P"
    and k: "k < unat (points higher)" and hs: "unat hs = unat (offset higher) + k * 12"
    and he: "unat he \<le> unat (offset higher)"
    and b2: "b2 = read_at (unat (offset higher)) (unat (offset higher) - unat he) c"
  shows "propagate_read P fd higher hs he (fview fd p n c s) =
    (if usable P (unat (points higher) * 12) < (unat (points higher) - k) * 12 + length b2 then Inl HeapOverflow
     else Inr (write_at ((unat (points higher) - k) * 12) b2 (write_at 0 (read_at (unat hs) ((unat (points higher) - k) * 12) c)
       (replicate (unat (points higher) * 12) 0)), fview fd p (unat (offset higher) + length b2) c s))"
proof -
  note sz = archive_in_size [OF a]
  let ?pts = "unat (points higher)" and ?off = "unat (offset higher)"
  let ?b1 = "read_at (unat hs) ((?pts - k) * 12) c"
  have c: "?off + ?pts * 12 \<le> length c" "length c < 2 ^ 31" using a by (simp_all add: archive_in_def)
  note oe = archive_offset_end_in [OF a]
  have k12: "k * 12 < ?pts * 12" using k by simp
  have len1: "sint (archive_offset_end higher - hs) = int ((?pts - k) * 12)"
    using k12 hs oe c by (subst sint_diff_u32) (simp_all add: diff_mult_distrib)
  have len2: "sint (offset higher - he) = int (?off - unat he)"
    using he c by (intro sint_diff_u32) simp_all
  have notlt: "\<not> hs < he" using he hs by (simp add: word_less_nat_alt)
  have small: "unat hs < 2 ^ 31" using hs k12 c by linarith
  have r1: "length ?b1 = (?pts - k) * 12" using hs k12 c by (simp add: diff_mult_distrib)
  have "(?pts - k) * 12 \<le> ?pts * 12" by simp
  also have "\<dots> \<le> usable P (?pts * 12)" using alloc by (simp add: allocator_ok_def)
  finally have use: "(?pts - k) * 12 \<le> usable P (?pts * 12)" .
  have put1: "buf_put (usable P (?pts * 12)) 0 ?b1 (replicate (?pts * 12) 0) =
      Inr (write_at 0 ?b1 (replicate (?pts * 12) 0))"
    using r1 use k by (auto simp: buf_put_def)
  have put2: "buf_put (usable P (?pts * 12)) (int ((?pts - k) * 12)) b2 (write_at 0 ?b1 (replicate (?pts * 12) 0)) =
      (if usable P (?pts * 12) < (?pts - k) * 12 + length b2 then Inl HeapOverflow
       else Inr (write_at ((?pts - k) * 12) b2 (write_at 0 ?b1 (replicate (?pts * 12) 0))))"
    using r1 use by (auto simp: buf_put_def write_at_def simp del: of_nat_mult of_nat_diff)
  have b: "(?pts - k) * 12 < 2 ^ 63" "?off - unat he < 2 ^ 63" using c k12 by auto
  show ?thesis
    using fd notlt small b sz(3,4)
    by (simp add: propagate_read_def Let_def andthen_def posix_simps sint_u32_small sz(1) put1 put2 [unfolded b2]
        len1 len2 size_of_int_nat b2 del: of_nat_mult of_nat_diff)
qed

lemma propagate_read_twice:
  assumes "fd_ok s fd" "archive_in higher c" and alloc: "allocator_ok P"
    and k: "k < unat (points higher)" and "unat hs = unat (offset higher) + k * 12"
    and "unat he \<le> unat (offset higher)" and room: "unat (offset higher) - unat he \<le> k * 12"
  obtains bs m where
    "propagate_read P fd higher hs he (fview fd p n c s) =
       Inr (write_at ((unat (points higher) - k) * 12) bs (write_at 0 (read_at (unat hs) ((unat (points higher) - k) * 12) c)
         (replicate (unat (points higher) * 12) 0)), fview fd p m c s)"
proof -
  let ?b2 = "read_at (unat (offset higher)) (unat (offset higher) - unat he) c"
  have "(unat (points higher) - k) * 12 + length ?b2 \<le> (unat (points higher) - k) * 12 + k * 12"
    using room by (simp add: length_read_at)
  also have "\<dots> = unat (points higher) * 12" using k by (simp flip: add_mult_distrib)
  also have "\<dots> \<le> usable P (unat (points higher) * 12)" using alloc by (simp add: allocator_ok_def)
  finally show ?thesis
    using that propagate_read_two [OF assms(1-6) refl, of p n] by (simp add: not_less)
qed

text \<open>The points that the first part of the buffer holds.\<close>

lemma buffer_points:
  assumes "k + n \<le> unat (points higher)" "archive_in higher c" "pos = unat (offset higher) + k * 12" "n * 12 \<le> len"
  shows "\<forall>j<n. point_dec ho (read_at (j * 12) 12 (read_at pos len c)) = ring_of ho higher c ! (k + j)"
proof safe
  fix j
  assume j: "j < n"
  then have "j * 12 + 12 \<le> n * 12" by simp
  then have "read_at (j * 12) 12 (read_at pos len c) = read_at (pos + j * 12) 12 c"
    using assms(4) by (simp add: read_at_def take_drop drop_drop min_def add.commute)
  then show "point_dec ho (read_at (j * 12) 12 (read_at pos len c)) = ring_of ho higher c ! (k + j)"
    using assms(1,3) j by (subst ring_of_nth) (simp_all add: algebra_simps)
qed

lemma buffer_first:
  assumes "j < n" "n * 12 \<le> length bs"
  shows "read_at (j * 12) 12 (write_at 0 bs xs) = read_at (j * 12) 12 bs"
proof -
  have "j * 12 + 12 \<le> n * 12" using assms(1) by simp
  with assms(2) show ?thesis by (simp add: write_at_def read_at_def)
qed

lemma buffer_first_kept:
  assumes "j < n" "n * 12 \<le> length bs" "n * 12 \<le> pos" "length bs \<le> length xs"
  shows "read_at (j * 12) 12 (write_at pos bs' (write_at 0 bs xs)) = read_at (j * 12) 12 bs"
proof -
  have j: "j * 12 + 12 \<le> n * 12" using assms(1) by simp
  have "read_at (j * 12) 12 (write_at pos bs' (write_at 0 bs xs)) = read_at (j * 12) 12 (write_at 0 bs xs)"
    using j assms(2,3) by (intro read_write_apart) (simp_all add: length_write_at)
  then show ?thesis by (simp only: buffer_first [OF assms(1,2)])
qed

lemma propagate_read_once:
  assumes fd: "fd_ok s fd" and a: "archive_in higher c" and alloc: "allocator_ok P"
    and n: "0 < n" "n * 12 < 2 ^ 63" "k + n \<le> unat (points higher)"
    and hs: "unat hs = unat (offset higher) + k * 12" and he: "unat he = unat hs + n * 12"
  shows "propagate_read P fd higher hs he (fview fd p q c s) =
    Inr (write_at 0 (read_at (unat hs) (n * 12) c) (replicate (unat (points higher) * 12) 0), fview fd p (unat hs + n * 12) c s)"
proof -
  note sz = archive_in_size [OF a]
  have c: "unat (offset higher) + unat (points higher) * 12 \<le> length c" "length c < 2 ^ 31"
    using a by (simp_all add: archive_in_def)
  have kn12: "k * 12 + n * 12 \<le> unat (points higher) * 12" using n(3) by simp
  have lt: "hs < he" using he n by (simp add: word_less_nat_alt)
  have dist: "unat (he - hs) = n * 12" using he by (simp add: unat_diff_u32)
  have small: "unat hs < 2 ^ 31" using hs kn12 n(1) c by linarith
  have len: "length (read_at (unat hs) (n * 12) c) = n * 12" using hs kn12 c by (simp add: length_read_at)
  have "unat (points higher) * 12 \<le> usable P (unat (points higher) * 12)" using alloc by (simp add: allocator_ok_def)
  then have cap: "\<not> usable P (unat (points higher) * 12) < n * 12" using kn12 by linarith
  show ?thesis
    using fd lt dist small len cap n
    by (simp add: propagate_read_def Let_def andthen_def posix_simps sint_u32_small sz(1) buf_put_def) auto
qed

lemma propagate_read_plain:
  assumes fd: "fd_ok s fd" and a: "archive_in higher c" and alloc: "allocator_ok P"
    and n0: "0 < n" "n * 12 < 2 ^ 63" and plain: "slots_plain (unat (offset higher)) (unat (points higher)) k n"
    and hs: "unat hs = unat (offset higher) + k * 12"
    and he: "unat he = (unat hs + n * 12) mod (unat (points higher) * 12)"
  obtains buf m where
    "propagate_read P fd higher hs he (fview fd p q c s) = Inr (buf, fview fd p m c s)"
    "n * 12 \<le> length buf"
    "\<forall>j<n. point_dec (host P) (read_at (j * 12) 12 buf) = ring_of (host P) higher c ! (k + j)"
proof -
  let ?pts = "unat (points higher)" and ?off = "unat (offset higher)"
  have kn: "k + n \<le> ?pts" using plain by (simp add: slots_plain_def)
  have c: "?off + ?pts * 12 \<le> length c" using a by (simp add: archive_in_def)
  show ?thesis
  proof (cases "unat hs + n * 12 < ?pts * 12")
    case True
    let ?bs = "read_at (unat hs) (n * 12) c"
    have "unat he = unat hs + n * 12" using he True by simp
    note rd = propagate_read_once [OF fd a alloc n0 kn hs this]
    have "k * 12 + n * 12 \<le> ?pts * 12" using kn by simp
    then have "length ?bs = n * 12" using hs c by (simp add: length_read_at)
    then show ?thesis
      using that [OF rd] buffer_points [OF kn a hs order_refl, of "host P"] buffer_first [of _ n ?bs]
      by (simp add: length_write_at)
  next
    case False
    let ?bs = "read_at (unat hs) ((?pts - k) * 12) c"
    have e: "unat he = (?off + (k + n) * 12) mod (?pts * 12)" by (simp add: he hs algebra_simps)
    have le: "unat he \<le> ?off" unfolding e
      by (rule mod_end_le) (use kn n0(1) False in \<open>simp_all add: hs algebra_simps\<close>)
    moreover have "?off - unat he \<le> k * 12" using plain False by (simp add: slots_plain_def e hs algebra_simps)
    moreover have "k < ?pts" using kn n0 by simp
    ultimately obtain b2 m where rd: "propagate_read P fd higher hs he (fview fd p q c s) =
       Inr (write_at ((?pts - k) * 12) b2 (write_at 0 ?bs (replicate (?pts * 12) 0)), fview fd p m c s)"
      using propagate_read_twice [OF fd a alloc _ hs] by blast
    have part: "n * 12 \<le> (?pts - k) * 12" using kn by simp
    have len: "length ?bs = (?pts - k) * 12" using hs kn c by (simp add: length_read_at diff_mult_distrib)
    then show ?thesis
      using that [OF rd] part buffer_points [OF kn a hs part, of "host P"]
        buffer_first_kept [of _ n ?bs "(?pts - k) * 12" "replicate (?pts * 12) 0" b2]
      by (simp add: length_write_at)
  qed
qed

section \<open>What propagation writes\<close>

text \<open>
  The share of known points is an integer division in the code: it is 1 when every
  point of the window is known and 0 otherwise.
\<close>

definition known_share :: "nat \<Rightarrow> nat \<Rightarrow> u32" where
  "known_share known n = (if known = n then 1 else 0)"

lemma known_share_div:
  assumes "known \<le> n" "0 < n" "n < 2 ^ 32"
  shows "(of_nat known :: u32) div of_nat n = known_share known n"
proof -
  have "unat ((of_nat known :: u32) div of_nat n) = known div n"
    using assms by (simp add: unat_div unat_of_nat take_bit_nat_eq_self)
  also have "\<dots> = unat (known_share known n)"
    using assms by (auto simp: known_share_def)
  finally show ?thesis by (simp only: word_unat_eq_iff)
qed

definition propagated :: "archive_info \<Rightarrow> archive_info \<Rightarrow> ring \<Rightarrow> u32 \<Rightarrow> cdouble list" where
  "propagated higher lower r ts =
     known_values r (window_slot higher lower r ts)
       (window_len higher lower) (whisper_higher_archive_timestamp_start ts higher lower)
       (seconds_per_point higher)"

lemma propagate_slots:
  assumes fd: "fd_ok s fd" and alloc: "allocator_ok P" and a: "archive_in higher c"
    and d: "d = (whisper_higher_archive_timestamp_start ts higher lower
        - pt_timestamp (point_dec (host P) (read_at (unat (offset higher)) 12 c))) div seconds_per_point higher"
      "unat d * 12 < 2 ^ 32" "k = unat d mod unat (points higher)"
    and n: "n = window_len higher lower" "0 < n" "n * 12 < 2 ^ 31"
    and plain: "slots_plain (unat (offset higher)) (unat (points higher)) k n"
    and vals: "vals = known_values (ring_of (host P) higher c) k n
      (whisper_higher_archive_timestamp_start ts higher lower) (seconds_per_point higher)"
    and take: "take_it \<longleftrightarrow> float_ge (float_of_u32 (known_share (length vals) n)) (md_x_files_factor md)"
  obtains m where
    "whisper_write_propagate P fd ts md higher lower (fview fd p q c s) =
      (if take_it
       then andthen (whisper_write_point P fd lower ts (hton_archive_point (host P)
              \<lparr>pt_timestamp = ts, pt_value = whisper_aggregate_values vals (of_nat (length vals))
                 (md_aggregation_type md)\<rparr>)) (\<lambda>_. ret EXIT_SUCCESS) (fview fd p m c s)
       else Inr (EXIT_SUCCESS, fview fd p m c s))"
proof -
  note sz = archive_in_size [OF a]
  obtain hs he nb where win:
    "propagate_window higher lower ts
       (pt_timestamp (point_dec (host P) (read_at (unat (offset higher)) 12 c))) = Inr (hs, he, nb)"
    "unat hs = unat (offset higher) + k * 12"
    "unat he = (unat hs + n * 12) mod (unat (points higher) * 12)" "unat nb = n"
    using propagate_window_at [OF a d] n(1,3) by blast
  obtain buf m where buf:
    "propagate_read P fd higher hs he (fview fd p (unat (offset higher) + 12) c s) = Inr (buf, fview fd p m c s)"
    "n * 12 \<le> length buf"
    "\<forall>j<n. point_dec (host P) (read_at (j * 12) 12 buf) = ring_of (host P) higher c ! (k + j)"
    by (rule propagate_read_plain [OF fd a alloc n(2) _ plain win(2,3)]) (use n(3) in simp)
  have room: "n \<le> unat (points higher)" using plain by (simp add: slots_plain_def)
  have coll: "collect_known P buf (unat (points higher)) (seconds_per_point higher) (unat nb) 0
      (whisper_higher_archive_timestamp_start ts higher lower) [] = Inr vals"
    using collect_known_window [OF buf(2,3) room] by (simp add: win(4) vals)
  have first: "unat (offset higher) + 12 \<le> length c" using sz(2) a by (simp add: archive_in_def)
  have nb: "nb = of_nat n" using win(4) by (simp flip: win(4))
  have "length vals \<le> n" by (simp add: vals length_known_values)
  then have share: "(of_nat (length vals) :: u32) div nb = known_share (length vals) n"
    unfolding nb using n by (intro known_share_div) auto
  have nz: "nb \<noteq> 0" using win(4) n by (metis less_irrefl unat_0)
  have "whisper_write_propagate P fd ts md higher lower (fview fd p q c s) =
      (if take_it
       then andthen (whisper_write_point P fd lower ts (hton_archive_point (host P)
              \<lparr>pt_timestamp = ts, pt_value = whisper_aggregate_values vals (of_nat (length vals))
                 (md_aggregation_type md)\<rparr>)) (\<lambda>_. ret EXIT_SUCCESS) (fview fd p m c s)
       else Inr (EXIT_SUCCESS, fview fd p m c s))"
    using fd first sz(4) nz
    by (simp add: whisper_write_propagate_def andthen_def posix_simps win(1) buf(1) coll share take Let_def)
  then show ?thesis by (rule that)
qed

lemma propagate_plain:
  assumes fd: "fd_ok s fd" and alloc: "allocator_ok P" and a: "archive_in higher c"
    and w: "window_ready higher lower (ring_of (host P) higher c) ts"
    and plain: "window_plain higher lower (ring_of (host P) higher c) ts"
    and low: "archive_in lower c"
      "distance_fits lower (ring_first (ring_of (host P) lower c)) (unat ts)"
    and vals: "vals = propagated higher lower (ring_of (host P) higher c) ts"
    and take: "take_it \<longleftrightarrow> float_ge (float_of_u32 (known_share (length vals) (window_len higher lower)))
                 (md_x_files_factor md)"
  obtains m where
    "whisper_write_propagate P fd ts md higher lower (fview fd p n c s) =
       Inr (EXIT_SUCCESS,
         if take_it
         then fview fd p m (write_at (slot_offset (host P) lower c (unat ts))
                (point_enc (host P) \<lparr>pt_timestamp = ts, pt_value =
                   whisper_aggregate_values vals (of_nat (length vals)) (md_aggregation_type md)\<rparr>) c)
                (s\<lparr>monitoring_points := monitoring_points s + 1\<rparr>)
         else fview fd p m c s)"
proof -
  obtain m where pre: "whisper_write_propagate P fd ts md higher lower (fview fd p n c s) =
      (if take_it
       then andthen (whisper_write_point P fd lower ts (hton_archive_point (host P)
              \<lparr>pt_timestamp = ts, pt_value = whisper_aggregate_values vals (of_nat (length vals))
                 (md_aggregation_type md)\<rparr>)) (\<lambda>_. ret EXIT_SUCCESS) (fview fd p m c s)
       else Inr (EXIT_SUCCESS, fview fd p m c s))"
  proof (rule propagate_slots [OF fd alloc a refl window_distance [OF a w refl] refl _ _ _ vals [unfolded propagated_def] take])
  qed (use w plain in \<open>simp_all add: window_ready_def window_plain_slots\<close>)
  show ?thesis
  proof (cases take_it)
    case True
    then show ?thesis
      using that write_point_fview [OF fd low] by (simp add: pre andthen_def Let_def)
  next
    case False
    then show ?thesis using that by (simp add: pre)
  qed
qed

section \<open>A window whose end is taken modulo the size of the archive\<close>

lemma propagate_read_overflow:
  assumes "fd_ok s fd" "archive_in higher c" "allocator_ok P"
    and "k < unat (points higher)"
    and "unat hs = unat (offset higher) + k * 12" "unat he \<le> unat (offset higher)"
    and "usable P (unat (points higher) * 12)
        < (unat (points higher) - k) * 12 + (unat (offset higher) - unat he)"
    and "unat (offset higher) + (unat (offset higher) - unat he) \<le> length c"
  shows "propagate_read P fd higher hs he (fview fd p n c s) = Inl HeapOverflow"
  using propagate_read_two [OF assms(1-6) refl, of p n] assms(7,8) by simp

lemma propagate_overflow:
  assumes fd: "fd_ok s fd" and alloc: "allocator_ok P" and a: "archive_in higher c"
    and w: "window_ready higher lower (ring_of (host P) higher c) ts"
    and he: "window_end higher lower (ring_of (host P) higher c) ts \<le> unat (offset higher)"
    and over: "usable P (unat (points higher) * 12)
        < (unat (points higher) - window_slot higher lower (ring_of (host P) higher c) ts) * 12
          + (unat (offset higher) - window_end higher lower (ring_of (host P) higher c) ts)"
    and there: "unat (offset higher) + (unat (offset higher) - window_end higher lower (ring_of (host P) higher c) ts)
        \<le> length c"
  shows "whisper_write_propagate P fd ts md higher lower (fview fd p n c s) = Inl HeapOverflow"
proof -
  note sz = archive_in_size [OF a]
  obtain hs e nb where win:
    "propagate_window higher lower ts
       (pt_timestamp (point_dec (host P) (read_at (unat (offset higher)) 12 c))) = Inr (hs, e, nb)"
    "unat hs = unat (offset higher) + window_slot higher lower (ring_of (host P) higher c) ts * 12"
    "unat e = (unat hs + window_len higher lower * 12) mod (unat (points higher) * 12)"
    using propagate_window_spec [OF a w] by blast
  have e: "unat e = window_end higher lower (ring_of (host P) higher c) ts"
    by (simp add: win(2,3) window_end_def algebra_simps)
  have "unat (offset higher) + 12 \<le> length c" using sz(2) a by (simp add: archive_in_def)
  with fd sz(4) propagate_read_overflow [OF fd a alloc window_slot_less [OF a] win(2), of e]
    he over there
  show ?thesis
    by (simp add: whisper_write_propagate_def andthen_def posix_simps win(1) e)
qed

section \<open>A window that goes over the end of the archive\<close>

text \<open>
  When the reduced end of the window lies behind the start of the archive, the second read
  has a negative length and fails.
\<close>

lemma read_negative [posix_simps]:
  "fd_ok s fd \<Longrightarrow> 2 ^ 63 \<le> k \<Longrightarrow>
   posix_read fd k (fview fd p n c s) = Inr ((-1, []), fview fd p n c (s\<lparr>fs_errno := EFAULT\<rparr>))"
  by (simp add: posix_read_def andthen_def next_fault_none fd_ok_faults fails_def) (simp add: fview_def)

lemma size_of_negative: "0 < x \<Longrightarrow> x \<le> 2 ^ 63 \<Longrightarrow> 2 ^ 63 \<le> size_of_int (- int x)"
  by (simp add: size_of_int_def zmod_zminus1_eq_if)

lemma propagate_read_wrapped:
  assumes fd: "fd_ok s fd" and a: "archive_in higher c" and alloc: "allocator_ok P"
    and k: "k < unat (points higher)" and hs: "unat hs = unat (offset higher) + k * 12"
    and he: "unat (offset higher) < unat he" "unat he \<le> unat hs"
  shows "propagate_read P fd higher hs he (fview fd p n c s) =
    Inr (write_at 0 (read_at (unat hs) ((unat (points higher) - k) * 12) c) (replicate (unat (points higher) * 12) 0),
      fview fd p (unat (offset higher)) c (s\<lparr>fs_errno := EFAULT\<rparr>))"
proof -
  note sz = archive_in_size [OF a]
  let ?pts = "unat (points higher)" and ?off = "unat (offset higher)"
  let ?b1 = "read_at (unat hs) ((?pts - k) * 12) c"
  have c: "?off + ?pts * 12 \<le> length c" "length c < 2 ^ 31" using a by (simp_all add: archive_in_def)
  note oe = archive_offset_end_in [OF a]
  have k12: "k * 12 < ?pts * 12" using k by simp
  have len1: "sint (archive_offset_end higher - hs) = int ((?pts - k) * 12)"
    using k12 hs oe c by (subst sint_diff_u32) (simp_all add: diff_mult_distrib)
  have small: "unat hs < 2 ^ 31" using hs k12 c by linarith
  have diff: "sint (he - offset higher) = int (unat he - ?off)" using he small by (intro sint_diff_u32) simp_all
  have "offset higher - he = - (he - offset higher)" by simp
  moreover have "sint (- (he - offset higher)) = - sint (he - offset higher)"
  proof -
    have "unat he - ?off < 2 ^ 31" using he(2) small by linarith
    moreover have "0 < x \<Longrightarrow> x < 2 ^ 31 \<Longrightarrow> 0 < int x \<and> int x < 2 ^ 31" for x :: nat by auto
    ultimately have "0 < int (unat he - ?off)" "int (unat he - ?off) < 2 ^ 31" using he(1) by (meson zero_less_diff)+
    then have "0 < sint (he - offset higher)" "sint (he - offset higher) < 2 ^ 31"
      unfolding diff by this
    then show ?thesis by (subst sint_word_ariths(4)) (simp add: signed_take_bit_int_eq_self)
  qed
  ultimately have len2: "sint (offset higher - he) = - int (unat he - ?off)" unfolding diff by metis
  have neg: "2 ^ 63 \<le> size_of_int (- int (unat he - ?off))" using he small by (intro size_of_negative) simp_all
  have notlt: "\<not> hs < he" using he by (simp add: word_less_nat_alt)
  have r1: "length ?b1 = (?pts - k) * 12" using hs k12 c by (simp add: diff_mult_distrib)
  have "?pts * 12 \<le> usable P (?pts * 12)" using alloc by (simp add: allocator_ok_def)
  moreover have "(?pts - k) * 12 \<le> ?pts * 12" by simp
  ultimately have put1: "buf_put (usable P (?pts * 12)) 0 ?b1 (replicate (?pts * 12) 0) =
      Inr (write_at 0 ?b1 (replicate (?pts * 12) 0))"
    using r1 k by (auto simp: buf_put_def)
  have put2: "buf_put cap pos [] buf = Inr buf" for cap pos buf by (simp add: buf_put_def)
  have b: "(?pts - k) * 12 < 2 ^ 63" using c k12 by auto
  show ?thesis
    using fd notlt small b sz(3,4) neg
    by (simp add: propagate_read_def Let_def andthen_def posix_simps sint_u32_small sz(1) put1 put2
        len1 len2 size_of_int_nat del: of_nat_mult of_nat_diff)
qed

text \<open>
  Wherever the code looks for a window, it finds points of the slots from there on, round
  the end of the ring, or bytes that it did not fill.
\<close>

lemma second_part:
  assumes "length b1 = p" "p + q = l"
  shows "write_at p b2 (write_at 0 b1 (replicate l 0)) = b1 @ b2 @ replicate (q - length b2) 0"
  using assms by (auto simp: write_at_def)

lemma buffer_two:
  assumes a: "archive_in higher c" and k: "k < unat (points higher)" and pos: "pos = unat (offset higher) + k * 12"
    and b2: "b2 = read_at (unat (offset higher)) (l * 12) c" and j: "j < unat (points higher)"
  shows "point_dec ho (read_at (j * 12) 12 (write_at ((unat (points higher) - k) * 12) b2
      (write_at 0 (read_at pos ((unat (points higher) - k) * 12) c) (replicate (unat (points higher) * 12) 0))))
    \<in> {ring_of ho higher c ! ((k + j) mod unat (points higher)), \<lparr>pt_timestamp = 0, pt_value = 0\<rparr>}"
proof -
  let ?pts = "unat (points higher)" and ?off = "unat (offset higher)"
  let ?p = "(?pts - k) * 12" and ?b1 = "read_at pos ((?pts - k) * 12) c"
  have c: "?off + ?pts * 12 \<le> length c" using a by (simp add: archive_in_def)
  have split: "?p + k * 12 = ?pts * 12" using k by (simp flip: add_mult_distrib)
  then have len1: "length ?b1 = ?p" using c pos by (simp add: length_read_at)
  have buf: "write_at ?p b2 (write_at 0 ?b1 (replicate (?pts * 12) 0)) = ?b1 @ b2 @ replicate (k * 12 - length b2) 0"
    by (rule second_part [OF len1 split])
  show ?thesis
  proof (cases "j < ?pts - k")
    case True
    then have "j * 12 + 12 \<le> ?p" by simp
    then have "read_at (j * 12) 12 (?b1 @ b2 @ replicate (k * 12 - length b2) 0) = read_at (j * 12) 12 ?b1"
      using len1 by simp
    then show ?thesis
      using True k buffer_points [of k "?pts - k" higher c pos ?p ho, OF _ a pos order_refl] by (simp add: buf)
  next
    case False
    define i where "i = j - (?pts - k)"
    have kj: "k + j = i + ?pts" using False k by (simp add: i_def)
    have i: "j = ?pts - k + i" "i < k" using False j k by (simp_all add: i_def)
    have "(k + j) mod ?pts = i" unfolding kj using i(2) k by simp
    note i = i this
    then have "j * 12 = length ?b1 + i * 12" by (simp add: len1 add_mult_distrib)
    then have at: "read_at (j * 12) 12 (?b1 @ b2 @ replicate (k * 12 - length b2) 0) =
        read_at (i * 12) 12 (b2 @ replicate (k * 12 - length b2) 0)" by (rule read_at_append2)
    have i12: "i * 12 + 12 \<le> k * 12" "k * 12 \<le> ?pts * 12" using i(2) k by simp_all
    show ?thesis
    proof (cases "i < l")
      case True
      then have "i * 12 + 12 \<le> l * 12" by simp
      then have "read_at (i * 12) 12 b2 = read_at (?off + i * 12) 12 c" "i * 12 + 12 \<le> length b2"
        using i12 c by (auto simp: b2 read_at_def take_drop drop_drop min_def add.commute)
      then show ?thesis using i(2,3) k by (simp add: buf at ring_of_nth)
    next
      case False
      then have "l * 12 \<le> i * 12" by simp
      then have "length b2 = l * 12" "i * 12 = length b2 + (i * 12 - l * 12)" using i12 c by (simp_all add: b2 length_read_at)
      then have "read_at (i * 12) 12 (b2 @ replicate (k * 12 - length b2) 0) = replicate 12 0"
        using i12(1) by (subst read_at_append2) (auto simp: read_at_replicate)
      then show ?thesis by (simp add: buf at point_dec_zeros)
    qed
  qed
qed

text \<open>The second read is a whole number of points long.\<close>

lemma second_length:
  assumes "unat hs = off + k * 12" "unat he = (unat hs + n * 12) mod (pts * 12)" "unat he \<le> off"
  obtains l where "off - unat he = l * 12"
proof
  define y where "y = (off + (k + n) * 12) div (pts * 12) * pts"
  have "unat hs + n * 12 = off + (k + n) * 12" by (simp add: assms(1))
  then have "(off + (k + n) * 12) div (pts * 12) * (pts * 12) + unat he = off + (k + n) * 12"
    unfolding assms(2) by (simp only: div_mult_mod_eq)
  then have "y * 12 + unat he = off + (k + n) * 12" by (simp only: y_def mult.assoc)
  then show "off - unat he = (y - (k + n)) * 12" using assms(3) by simp
qed

text \<open>A window that is read at once ends where it should.\<close>

lemma window_once:
  assumes "unat hs = off + k * 12" "unat he = (unat hs + n * 12) mod (pts * 12)" "unat hs < unat he" "n \<le> pts" "k < pts"
  shows "unat he = unat hs + n * 12" "k + n \<le> pts"
proof -
  have "unat hs + n * 12 < pts * 12"
  proof (rule ccontr)
    assume "\<not> unat hs + n * 12 < pts * 12"
    then have "unat he \<le> unat hs" unfolding assms(2) using assms(4,5) by (intro mod_end_le) simp_all
    then show False using assms(3) by simp
  qed
  then show "unat he = unat hs + n * 12" "k + n \<le> pts" using assms(1,2) by simp_all
qed

lemma propagate_read_cases:
  assumes fd: "fd_ok s fd" and a: "archive_in higher c" and alloc: "allocator_ok P"
    and n: "0 < n" "n * 12 < 2 ^ 63" "n \<le> unat (points higher)" and k: "k < unat (points higher)"
    and hs: "unat hs = unat (offset higher) + k * 12"
    and he: "unat he = (unat hs + n * 12) mod (unat (points higher) * 12)"
  obtains "propagate_read P fd higher hs he (fview fd p q c s) = Inl HeapOverflow"
  | buf m e where
    "propagate_read P fd higher hs he (fview fd p q c s) = Inr (buf, fview fd p m c (s\<lparr>fs_errno := e\<rparr>))"
    "n * 12 \<le> length buf"
    "\<forall>j<n. point_dec (host P) (read_at (j * 12) 12 buf)
      \<in> {ring_of (host P) higher c ! ((k + j) mod unat (points higher)), \<lparr>pt_timestamp = 0, pt_value = 0\<rparr>}"
proof -
  let ?pts = "unat (points higher)" and ?off = "unat (offset higher)"
  let ?b1 = "read_at (unat hs) ((?pts - k) * 12) c"
  let ?two = "\<lambda>b2. write_at ((?pts - k) * 12) b2 (write_at 0 ?b1 (replicate (?pts * 12) 0))"
  have n12: "n * 12 \<le> length (?two b2)" for b2 using n(3) by (simp add: length_write_at le_max_iff_disj)
  have errno: "s\<lparr>fs_errno := fs_errno s\<rparr> = s" by simp
  consider (once) "unat hs < unat he" | (before) "unat he \<le> ?off" | (behind) "?off < unat he" "unat he \<le> unat hs"
    by linarith
  then show ?thesis
  proof cases
    case once
    note e = window_once(1) [OF hs he once n(3) k] and kn = window_once(2) [OF hs he once n(3) k]
    have "k * 12 + n * 12 \<le> ?pts * 12" using kn by simp
    then have len: "length (read_at (unat hs) (n * 12) c) = n * 12" using hs a by (simp add: archive_in_def)
    have "(k + j) mod ?pts = k + j" if "j < n" for j using that kn by simp
    moreover note rd = propagate_read_once [OF fd a alloc n(1,2) kn hs e, of p q]
    ultimately show ?thesis
      using len buffer_points [OF kn a hs order_refl, of "host P"] buffer_first [of _ n "read_at (unat hs) (n * 12) c"]
      by (intro that(2) [of _ _ "fs_errno s"]) (simp_all only: rd errno, simp_all add: length_write_at)
  next
    case before
    obtain l where l: "?off - unat he = l * 12" by (rule second_length [OF hs he before])
    note rd = propagate_read_two [OF fd a alloc k hs before refl, unfolded l, of p q]
    show ?thesis
    proof (cases "usable P (?pts * 12) < (?pts - k) * 12 + length (read_at ?off (l * 12) c)")
      case True
      then show ?thesis using rd by (intro that(1)) simp
    next
      case False
      then show ?thesis
        using n12 buffer_two [OF a k hs refl, of _ "host P" l] n(3)
        by (intro that(2) [of _ _ "fs_errno s"]) (simp_all only: rd errno if_False, simp_all)
    qed
  next
    case behind
    have "k * 12 < ?pts * 12" using k by simp
    then have "length ?b1 = (?pts - k) * 12" using hs a by (simp add: archive_in_def diff_mult_distrib)
    then have "?two [] = write_at 0 ?b1 (replicate (?pts * 12) 0)" by (simp add: write_at_def)
    then have rd: "propagate_read P fd higher hs he (fview fd p q c s) = Inr (?two [], fview fd p ?off c (s\<lparr>fs_errno := EFAULT\<rparr>))"
      using propagate_read_wrapped [OF fd a alloc k hs behind, of p q] by (simp only:)
    have "[] = read_at ?off (0 * 12) c" by (simp add: read_at_def)
    note points = buffer_two [OF a k hs this, of _ "host P"]
    show ?thesis using n12 [of "[]"] points n(3) by (intro that(2) [OF rd]) simp_all
  qed
qed

section \<open>A window of which no point is found\<close>

lemma known_values_none:
  assumes "\<forall>j<n. pt_timestamp (r ! (k + j)) \<noteq> ts + of_nat j * spp"
  shows "known_values r k n ts spp = []"
  using assms by (simp add: known_values_def)

lemma propagate_missed:
  assumes fd: "fd_ok s fd" and alloc: "allocator_ok P" and a: "archive_in higher c"
    and w: "window_ready higher lower (ring_of (host P) higher c) ts" and n: "n = window_len higher lower" "n \<le> unat (points higher)"
    and k: "k = window_slot higher lower (ring_of (host P) higher c) ts"
    and start: "start = whisper_higher_archive_timestamp_start ts higher lower"
    and unknown: "\<forall>j<n. pt_timestamp (ring_of (host P) higher c ! ((k + j) mod unat (points higher)))
      \<noteq> start + of_nat j * seconds_per_point higher" "\<forall>j<n. start + of_nat j * seconds_per_point higher \<noteq> 0"
    and xff: "\<not> float_ge (float_of_u32 0) (md_x_files_factor md)"
  shows "whisper_write_propagate P fd ts md higher lower (fview fd p q c s) = Inl HeapOverflow \<or>
    (\<exists>m e. whisper_write_propagate P fd ts md higher lower (fview fd p q c s) =
      Inr (EXIT_SUCCESS, fview fd p m c (s\<lparr>fs_errno := e\<rparr>)))"
proof -
  note sz = archive_in_size [OF a]
  have n0: "0 < n" "n * 12 < 2 ^ 31" using w by (simp_all add: window_ready_def n(1))
  obtain hs he nb where win:
    "propagate_window higher lower ts (pt_timestamp (point_dec (host P) (read_at (unat (offset higher)) 12 c))) = Inr (hs, he, nb)"
    "unat hs = unat (offset higher) + k * 12" "unat he = (unat hs + n * 12) mod (unat (points higher) * 12)" "unat nb = n"
    unfolding k n(1) using propagate_window_spec [OF a w] by blast
  have first: "unat (offset higher) + 12 \<le> length c" using sz(2) a by (simp add: archive_in_def)
  have nz: "nb \<noteq> 0" using win(4) n0 by (metis less_irrefl unat_0)
  have kp: "k < unat (points higher)" unfolding k by (rule window_slot_less [OF a])
  have "n * 12 < 2 ^ 63" using n0(2) by simp
  from propagate_read_cases [OF fd a alloc n0(1) this n(2) kp win(2,3), of p "unat (offset higher) + 12"] show ?thesis
  proof cases
    case 1
    then show ?thesis
      using fd first sz(4) by (simp add: whisper_write_propagate_def andthen_def posix_simps win(1))
  next
    case (2 buf m e)
    define r where "r = map (\<lambda>j. point_dec (host P) (read_at (j * 12) 12 buf)) [0..<n]"
    have points: "\<forall>j<n. point_dec (host P) (read_at (j * 12) 12 buf) = r ! (0 + j)" by (simp add: r_def)
    have "known_values r 0 n start (seconds_per_point higher) = []"
      using 2(3) unknown points by (intro known_values_none) fastforce
    then have "collect_known P buf (unat (points higher)) (seconds_per_point higher) n 0 start [] = Inr []"
      using collect_known_window [OF 2(2) points n(2)] by simp
    then have "whisper_write_propagate P fd ts md higher lower (fview fd p q c s) =
        Inr (EXIT_SUCCESS, fview fd p m c (s\<lparr>fs_errno := e\<rparr>))"
      using fd first sz(4) nz xff 2(1)
      by (simp add: whisper_write_propagate_def andthen_def posix_simps win(1,4) Let_def flip: start)
    then show ?thesis by blast
  qed
qed

text \<open>The slot of a timestamp of the window, relative to the first slot.\<close>

lemma slot_of_timestamp:
  assumes inv: "ring_inv spp r" and x: "x < length r" and spp: "0 < spp"
    and first: "ring_first r = t + j * spp" and t: "unat (pt_timestamp (r ! x)) = t + i * spp" "0 < t"
  shows "(x + j) mod length r = i mod length r"
proof -
  have nz: "pt_timestamp (r ! x) \<noteq> 0" using t by (metis add_is_0 less_irrefl unat_0)
  have "(int (unat (pt_timestamp (r ! x))) - int (ring_first r)) mod (int (length r) * int spp) = int x * int spp"
    using inv x nz unfolding ring_inv_def by blast
  moreover have "int (unat (pt_timestamp (r ! x))) - int (ring_first r) = (int i - int j) * int spp"
    unfolding t(1) first by (simp add: algebra_simps)
  ultimately have "(int i - int j) * int spp mod (int (length r) * int spp) = int x * int spp" by simp
  then have "(int i - int j) mod int (length r) * int spp = int x * int spp" by (simp only: mult_mod_left)
  then have "(int i - int j) mod int (length r) = int x" using spp by simp
  then have "(int i - int j + int j) mod int (length r) = (int x + int j) mod int (length r)" by (metis mod_add_left_eq)
  then have "int ((x + j) mod length r) = int (i mod length r)" by (simp add: zmod_int)
  then show ?thesis by (simp only: of_nat_eq_iff)
qed

text \<open>The timestamps that the code expects in the window do not wrap.\<close>

lemma expected_timestamp:
  assumes "t = unat start" "t + n * unat spp < 2 ^ 32" "i \<le> n" "n < 2 ^ 32"
  shows "unat (start + of_nat i * spp :: u32) = t + i * unat spp"
proof -
  have "i * unat spp \<le> n * unat spp" using assms(3) by simp
  then have "t + i * unat spp < 2 ^ 32" using assms(2) by linarith
  moreover have "unat (of_nat i :: u32) = i"
  proof -
    have "i < 2 ^ 32" using assms(3,4) by linarith
    then show ?thesis by (simp add: unat_of_nat take_bit_nat_eq_self)
  qed
  ultimately show ?thesis by (simp add: unat_word_ariths assms(1))
qed

text \<open>
  A complete window that goes over the end of its ring has its point \<open>j\<close> in the first slot. The
  distance of its start from there is \<open>- j\<close> points, taken modulo \<open>2 ^ 32\<close> seconds.
\<close>

lemma wrapped_slot:
  assumes spp: "0 < spp" and first: "t + j * spp < 2 ^ 32" "0 < j"
  shows "(ring_distance (t + j * spp) t div spp mod l + j) mod l = 2 ^ 32 div spp mod l"
proof -
  have le: "j * spp \<le> 2 ^ 32" "j \<le> 2 ^ 32 div spp" using first spp by (auto simp: less_eq_div_iff_mult_less_eq)
  have "0 < j * spp" using first(2) spp by simp
  then have "ring_distance (t + j * spp) t = 2 ^ 32 - j * spp" using first(1) by (simp add: ring_distance_def)
  moreover have "(2 ^ 32 - j * spp) div spp + j = (2 ^ 32 - j * spp + j * spp) div spp" using spp by simp
  then have "(2 ^ 32 - j * spp) div spp + j = 2 ^ 32 div spp" unfolding le_add_diff_inverse2 [OF le(1)] .
  ultimately show ?thesis by (metis mod_add_left_eq)
qed

lemma over_end_missed:
  assumes fd: "fd_ok s fd" and alloc: "allocator_ok P" and a: "archive_in higher c"
    and inv: "ring_inv (unat (seconds_per_point higher)) (ring_of (host P) higher c)"
    and n: "n = window_len higher lower" "n * 12 < 2 ^ 31" "n \<le> unat (points higher)"
    and t: "start = whisper_higher_archive_timestamp_start ts higher lower"
      "0 < unat start" "unat start + n * unat (seconds_per_point higher) < 2 ^ 32"
    and over: "i < unat (points higher)" "unat (points higher) < i + n"
    and complete: "\<forall>j<n. pt_timestamp (ring_of (host P) higher c ! ((i + j) mod unat (points higher)))
      = start + of_nat j * seconds_per_point higher"
    and spp: "12 \<le> unat (seconds_per_point higher)"
    and odd: "\<not> unat (points higher) dvd 2 ^ 32 div unat (seconds_per_point higher)"
    and xff: "\<not> float_ge (float_of_u32 0) (md_x_files_factor md)"
  shows "whisper_write_propagate P fd ts md higher lower (fview fd p q c s) = Inl HeapOverflow \<or>
    (\<exists>m e. whisper_write_propagate P fd ts md higher lower (fview fd p q c s) =
      Inr (EXIT_SUCCESS, fview fd p m c (s\<lparr>fs_errno := e\<rparr>)))"
proof -
  let ?r = "ring_of (host P) higher c" and ?pts = "unat (points higher)" and ?spp = "unat (seconds_per_point higher)"
  define j where "j = ?pts - i"
  have j: "0 < j" "j < n" "(i + j) mod ?pts = 0" using over n(3) by (auto simp: j_def)
  have expected: "unat (start + of_nat x * seconds_per_point higher) = unat start + x * ?spp" if "x \<le> n" for x
    using n(2) by (intro expected_timestamp [OF refl t(3) that]) simp
  have first: "ring_first ?r = unat start + j * ?spp"
    using complete j expected [of j] by (auto simp: ring_first_def)
  have "unat start + j * ?spp < 2 ^ 32" using t(3) j(2) mult_le_mono1 [of j n ?spp] by linarith
  then have slot: "(window_slot higher lower ?r ts + j) mod ?pts = 2 ^ 32 div ?spp mod ?pts"
    using wrapped_slot [of ?spp "unat start" j ?pts] spp j(1) by (simp add: window_slot_def first t(1))
  have ready: "window_ready higher lower ?r ts"
    using distance_div_fits [OF spp] j n(1,2) by (simp add: window_ready_def)
  have unknown: "pt_timestamp (?r ! ((window_slot higher lower ?r ts + x) mod ?pts)) \<noteq> start + of_nat x * seconds_per_point higher"
    if "x < n" for x
  proof
    let ?k = "window_slot higher lower ?r ts"
    assume "pt_timestamp (?r ! ((?k + x) mod ?pts)) = start + of_nat x * seconds_per_point higher"
    then have "((?k + x) mod ?pts + j) mod length ?r = x mod length ?r"
      using that expected [of x] spp over t(2) by (intro slot_of_timestamp [OF inv _ _ first]) simp_all
    then have "(?k + x + j) mod ?pts = x mod ?pts" by (simp only: length_ring_of mod_add_left_eq)
    then have "?pts dvd ?k + x + j - x" by (subst mod_eq_dvd_iff_nat [symmetric]) simp_all
    then have "(?k + j) mod ?pts = 0" by (simp add: dvd_eq_mod_eq_0)
    then show False using slot odd by (simp add: dvd_eq_mod_eq_0)
  qed
  show ?thesis
    using unknown expected t(2)
    by (intro propagate_missed [OF fd alloc a ready n(1,3) refl t(1) _ _ xff]) (auto simp: unat_eq_zero [symmetric] simp del: unat_eq_zero)
qed

end
