(* ===== verification/Whisper_Value.thy ===== *)
theory Whisper_Value
  imports Whisper_Propagate
begin

text \<open>
  A whole update of a metric's file. The file is abstracted to the list of its
  rings; \<open>whisper_update\<close> and \<open>whisper_write_value\<close> refine one function on that
  list, for files that already exist and for files they create.
\<close>

section \<open>Well-formed files\<close>

definition wsp_file :: "host_order \<Rightarrow> whisper_metadata \<Rightarrow> archive_info list \<Rightarrow> byte list \<Rightarrow> bool" where
  "wsp_file ho md as c \<longleftrightarrow>
     md_archive_count md = of_nat (length as) \<and> 16 + length as * 12 \<le> length c \<and> length c < 2 ^ 31 \<and>
     metadata_dec ho (read_at 0 16 c) = md \<and>
     (\<forall>i<length as. info_dec ho (read_at (16 + i * 12) 12 c) = as ! i \<and> archive_in (as ! i) c \<and>
        16 + length as * 12 \<le> unat (offset (as ! i))) \<and>
     (\<forall>i j. i < j \<longrightarrow> j < length as \<longrightarrow>
        unat (offset (as ! i)) + unat (points (as ! i)) * 12 \<le> unat (offset (as ! j)))"

definition rings_of :: "host_order \<Rightarrow> archive_info list \<Rightarrow> byte list \<Rightarrow> ring list" where
  "rings_of ho as c = map (\<lambda>a. ring_of ho a c) as"

lemma length_rings_of [simp]: "length (rings_of ho as c) = length as"
  by (simp add: rings_of_def)

lemma rings_of_nth [simp]: "i < length as \<Longrightarrow> rings_of ho as c ! i = ring_of ho (as ! i) c"
  by (simp add: rings_of_def)

lemma wsp_file_archive: "wsp_file ho md as c \<Longrightarrow> i < length as \<Longrightarrow> archive_in (as ! i) c"
  by (simp add: wsp_file_def)

lemma wsp_file_count:
  assumes "wsp_file ho md as c"
  shows "16 + length as * 12 < 2 ^ 31" "unat (md_archive_count md) = length as"
proof -
  show small: "16 + length as * 12 < 2 ^ 31" using assms unfolding wsp_file_def by linarith
  then show "unat (md_archive_count md) = length as"
    using assms by (simp_all add: wsp_file_def unat_of_nat take_bit_nat_eq_self)
qed

text \<open>Replacing a slot of one archive keeps the headers and the other archives.\<close>

lemma wsp_file_slot:
  assumes w: "wsp_file ho md as c" and i: "i < length as"
  shows "wsp_file ho md as (write_at (slot_offset ho (as ! i) c t) (point_enc ho p) c)"
    and "rings_of ho as (write_at (slot_offset ho (as ! i) c t) (point_enc ho p) c) =
      (rings_of ho as c)[i := (ring_of ho (as ! i) c)
        [ring_slot (unat (seconds_per_point (as ! i))) (ring_of ho (as ! i) c) t := p]]"
proof -
  let ?w = "slot_offset ho (as ! i) c t"
  let ?c = "write_at ?w (point_enc ho p) c"
  have a: "archive_in (as ! i) c" using w i by (rule wsp_file_archive)
  note inside = slot_offset_inside [OF a, of ho t]
  have head: "16 + length as * 12 \<le> ?w" using w i inside(1) unfolding wsp_file_def by fastforce
  have len: "length ?c = length c" using inside(3) by simp
  have rd: "read_at n k ?c = read_at n k c" if "n + k \<le> 16 + length as * 12" for n k
    using that head inside(3) by (intro read_write_apart) auto
  have arch: "archive_in b ?c = archive_in b c" for b by (simp add: archive_in_def len)
  have hd: "read_at (16 + j * 12) 12 ?c = read_at (16 + j * 12) 12 c" if "j < length as" for j
    using that by (intro rd) simp
  have md: "read_at 0 16 ?c = read_at 0 16 c" by (intro rd) simp
  show "wsp_file ho md as ?c"
    using w by (simp add: wsp_file_def len arch hd md)
  let ?slot = "ring_slot (unat (seconds_per_point (as ! i))) (ring_of ho (as ! i) c) t"
  have "?slot < unat (points (as ! i))"
    using inside(2) by (simp add: slot_offset_def)
  then have own: "ring_of ho (as ! i) ?c = (ring_of ho (as ! i) c)[?slot := p]"
    unfolding slot_offset_def by (rule ring_of_write [OF a])
  have other: "ring_of ho (as ! j) ?c = ring_of ho (as ! j) c" if "j < length as" "j \<noteq> i" for j
  proof (rule ring_of_frame)
    show "archive_in (as ! j) c" using w that(1) by (rule wsp_file_archive)
    have "unat (offset (as ! i)) + unat (points (as ! i)) * 12 \<le> unat (offset (as ! j)) \<or>
        unat (offset (as ! j)) + unat (points (as ! j)) * 12 \<le> unat (offset (as ! i))"
      using w that i unfolding wsp_file_def by (metis linorder_neqE_nat)
    then show "?w + length (point_enc ho p) \<le> unat (offset (as ! j)) \<or>
        unat (offset (as ! j)) + unat (points (as ! j)) * 12 \<le> ?w"
      using inside(1,2) by auto
  qed
  show "rings_of ho as ?c = (rings_of ho as c)[i := (ring_of ho (as ! i) c)[?slot := p]]"
  proof (rule nth_equalityI)
    fix j
    assume "j < length (rings_of ho as ?c)"
    then have "j < length as" by simp
    with own other i show "rings_of ho as ?c ! j = (rings_of ho as c)[i := (ring_of ho (as ! i) c)[?slot := p]] ! j"
      by (cases "j = i") simp_all
  qed simp
qed

section \<open>The abstract update\<close>

text \<open>
  What propagation from the ring \<open>rh\<close> of the archive \<open>higher\<close> makes of the ring \<open>rl\<close>
  of the archive \<open>lower\<close>, and how many points it writes.
\<close>

definition propagate_ring ::
    "whisper_metadata \<Rightarrow> u32 \<Rightarrow> archive_info \<Rightarrow> ring \<Rightarrow> archive_info \<Rightarrow> ring \<Rightarrow> ring \<times> u32" where
  "propagate_ring md ts higher rh lower rl =
     (let vals = propagated higher lower rh ts
      in if float_ge (float_of_u32 (known_share (length vals) (window_len higher lower)))
              (md_x_files_factor md)
         then (ring_write (unat (seconds_per_point lower)) rl \<lparr>pt_timestamp = ts, pt_value =
                 whisper_aggregate_values vals (of_nat (length vals)) (md_aggregation_type md)\<rparr>, 1)
         else (rl, 0))"

fun propagate_rings ::
    "whisper_metadata \<Rightarrow> u32 \<Rightarrow> archive_info \<Rightarrow> ring \<Rightarrow> (archive_info \<times> ring) list \<Rightarrow> ring list \<times> u32" where
  "propagate_rings md ts higher rh [] = ([], 0)"
| "propagate_rings md ts higher rh ((lower, rl) # rest) =
     (if ts mod seconds_per_point lower = 0
      then let (rl', k) = propagate_ring md ts higher rh lower rl;
               (rls, m) = propagate_rings md ts lower rl' rest
           in (rl' # rls, k + m)
      else (rl # map snd rest, 0))"

text \<open>Every window that the update meets is one that the code reads as meant.\<close>

fun propagate_ready ::
    "whisper_metadata \<Rightarrow> u32 \<Rightarrow> archive_info \<Rightarrow> ring \<Rightarrow> (archive_info \<times> ring) list \<Rightarrow> bool" where
  "propagate_ready md ts higher rh [] = True"
| "propagate_ready md ts higher rh ((lower, rl) # rest) =
     (ts mod seconds_per_point lower = 0 \<longrightarrow>
        window_ready higher lower rh ts \<and> window_plain higher lower rh ts \<and>
        distance_fits lower (ring_first rl) (unat ts) \<and>
        propagate_ready md ts lower (fst (propagate_ring md ts higher rh lower rl)) rest)"

definition align :: "archive_info \<Rightarrow> u32 \<Rightarrow> u32" where
  "align a ts = ts - ts mod seconds_per_point a"

fun update_rings ::
    "whisper_metadata \<Rightarrow> archive_info list \<Rightarrow> u32 \<Rightarrow> cdouble \<Rightarrow> ring list \<Rightarrow> ring list \<times> u32" where
  "update_rings md (a # as) ts v (r # rs) =
     (let t = align a ts; r' = ring_write (unat (seconds_per_point a)) r \<lparr>pt_timestamp = t, pt_value = v\<rparr>;
          (rs', k) = propagate_rings md t a r' (zip as rs)
      in (r' # rs', 1 + k))"
| "update_rings md as ts v rs = (rs, 0)"

fun update_ready ::
    "whisper_metadata \<Rightarrow> archive_info list \<Rightarrow> u32 \<Rightarrow> cdouble \<Rightarrow> ring list \<Rightarrow> bool" where
  "update_ready md (a # as) ts v (r # rs) =
     (distance_fits a (ring_first r) (unat (align a ts)) \<and>
      propagate_ready md (align a ts) a
        (ring_write (unat (seconds_per_point a)) r \<lparr>pt_timestamp = align a ts, pt_value = v\<rparr>) (zip as rs))"
| "update_ready md as ts v rs = False"

lemma length_propagate_rings:
  "length (fst (propagate_rings md ts higher rh xs)) = length xs"
  by (induction xs arbitrary: higher rh) (auto split: prod.splits simp: Let_def, metis fst_conv)

section \<open>Refinement\<close>

text \<open>
  \<open>updates fd p md as n c s r rs k\<close>: the result \<open>r\<close> is a successful one on the same
  open file, whose rings are now \<open>rs\<close>, with \<open>k\<close> points more on the counter.
\<close>

definition updates ::
    "platform \<Rightarrow> int \<Rightarrow> path \<Rightarrow> whisper_metadata \<Rightarrow> archive_info list \<Rightarrow> byte list \<Rightarrow> 'a wsp_state_scheme
       \<Rightarrow> stop + 'r \<times> 'a wsp_state_scheme \<Rightarrow> 'r \<Rightarrow> ring list \<Rightarrow> u32 \<Rightarrow> bool" where
  "updates P fd p md as c s res x rs k \<longleftrightarrow>
     (\<exists>m c'. res = Inr (x, fview fd p m c' (s\<lparr>monitoring_points := monitoring_points s + k\<rparr>)) \<and>
        wsp_file (host P) md as c' \<and> length c' = length c \<and> rings_of (host P) as c' = rs)"

lemma updates_refl:
  "wsp_file (host P) md as c \<Longrightarrow>
   updates P fd p md as c s (Inr (x, fview fd p n c s)) x (rings_of (host P) as c) 0"
  unfolding updates_def by (intro exI [of _ n] exI [of _ c]) simp

lemma write_point_updates:
  assumes fd: "fd_ok s fd" and w: "wsp_file (host P) md as c" and i: "i < length as"
    and d: "distance_fits (as ! i) (ring_first (rings_of (host P) as c ! i)) (unat (pt_timestamp pt))"
  shows "updates P fd p md as c s
     (whisper_write_point P fd (as ! i) (pt_timestamp pt) (hton_archive_point (host P) pt) (fview fd p n c s)) 0
     ((rings_of (host P) as c)[i := ring_write (unat (seconds_per_point (as ! i)))
        (rings_of (host P) as c ! i) pt]) 1"
proof -
  have a: "archive_in (as ! i) c" using w i by (rule wsp_file_archive)
  have "whisper_write_point P fd (as ! i) (pt_timestamp pt) (hton_archive_point (host P) pt) (fview fd p n c s) =
     (let w = slot_offset (host P) (as ! i) c (unat (pt_timestamp pt))
      in Inr (0, fview fd p (w + 12) (write_at w (point_enc (host P) pt) c)
                   (s\<lparr>monitoring_points := monitoring_points s + 1\<rparr>)))"
    using d i by (intro write_point_fview [OF fd a]) simp
  moreover note wsp_file_slot [OF w i, of "unat (pt_timestamp pt)" pt]
  moreover have "length (write_at (slot_offset (host P) (as ! i) c (unat (pt_timestamp pt)))
      (point_enc (host P) pt) c) = length c"
    using slot_offset_inside(3) [OF a] by simp
  ultimately show ?thesis
    using i unfolding updates_def ring_write_def Let_def by auto
qed

lemma write_propagate_updates:
  assumes fd: "fd_ok s fd" and alloc: "allocator_ok P" and w: "wsp_file (host P) md as c"
    and ij: "i < length as" "j < length as"
    and win: "window_ready (as ! i) (as ! j) (rings_of (host P) as c ! i) ts"
      "window_plain (as ! i) (as ! j) (rings_of (host P) as c ! i) ts"
      "distance_fits (as ! j) (ring_first (rings_of (host P) as c ! j)) (unat ts)"
    and res: "propagate_ring md ts (as ! i) (rings_of (host P) as c ! i) (as ! j) (rings_of (host P) as c ! j)
       = (r, k)"
  shows "updates P fd p md as c s
     (whisper_write_propagate P fd ts md (as ! i) (as ! j) (fview fd p n c s)) 0
     ((rings_of (host P) as c)[j := r]) k"
proof -
  let ?vals = "propagated (as ! i) (as ! j) (ring_of (host P) (as ! i) c) ts"
  let ?pt = "\<lparr>pt_timestamp = ts, pt_value =
    whisper_aggregate_values ?vals (of_nat (length ?vals)) (md_aggregation_type md)\<rparr>"
  let ?w = "slot_offset (host P) (as ! j) c (unat ts)"
  define take_it where "take_it \<longleftrightarrow>
    float_ge (float_of_u32 (known_share (length ?vals) (window_len (as ! i) (as ! j)))) (md_x_files_factor md)"
  have a: "archive_in (as ! i) c" "archive_in (as ! j) c"
    using w ij by (simp_all add: wsp_file_archive)
  obtain m where m: "whisper_write_propagate P fd ts md (as ! i) (as ! j) (fview fd p n c s) =
     Inr (0, if take_it
       then fview fd p m (write_at ?w (point_enc (host P) ?pt) c)
              (s\<lparr>monitoring_points := monitoring_points s + 1\<rparr>)
       else fview fd p m c s)"
    using win ij by (auto intro: propagate_plain [OF fd alloc a(1) _ _ a(2) _ refl take_it_def])
  show ?thesis
  proof (cases take_it)
    case True
    then have "r = ring_write (unat (seconds_per_point (as ! j))) (ring_of (host P) (as ! j) c) ?pt" "k = 1"
      using res ij by (simp_all add: propagate_ring_def Let_def take_it_def)
    moreover note wsp_file_slot [OF w ij(2), of "unat ts" ?pt]
    moreover have "length (write_at ?w (point_enc (host P) ?pt) c) = length c"
      using slot_offset_inside(3) [OF a(2)] by simp
    ultimately show ?thesis
      using m True unfolding updates_def ring_write_def by auto
  next
    case False
    then have "r = rings_of (host P) as c ! j" "k = 0"
      using res ij by (simp_all add: propagate_ring_def Let_def take_it_def)
    then show ?thesis using m False updates_refl [OF w, of fd p s 0 m] by simp
  qed
qed

lemma updates_andthen:
  assumes "updates P fd p md as c s (f st) x rs k"
    and "\<And>m c'. wsp_file (host P) md as c' \<Longrightarrow> length c' = length c \<Longrightarrow> rings_of (host P) as c' = rs \<Longrightarrow>
      updates P fd p md as c' (s\<lparr>monitoring_points := monitoring_points s + k\<rparr>)
        (g x (fview fd p m c' (s\<lparr>monitoring_points := monitoring_points s + k\<rparr>))) y rs' k'"
  shows "updates P fd p md as c s (andthen f g st) y rs' (k + k')"
proof -
  let ?s = "s\<lparr>monitoring_points := monitoring_points s + k\<rparr>"
  obtain m c' where c': "f st = Inr (x, fview fd p m c' ?s)" "wsp_file (host P) md as c'"
    "length c' = length c" "rings_of (host P) as c' = rs"
    using assms(1) unfolding updates_def by blast
  from assms(2) [OF c'(2-4), of m] c'(1,3) show ?thesis
    by (simp add: updates_def andthen_def add.assoc)
qed

lemma wsp_file_info:
  assumes "fd_ok s fd" "wsp_file (host P) md as c" "i < length as"
  shows "whisper_read_archive_info P fd (int i) (fview fd p n c s) =
    Inr (Some (as ! i), fview fd p (28 + i * 12) c s)"
proof -
  have le: "16 + i * 12 + 12 \<le> length c" "16 + i * 12 < 2 ^ 31"
    using assms(2,3) unfolding wsp_file_def by simp_all
  then have "zero_pad 12 (read_at (16 + i * 12) 12 c) = read_at (16 + i * 12) 12 c"
    by (simp add: zero_pad_def)
  then show ?thesis
    using assms le by (simp add: posix_simps wsp_file_def)
qed

text \<open>One turn of the loop, with the rest of the loop given by what it does to the rings.\<close>

lemma propagate_turn_updates:
  assumes alloc: "allocator_ok P" and fd: "fd_ok s fd" and w: "wsp_file (host P) md as c"
    and j: "Suc i < length as" and due: "ts mod seconds_per_point (as ! Suc i) = 0"
    and ready: "propagate_ready md ts (as ! i) (rings_of (host P) as c ! i)
      (drop (Suc i) (zip as (rings_of (host P) as c)))"
    and res: "propagate_rings md ts (as ! i) (rings_of (host P) as c ! i)
      (drop (Suc i) (zip as (rings_of (host P) as c))) = (rs, k)"
    and rest: "\<And>c' s' m' rs' k'. fd_ok s' fd \<Longrightarrow> wsp_file (host P) md as c' \<Longrightarrow>
      propagate_ready md ts (as ! Suc i) (rings_of (host P) as c' ! Suc i)
        (drop (Suc (Suc i)) (zip as (rings_of (host P) as c'))) \<Longrightarrow>
      propagate_rings md ts (as ! Suc i) (rings_of (host P) as c' ! Suc i)
        (drop (Suc (Suc i)) (zip as (rings_of (host P) as c'))) = (rs', k') \<Longrightarrow>
      updates P fd p md as c' s' (g (fview fd p m' c' s')) ()
        (take (Suc (Suc i)) (rings_of (host P) as c') @ rs') k'"
  shows "updates P fd p md as c s
    (andthen (whisper_write_propagate P fd ts md (as ! i) (as ! Suc i)) (\<lambda>_. g) (fview fd p m c s)) ()
    (take (Suc i) (rings_of (host P) as c) @ rs) k"
proof -
  let ?rs = "rings_of (host P) as c" and ?j = "Suc i"
  have i: "i < length as" using j by simp
  have cons: "drop ?j (zip as ?rs) = (as ! ?j, ?rs ! ?j) # drop (Suc ?j) (zip as ?rs)"
    using j by (simp add: Cons_nth_drop_Suc [symmetric])
  obtain r k1 where r: "propagate_ring md ts (as ! i) (?rs ! i) (as ! ?j) (?rs ! ?j) = (r, k1)"
    by fastforce
  obtain rs2 k2 where rs2: "propagate_rings md ts (as ! ?j) r (drop (Suc ?j) (zip as ?rs)) = (rs2, k2)"
    by fastforce
  have rs: "rs = r # rs2" "k = k1 + k2"
    using res due r rs2 by (simp_all add: cons del: rings_of_nth)
  have win: "window_ready (as ! i) (as ! ?j) (?rs ! i) ts" "window_plain (as ! i) (as ! ?j) (?rs ! i) ts"
    "distance_fits (as ! ?j) (ring_first (?rs ! ?j)) (unat ts)"
    and next_ready: "propagate_ready md ts (as ! ?j) r (drop (Suc ?j) (zip as ?rs))"
    using ready due r by (simp_all add: cons del: rings_of_nth)
  have "take ?j ?rs @ rs = take (Suc ?j) (?rs[?j := r]) @ rs2"
    using j by (simp add: take_Suc_conv_app_nth rs)
  moreover have "updates P fd p md as c s
    (andthen (whisper_write_propagate P fd ts md (as ! i) (as ! ?j)) (\<lambda>_. g) (fview fd p m c s)) ()
    (take (Suc ?j) (?rs[?j := r]) @ rs2) (k1 + k2)"
  proof (rule updates_andthen, rule write_propagate_updates [OF fd alloc w i j win r])
    fix m' c'
    assume c': "wsp_file (host P) md as c'" "rings_of (host P) as c' = ?rs[?j := r]"
    have nth: "rings_of (host P) as c' ! ?j = r" using c'(2) j by simp
    have tail: "drop (Suc ?j) (zip as (rings_of (host P) as c')) = drop (Suc ?j) (zip as ?rs)"
      by (simp add: c'(2) drop_zip)
    show "updates P fd p md as c' (s\<lparr>monitoring_points := monitoring_points s + k1\<rparr>)
      (g (fview fd p m' c' (s\<lparr>monitoring_points := monitoring_points s + k1\<rparr>))) ()
      (take (Suc ?j) (?rs[?j := r]) @ rs2) k2"
      unfolding c'(2) [symmetric]
      using fd next_ready rs2 by (intro rest) (simp_all add: nth tail c'(1) del: rings_of_nth)
  qed
  ultimately show ?thesis by (simp only: rs(2))
qed

lemma propagate_loop_updates:
  assumes alloc: "allocator_ok P"
  shows "fd_ok s fd \<Longrightarrow> wsp_file (host P) md as c \<Longrightarrow> Suc i + n = length as \<Longrightarrow>
    propagate_ready md ts (as ! i) (rings_of (host P) as c ! i)
      (drop (Suc i) (zip as (rings_of (host P) as c))) \<Longrightarrow>
    propagate_rings md ts (as ! i) (rings_of (host P) as c ! i)
      (drop (Suc i) (zip as (rings_of (host P) as c))) = (rs, k) \<Longrightarrow>
    updates P fd p md as c s (propagate_loop P fd md ts (as ! i) (Suc i) n (fview fd p m c s)) ()
      (take (Suc i) (rings_of (host P) as c) @ rs) k"
proof (induction n arbitrary: i c s m rs k)
  case 0
  then show ?case using updates_refl [OF 0(2), of fd p s "()" m] by (simp add: ret_def)
next
  case (Suc n)
  let ?rs = "rings_of (host P) as c" and ?j = "Suc i"
  have ij: "i < length as" "?j < length as" using Suc.prems(3) by simp_all
  have rest: "drop ?j (zip as ?rs) = (as ! ?j, ?rs ! ?j) # drop (Suc ?j) (zip as ?rs)"
    using ij by (simp add: Cons_nth_drop_Suc [symmetric])
  have spp: "seconds_per_point (as ! ?j) \<noteq> 0"
    using wsp_file_archive [OF Suc.prems(2) ij(2)] by (simp add: archive_in_def)
  note info = wsp_file_info [OF Suc.prems(1,2) ij(2), of p m]
  show ?case
  proof (cases "ts mod seconds_per_point (as ! ?j) = 0")
    case False
    have "drop ?j ?rs = ?rs ! ?j # drop (Suc ?j) ?rs" using ij by (simp add: Cons_nth_drop_Suc [symmetric])
    then have "rs = drop ?j ?rs" "k = 0"
      using Suc.prems(5) rest ij False by (auto simp: drop_zip)
    then show ?thesis
      using False spp info updates_refl [OF Suc.prems(2)] by (simp add: andthen_def ret_def)
  next
    case True
    have step: "updates P fd p md as c s
        (andthen (whisper_write_propagate P fd ts md (as ! i) (as ! ?j))
          (\<lambda>_. propagate_loop P fd md ts (as ! ?j) (Suc ?j) n) (fview fd p (28 + ?j * 12) c s)) ()
        (take ?j ?rs @ rs) k"
      using Suc.prems(3)
      by (intro propagate_turn_updates [OF alloc Suc.prems(1,2) ij(2) True Suc.prems(4,5)] Suc.IH) simp_all
    then show ?thesis
      using info spp True by (simp add: andthen_def [of "whisper_read_archive_info _ _ _"])
  qed
qed

text \<open>The point of the first archive and the propagation after it.\<close>

lemma point_propagate_updates:
  assumes fd: "fd_ok s fd" and alloc: "allocator_ok P" and w: "wsp_file (host P) md (a # lows) c"
    and pt: "pt = \<lparr>pt_timestamp = align a ts, pt_value = v\<rparr>"
    and ready: "update_ready md (a # lows) ts v (rings_of (host P) (a # lows) c)"
    and res: "update_rings md (a # lows) ts v (rings_of (host P) (a # lows) c) = (rs, k)"
  shows "updates P fd p md (a # lows) c s
     (andthen (whisper_write_point P fd a (align a ts) (hton_archive_point (host P) pt))
        (\<lambda>_. propagate_loop P fd md (align a ts) a 1 (length lows)) (fview fd p n c s)) () rs k"
proof -
  let ?as = "a # lows" and ?t = "align a ts"
  let ?rs = "rings_of (host P) ?as c"
  have rs0: "?rs = ring_of (host P) a c # rings_of (host P) lows c" by (simp add: rings_of_def)
  define r where "r = ring_write (unat (seconds_per_point a)) (ring_of (host P) a c) pt"
  obtain rs1 k1 where rs1: "propagate_rings md ?t a r (zip lows (rings_of (host P) lows c)) = (rs1, k1)"
    by fastforce
  have rsk: "rs = r # rs1" "k = 1 + k1"
    using res rs1 by (simp_all add: rs0 r_def pt Let_def)
  have rd: "distance_fits a (ring_first (ring_of (host P) a c)) (unat ?t)"
    "propagate_ready md ?t a r (zip lows (rings_of (host P) lows c))"
    using ready by (simp_all add: rs0 r_def pt)
  show ?thesis
    unfolding rsk
  proof (rule updates_andthen)
    show "updates P fd p md ?as c s
       (whisper_write_point P fd a ?t (hton_archive_point (host P) pt) (fview fd p n c s)) 0 (?rs[0 := r]) 1"
      using write_point_updates [OF fd w, of 0 pt p n] rd(1) by (simp add: r_def pt)
    fix m c'
    assume c': "wsp_file (host P) md ?as c'" "rings_of (host P) ?as c' = ?rs[0 := r]"
    have nth: "rings_of (host P) ?as c' ! 0 = r" using c'(2) by (simp add: rs0)
    have tail: "drop (Suc 0) (zip ?as (rings_of (host P) ?as c')) = zip lows (rings_of (host P) lows c)"
      unfolding c'(2) rs0 by simp
    have "updates P fd p md ?as c' (s\<lparr>monitoring_points := monitoring_points s + 1\<rparr>)
       (propagate_loop P fd md ?t (?as ! 0) (Suc 0) (length lows)
         (fview fd p m c' (s\<lparr>monitoring_points := monitoring_points s + 1\<rparr>))) ()
       (take (Suc 0) (rings_of (host P) ?as c') @ rs1) k1"
      using fd rd(2) rs1
      by (intro propagate_loop_updates [OF alloc _ c'(1)]) (simp_all only: nth tail fd_ok_monitoring, simp_all)
    moreover have "take (Suc 0) (rings_of (host P) ?as c') = [r]" unfolding c'(2) rs0 by simp
    ultimately show "updates P fd p md ?as c' (s\<lparr>monitoring_points := monitoring_points s + 1\<rparr>)
       (propagate_loop P fd md ?t a 1 (length lows)
         (fview fd p m c' (s\<lparr>monitoring_points := monitoring_points s + 1\<rparr>))) () (r # rs1) k1"
      by simp
  qed
qed

text \<open>The whole update of an open file, which it closes.\<close>

definition closed_with ::
    "int \<Rightarrow> path \<Rightarrow> byte list \<Rightarrow> u32 \<Rightarrow> 'a wsp_state_scheme \<Rightarrow> 'a wsp_state_scheme" where
  "closed_with fd p c k s =
     s\<lparr>fs_files := (fs_files s)(p \<mapsto> c), fs_fds := (fs_fds s)[nat fd := None],
       monitoring_points := monitoring_points s + k\<rparr>"

lemma update_unfold:
  assumes fd: "fd_ok s fd" and w: "wsp_file (host P) md (a # lows) c"
  shows "whisper_update P fd ts v (fview fd p n c s) =
      andthen (andthen (whisper_write_point P fd a (align a ts)
          (hton_archive_point (host P) \<lparr>pt_timestamp = align a ts, pt_value = v\<rparr>))
        (\<lambda>_. propagate_loop P fd md (align a ts) a 1 (length lows)))
        (\<lambda>_. andthen (posix_close fd) (\<lambda>_. ret EXIT_SUCCESS)) (fview fd p 28 c s)"
proof -
  have spp: "seconds_per_point a \<noteq> 0"
    using wsp_file_archive [OF w, of 0] by (simp add: archive_in_def)
  have md: "metadata_dec (host P) (read_at 0 16 c) = md" "16 \<le> length c"
    using w by (simp_all add: wsp_file_def)
  have info: "whisper_read_archive_info P fd 0 (fview fd p 16 c s) = Inr (Some a, fview fd p 28 c s)"
    using wsp_file_info [OF fd w, of 0 p 16] by simp
  have count: "unat (md_archive_count md) - Suc 0 = length lows"
    using wsp_file_count(2) [OF w] by simp
  show ?thesis
    using fd md spp info
    by (simp add: whisper_update_def andthen_def [of "whisper_read_metadata _ _"]
        andthen_def [of "whisper_read_archive_info _ _ _"] posix_simps count Let_def andthen_assoc
        flip: align_def)
qed

lemma update_refines:
  assumes fd: "fd_ok s fd" and alloc: "allocator_ok P" and w: "wsp_file (host P) md as c"
    and ready: "update_ready md as ts v (rings_of (host P) as c)"
    and res: "update_rings md as ts v (rings_of (host P) as c) = (rs, k)"
  obtains c' where
    "whisper_update P fd ts v (fview fd p n c s) = Inr (EXIT_SUCCESS, closed_with fd p c' k s)"
    "wsp_file (host P) md as c'" "length c' = length c" "rings_of (host P) as c' = rs"
proof -
  obtain a lows where as: "as = a # lows" using ready by (cases as) auto
  let ?pt = "\<lparr>pt_timestamp = align a ts, pt_value = v\<rparr>"
  obtain m c' where c':
    "andthen (whisper_write_point P fd a (align a ts) (hton_archive_point (host P) ?pt))
        (\<lambda>_. propagate_loop P fd md (align a ts) a 1 (length lows)) (fview fd p 28 c s) =
      Inr ((), fview fd p m c' (s\<lparr>monitoring_points := monitoring_points s + k\<rparr>))"
    "wsp_file (host P) md as c'" "length c' = length c" "rings_of (host P) as c' = rs"
    using point_propagate_updates [OF fd alloc w [unfolded as] refl, of ts v rs k p 28] ready res
    unfolding updates_def as by blast
  have "whisper_update P fd ts v (fview fd p n c s) = Inr (EXIT_SUCCESS, closed_with fd p c' k s)"
    unfolding update_unfold [OF fd w [unfolded as]] andthen_def [of "andthen _ _"] c'(1) using fd
    by (simp add: andthen_def posix_simps closed_with_def ret_def)
  then show ?thesis using that c'(2-4) by blast
qed

section \<open>Writing a value\<close>

text \<open>What the caller sees of a successful write: the file, the counter, and no open descriptor left.\<close>

definition stored ::
    "path \<Rightarrow> byte list \<Rightarrow> u32 \<Rightarrow> 'a wsp_state_scheme \<Rightarrow> 'a wsp_state_scheme \<Rightarrow> bool" where
  "stored p c k s s' \<longleftrightarrow>
     fs_files s' = (fs_files s)(p \<mapsto> c) \<and> (\<forall>fd. lookup_fd s' fd = lookup_fd s fd) \<and>
     fs_faults s' = [] \<and> monitoring_points s' = monitoring_points s + k"

lemma write_value_existing:
  assumes ready: "metric_ready P cf name s" and alloc: "allocator_ok P"
    and old: "fs_files s (metric_path cf name) = Some c" "\<not> fs_dirs s (metric_path cf name)"
    and w: "wsp_file (host P) md as c"
    and upd: "update_ready md as ts v (rings_of (host P) as c)"
    and res: "update_rings md as ts v (rings_of (host P) as c) = (rs, k)"
  obtains c' s' where
    "whisper_write_value P cf name ts v s = Inr (EXIT_SUCCESS, s')"
    "stored (metric_path cf name) c' k s s'" "fs_dirs s' = fs_dirs s"
    "wsp_file (host P) md as c'" "rings_of (host P) as c' = rs"
proof -
  let ?p = "metric_path cf name"
  note fn = metric_filename_ready [OF ready]
  have nofault: "fs_faults s = []" using ready by (simp add: metric_ready_def)
  obtain n t where nt: "alloc_fd (fs_fds s) \<lparr>of_path = ?p, of_pos = 0\<rparr> = (n, t)" by fastforce
  note op = open_existing [where name = "metric_file cf name", unfolded fn(3), OF nofault fn(2) old(2,1) nt]
  obtain c' where c':
    "whisper_update P (int n) ts v (fview (int n) ?p 0 c (s\<lparr>fs_fds := t\<rparr>)) =
       Inr (EXIT_SUCCESS, closed_with (int n) ?p c' k (s\<lparr>fs_fds := t\<rparr>))"
    "wsp_file (host P) md as c'" "rings_of (host P) as c' = rs"
    using update_refines [OF op(2) alloc w upd res] by blast
  let ?s = "closed_with (int n) ?p c' k (s\<lparr>fs_fds := t\<rparr>)"
  have "whisper_write_value P cf name ts v s = Inr (EXIT_SUCCESS, ?s)"
    using op(1) c'(1) by (simp add: whisper_write_value_def whisper_open_def andthen_def fn(1))
  moreover have "lookup_fd ?s fd = lookup_fd s fd" for fd
    using lookup_fd_closed [OF nt, of ?s] by (simp add: closed_with_def)
  then have "stored ?p c' k s ?s"
    using nofault by (simp add: stored_def closed_with_def)
  moreover have "fs_dirs ?s = fs_dirs s" by (simp add: closed_with_def)
  ultimately show ?thesis using that c'(2,3) by blast
qed

section \<open>A new file\<close>

text \<open>A new file is well formed and every ring in it is empty.\<close>

definition empty_ring :: "nat \<Rightarrow> ring" where
  "empty_ring n = replicate n \<lparr>pt_timestamp = 0, pt_value = 0\<rparr>"

lemma layout_nth [simp]:
  "i < length rets \<Longrightarrow> layout rets ! i =
     \<lparr>offset = archive_start rets i, seconds_per_point = time_per_point (rets ! i),
      points = nb_points (rets ! i)\<rparr>"
  by (simp add: layout_def)

lemma layout_end:
  assumes "retentions_ok rets" "i < j" "j \<le> length rets"
  shows "unat (archive_start rets i) + unat (nb_points (rets ! i)) * 12 \<le> unat (archive_start rets j)"
proof -
  have "take (Suc i) rets = take i rets @ [rets ! i]"
    using assms(2,3) by (simp add: take_Suc_conv_app_nth)
  moreover have "take j rets = take (Suc i) rets @ drop (Suc i) (take j rets)"
    using assms(2) append_take_drop_id [of "Suc i" "take j rets"] by (simp add: min_def)
  ultimately have "take j rets = take i rets @ rets ! i # drop (Suc i) (take j rets)" by simp
  then have "(\<Sum>r\<leftarrow>take j rets. unat (nb_points r) * 12) =
      (\<Sum>r\<leftarrow>take i rets. unat (nb_points r) * 12) + unat (nb_points (rets ! i)) * 12
      + (\<Sum>r\<leftarrow>drop (Suc i) (take j rets). unat (nb_points r) * 12)"
    by (metis (no_types, lifting) add.assoc list.simps(9) map_append sum_list.Cons sum_list_append)
  then show ?thesis using assms by (simp add: unat_archive_start)
qed

lemma new_file_wsp:
  assumes ok: "retentions_ok rets" and pts: "\<forall>r\<in>set rets. nb_points r \<noteq> 0"
  shows "wsp_file ho (new_metadata agg rets) (layout rets) (file_image ho agg rets)"
    and "rings_of ho (layout rets) (file_image ho agg rets) = map (\<lambda>r. empty_ring (unat (nb_points r))) rets"
proof -
  let ?c = "file_image ho agg rets"
  note len = length_file_image [OF ok, of ho agg]
  have small: "file_size rets < 2 ^ 31" and spp: "\<forall>r\<in>set rets. time_per_point r \<noteq> 0"
    using ok by (simp_all add: retentions_ok_def)
  have total: "unat (archive_start rets (length rets)) = file_size rets"
    using ok by (simp add: unat_archive_start file_size_def)
  have last: "unat (archive_start rets i) + unat (nb_points (rets ! i)) * 12 \<le> file_size rets"
    if "i < length rets" for i
    using layout_end [OF ok that] total by simp
  have head: "16 + length rets * 12 \<le> unat (archive_start rets i)" if "i < length rets" for i
    using ok that by (simp add: unat_archive_start)
  have arch: "archive_in (layout rets ! i) ?c" if "i < length rets" for i
    using that last [OF that] pts spp small by (simp add: archive_in_def len)
  show "wsp_file ho (new_metadata agg rets) (layout rets) ?c"
    using small arch head read_new_metadata [of ho agg rets] read_new_info [of _ rets ho agg]
      layout_end [OF ok]
    by (auto simp: wsp_file_def len new_metadata_def file_size_def)
  show "rings_of ho (layout rets) ?c = map (\<lambda>r. empty_ring (unat (nb_points r))) rets"
  proof (rule nth_equalityI)
    fix i
    assume "i < length (rings_of ho (layout rets) ?c)"
    then have i: "i < length rets" by simp
    have "point_dec ho (read_at (unat (archive_start rets i) + j * 12) 12 ?c) = \<lparr>pt_timestamp = 0, pt_value = 0\<rparr>"
      if "j < unat (nb_points (rets ! i))" for j
    proof -
      have "j * 12 + 12 \<le> unat (nb_points (rets ! i)) * 12" using that by simp
      then show ?thesis
        using head [OF i] last [OF i] by (simp add: read_new_zeros len point_dec_zeros)
    qed
    then have "ring_of ho (layout rets ! i) ?c = empty_ring (unat (nb_points (rets ! i)))"
      using i by (intro nth_equalityI) (simp_all add: ring_of_nth empty_ring_def)
    then show "rings_of ho (layout rets) ?c ! i = map (\<lambda>r. empty_ring (unat (nb_points r))) rets ! i"
      using i by simp
  qed simp
qed

lemma write_value_new:
  assumes ready: "metric_ready P cf name s" and alloc: "allocator_ok P"
    and new: "fs_files s (metric_path cf name) = None" "\<not> fs_dirs s (metric_path cf name)"
    and rets: "rets = whisper_find_retention P name (schema cf)" "retentions_ok rets"
      "\<forall>r\<in>set rets. nb_points r \<noteq> 0"
    and agg: "whisper_find_aggregation P name (aggregation cf) = Some agg"
    and rings: "rings = map (\<lambda>r. empty_ring (unat (nb_points r))) rets"
    and upd: "update_ready (new_metadata agg rets) (layout rets) ts v rings"
    and res: "update_rings (new_metadata agg rets) (layout rets) ts v rings = (rs, k)"
  obtains c' s' where
    "whisper_write_value P cf name ts v s = Inr (EXIT_SUCCESS, s')"
    "stored (metric_path cf name) c' k s s'" "fs_dirs s' (butlast (metric_path cf name))"
    "length c' = file_size rets"
    "wsp_file (host P) (new_metadata agg rets) (layout rets) c'" "rings_of (host P) (layout rets) c' = rs"
proof -
  let ?p = "metric_path cf name" and ?c = "file_image (host P) agg rets"
  let ?e = "s\<lparr>fs_errno := ENOENT\<rparr>"
  note fn = metric_filename_ready [OF ready]
  have nofault: "fs_faults s = []" and clear: "clear_path s (butlast ?p)"
    using ready by (simp_all add: metric_ready_def butlast_metric_path)
  have missing: "posix_open (metric_file cf name) False s = Inr (-1, ?e)"
    using nofault new clear by (intro open_missing) (simp_all add: fn(3) clear_path_butlast)
  have ready': "metric_ready P cf name ?e" using ready by (simp add: metric_ready_def clear_path_def)
  have tpp: "\<forall>r\<in>set (whisper_find_retention P name (schema cf)). time_per_point r \<noteq> 0"
    using rets by (simp add: retentions_ok_def)
  obtain n t s1 where cr:
    "whisper_create_file P cf name ?e = Inr (int n, fview (int n) ?p (length ?c) ?c (s1\<lparr>fs_fds := t\<rparr>))"
    "fd_ok (s1\<lparr>fs_fds := t\<rparr>) (int n)" "alloc_fd (fs_fds s) \<lparr>of_path = ?p, of_pos = 0\<rparr> = (n, t)"
    "dirs_added ?e ({components (storage_dir cf)}
        \<union> dirs_between (components (storage_dir cf)) (tokens ''.'' name)) s1"
    using create_file_ready [OF ready' _ _ tpp agg] new by (auto simp: rets(1) Let_def)
  note ds = dirs_added_simps [OF cr(4)]
  have mon: "monitoring_points s1 = monitoring_points s"
    using cr(4) by (auto simp: dirs_added_def)
  obtain c' where c':
    "whisper_update P (int n) ts v (fview (int n) ?p (length ?c) ?c (s1\<lparr>fs_fds := t\<rparr>)) =
       Inr (EXIT_SUCCESS, closed_with (int n) ?p c' k (s1\<lparr>fs_fds := t\<rparr>))"
    "wsp_file (host P) (new_metadata agg rets) (layout rets) c'" "length c' = length ?c"
    "rings_of (host P) (layout rets) c' = rs"
    using update_refines [OF cr(2) alloc new_file_wsp(1) [OF rets(2,3)]] upd res
    unfolding new_file_wsp(2) [OF rets(2,3)] rings by blast
  let ?s = "closed_with (int n) ?p c' k (s1\<lparr>fs_fds := t\<rparr>)"
  have "whisper_write_value P cf name ts v s = Inr (EXIT_SUCCESS, ?s)"
    using missing cr(1) c'(1) by (simp add: whisper_write_value_def whisper_open_def andthen_def fn(1) ret_def)
  moreover have "lookup_fd ?s fd = lookup_fd s fd" for fd
    using lookup_fd_closed [OF cr(3), of ?s] by (simp add: closed_with_def)
  then have "stored ?p c' k s ?s"
    using nofault by (simp add: stored_def closed_with_def ds mon)
  moreover have "fs_dirs ?s (butlast ?p)"
    using parent_added [OF ready] by (auto simp: closed_with_def ds)
  ultimately show ?thesis using that c'(2-4) length_file_image [OF rets(2)] by simp
qed

section \<open>Failures\<close>

lemma info_dec_zeros: "info_dec ho (replicate 12 0) = \<lparr>offset = 0, seconds_per_point = 0, points = 0\<rparr>"
  by (simp add: info_dec_def order_defs mem_defs read_at_replicate ntohl_def split: host_order.split)

text \<open>A file that ends with its header makes the update divide by zero.\<close>

lemma update_no_archive:
  assumes fd: "fd_ok s fd" and c: "length c = 16"
  shows "whisper_update P fd ts v (fview fd p n c s) = Inl DivByZero"
proof -
  have "read_at 16 12 c = []" by (simp add: read_at_def c)
  then have "whisper_read_archive_info P fd 0 (fview fd p 16 c s) =
      Inr (Some \<lparr>offset = 0, seconds_per_point = 0, points = 0\<rparr>, fview fd p 16 c s)"
    using read_archive_info_fview [OF fd, of 0 P p 16 c] c by (simp add: zero_pad_def info_dec_zeros)
  then show ?thesis
    using fd c by (simp add: whisper_update_def andthen_def posix_simps halt_def)
qed

lemma write_value_no_archive:
  assumes ready: "metric_ready P cf name s"
    and old: "fs_files s (metric_path cf name) = Some c" "\<not> fs_dirs s (metric_path cf name)" "length c = 16"
  shows "whisper_write_value P cf name ts v s = Inl DivByZero"
proof -
  let ?p = "metric_path cf name"
  note fn = metric_filename_ready [OF ready]
  have nofault: "fs_faults s = []" using ready by (simp add: metric_ready_def)
  obtain n t where nt: "alloc_fd (fs_fds s) \<lparr>of_path = ?p, of_pos = 0\<rparr> = (n, t)" by fastforce
  note op = open_existing [where name = "metric_file cf name", unfolded fn(3), OF nofault fn(2) old(2,1) nt]
  show ?thesis
    using op(1) update_no_archive [OF op(2) old(3)]
    by (simp add: whisper_write_value_def whisper_open_def andthen_def fn(1))
qed

text \<open>Without a schema the file gets no archive.\<close>

lemma create_file_no_schema:
  assumes ready: "metric_ready P cf name s"
    and new: "fs_files s (metric_path cf name) = None" "\<not> fs_dirs s (metric_path cf name)"
    and rets: "whisper_find_retention P name (schema cf) = []"
    and agg: "whisper_find_aggregation P name (aggregation cf) = Some agg"
  obtains n t s1 where
    "whisper_create_file P cf name s = Inr (int n, fview (int n) (metric_path cf name) 16 (file_image (host P) agg []) (s1\<lparr>fs_fds := t\<rparr>))"
    "fd_ok (s1\<lparr>fs_fds := t\<rparr>) (int n)" "fs_files s1 = fs_files s" "length (file_image (host P) agg []) = 16"
proof -
  have len: "length (file_image (host P) agg []) = 16" by (simp add: file_image_def layout_def)
  obtain n t s1 where cr: "whisper_create_file P cf name s =
      Inr (int n, fview (int n) (metric_path cf name) 16 (file_image (host P) agg []) (s1\<lparr>fs_fds := t\<rparr>))"
    "fd_ok (s1\<lparr>fs_fds := t\<rparr>) (int n)"
    and ds: "dirs_added s ({components (storage_dir cf)}
        \<union> dirs_between (components (storage_dir cf)) (tokens ''.'' name)) s1"
    by (rule create_file_ready [OF ready new _ agg]) (use len in \<open>auto simp: rets Let_def\<close>)
  show ?thesis by (rule that [OF cr dirs_added_simps(1) [OF ds] len])
qed

lemma write_value_no_schema:
  assumes ready: "metric_ready P cf name s"
    and new: "fs_files s (metric_path cf name) = None" "\<not> fs_dirs s (metric_path cf name)"
    and rets: "whisper_find_retention P name (schema cf) = []"
    and agg: "whisper_find_aggregation P name (aggregation cf) = Some agg"
  shows "whisper_write_value P cf name ts v s = Inl DivByZero"
proof -
  let ?e = "s\<lparr>fs_errno := ENOENT\<rparr>"
  note fn = metric_filename_ready [OF ready]
  have nofault: "fs_faults s = []" and clear: "clear_path s (butlast (metric_path cf name))"
    using ready by (simp_all add: metric_ready_def butlast_metric_path)
  have missing: "posix_open (metric_file cf name) False s = Inr (-1, ?e)"
    using nofault new clear by (intro open_missing) (simp_all add: fn(3) clear_path_butlast)
  have ready': "metric_ready P cf name ?e" using ready by (simp add: metric_ready_def clear_path_def)
  show ?thesis
  proof (rule create_file_no_schema [OF ready' _ _ rets agg])
    fix n t s1
    assume "whisper_create_file P cf name ?e = Inr (int n, fview (int n) (metric_path cf name) 16 (file_image (host P) agg []) (s1\<lparr>fs_fds := t\<rparr>))"
      "fd_ok (s1\<lparr>fs_fds := t\<rparr>) (int n)" "length (file_image (host P) agg []) = 16"
    then show ?thesis
      using missing update_no_archive
      by (simp add: whisper_write_value_def whisper_open_def andthen_def fn(1) ret_def)
  qed (use new in simp_all)
qed

end
