(* ===== verification/Whisper_Sample.thy ===== *)
theory Whisper_Sample
  imports Whisper_Value
begin

text \<open>
  A concrete daemon: a little-endian host with glibc's allocator, a schema of two
  archives of 60 points, and a file system with an empty root directory. The
  hypotheses of the properties are checked on it.
\<close>

section \<open>Platform and configuration\<close>

definition sample_platform :: platform where
  "sample_platform = \<lparr>host = LittleEndian, usable = glibc_usable, pcre_compiles = (\<lambda>_. True),
     pcre_exec = (\<lambda>pattern name. if pattern = ''none'' then -1 else 1)\<rparr>"

definition sample_rets :: "retention list" where
  "sample_rets = [\<lparr>time_per_point = 10, time_to_store = 600\<rparr>, \<lparr>time_per_point = 20, time_to_store = 1200\<rparr>]"

definition sample_agg :: pattern_aggregation where
  "sample_agg = \<lparr>agg_pattern = ''.*'', agg_xff = 0, agg_method = AGG_TYPE_SUM\<rparr>"

definition sample_conf :: carbon_conf where
  "sample_conf =
     \<lparr>schema = [\<lparr>str_pattern = ''.*'', str_retention = ''10:600,20:1200'', retention_list = sample_rets\<rparr>],
      aggregation = [sample_agg], conf_dir = ''/etc'', conf_file = ''/etc/carbon.conf'',
      storage_dir = ''/s'', line_receiver_port = 2003, udp_receiver_port = 2003, run = True,
      tracing = False, conf_log_level = LOG_LEVEL_INFO\<rparr>"

definition sample_state :: wsp_state where
  "sample_state = \<lparr>fs_files = (\<lambda>_. None), fs_dirs = (\<lambda>p. p = []), fs_fds = [], fs_faults = [],
     fs_errno = ENOENT, monitoring_points = 0\<rparr>"

definition sample_file :: "byte list" where
  "sample_file = file_image LittleEndian sample_agg sample_rets"

definition sample_stored :: wsp_state where
  "sample_stored = sample_state\<lparr>fs_files := [[''s'', ''a'', ''b.wsp''] \<mapsto> sample_file]\<rparr>"

lemma sample_alloc: "allocator_ok sample_platform"
  by (simp add: allocator_ok_def sample_platform_def glibc_usable_ge)

lemma sample_host: "host sample_platform = LittleEndian"
  by (simp add: sample_platform_def)

lemma sample_tokens: "tokens ''.'' ''a.b'' = [''a'', ''b'']"
  using tokens_join [of "[''a'', ''b'']" "''.''" "CHR ''.''"] by simp

lemma sample_components: "components ''/s'' = [''s'']"
  by (simp add: components_def)

lemma sample_path: "metric_path sample_conf ''a.b'' = [''s'', ''a'', ''b.wsp'']"
  by (simp add: metric_path_def sample_tokens sample_conf_def sample_components)

lemma sample_ready_gen:
  assumes "fs_faults s = []" "fs_dirs s []" "\<forall>k. 0 < k \<longrightarrow> k \<le> 2 \<longrightarrow> fs_files s (take k [''s'', ''a'']) = None"
  shows "metric_ready sample_platform sample_conf ''a.b'' s"
  using assms
  by (simp add: metric_ready_def sample_tokens sample_components sample_conf_def sample_platform_def
      below_def glibc_usable_def clear_path_def)

lemma sample_ready:
  "metric_ready sample_platform sample_conf ''a.b'' sample_state"
  "metric_ready sample_platform sample_conf ''a.b'' sample_stored"
proof -
  show "metric_ready sample_platform sample_conf ''a.b'' sample_state"
    by (rule sample_ready_gen) (simp_all add: sample_state_def)
  have "take k [''s'', ''a''] \<noteq> [''s'', ''a'', ''b.wsp'']" for k
    by (auto dest: arg_cong [where f = length])
  then show "metric_ready sample_platform sample_conf ''a.b'' sample_stored"
    by (intro sample_ready_gen) (auto simp: sample_stored_def sample_state_def)
qed

lemma sample_match: "whisper_pattern_match sample_platform ''.*'' name = 0"
  by (simp add: whisper_pattern_match_def sample_platform_def)

lemma sample_found:
  "whisper_find_retention sample_platform name (schema sample_conf) = sample_rets"
  "whisper_find_aggregation sample_platform name (aggregation sample_conf) = Some sample_agg"
  by (simp_all add: sample_conf_def sample_agg_def sample_match)

section \<open>The layout\<close>

lemma sample_points:
  "nb_points \<lparr>time_per_point = 10, time_to_store = 600\<rparr> = 60"
  "nb_points \<lparr>time_per_point = 20, time_to_store = 1200\<rparr> = 60"
  by (simp_all add: nb_points_def word_unat_eq_iff unat_div)

lemma sample_size: "file_size sample_rets = 1480"
  by (simp add: file_size_def sample_rets_def sample_points)

lemma sample_rets_ok: "retentions_ok sample_rets" "\<forall>r\<in>set sample_rets. nb_points r \<noteq> 0"
  by (simp_all add: retentions_ok_def sample_size) (simp_all add: sample_rets_def sample_points)

lemma sample_layout:
  "layout sample_rets = [\<lparr>offset = 40, seconds_per_point = 10, points = 60\<rparr>,
     \<lparr>offset = 760, seconds_per_point = 20, points = 60\<rparr>]"
  by (simp add: layout_def sample_rets_def archive_start_def sample_points)

lemma sample_wsp:
  "wsp_file LittleEndian (new_metadata sample_agg sample_rets) (layout sample_rets) sample_file"
  "rings_of LittleEndian (layout sample_rets) sample_file = [empty_ring 60, empty_ring 60]"
  using new_file_wsp [OF sample_rets_ok, of LittleEndian sample_agg]
  by (simp_all add: sample_file_def) (simp add: sample_rets_def sample_points)

lemma sample_length: "length sample_file = 1480"
  by (simp add: sample_file_def length_file_image sample_rets_ok sample_size)

lemma ring_first_empty: "0 < n \<Longrightarrow> ring_first (empty_ring n) = 0"
  by (simp add: ring_first_def empty_ring_def)

text \<open>A timestamp that is no multiple of the second interval is not propagated.\<close>

lemma sample_align: "align \<lparr>offset = 40, seconds_per_point = 10, points = 60\<rparr> 35 = 30"
  by (simp add: align_def)

lemma sample_update_ready:
  "update_ready md (layout sample_rets) 35 v [empty_ring 60, empty_ring 60]"
  by (simp add: sample_layout sample_align distance_fits_def ring_first_empty)

lemma sample_write: "\<exists>s'. whisper_write_value sample_platform sample_conf ''a.b'' 35 v sample_stored = Inr (0, s')"
proof -
  let ?md = "new_metadata sample_agg sample_rets" and ?as = "layout sample_rets"
  have files: "fs_files sample_stored (metric_path sample_conf ''a.b'') = Some sample_file"
    "\<not> fs_dirs sample_stored (metric_path sample_conf ''a.b'')"
    by (simp_all add: sample_path sample_stored_def sample_state_def)
  have w: "wsp_file (host sample_platform) ?md ?as sample_file"
    "update_ready ?md ?as 35 v (rings_of (host sample_platform) ?as sample_file)"
    using sample_wsp sample_update_ready by (simp_all add: sample_host)
  obtain rs k where "update_rings ?md ?as 35 v (rings_of (host sample_platform) ?as sample_file) = (rs, k)"
    by (cases "update_rings ?md ?as 35 v (rings_of (host sample_platform) ?as sample_file)")
  then show ?thesis by (rule write_value_existing [OF sample_ready(2) sample_alloc files w]) blast
qed

section \<open>A file with a point, and an update that propagates\<close>

text \<open>The point for 30 seconds is there; one for 45 seconds completes the window of the second archive.\<close>

definition filled_file :: "byte list" where
  "filled_file = write_at 40 (point_enc LittleEndian \<lparr>pt_timestamp = 30, pt_value = double_of_nat 3\<rparr>) sample_file"

definition sample_filled :: wsp_state where
  "sample_filled = sample_state\<lparr>fs_files := [[''s'', ''a'', ''b.wsp''] \<mapsto> filled_file]\<rparr>"

lemma filled_ready: "metric_ready sample_platform sample_conf ''a.b'' sample_filled"
proof -
  have "take k [''s'', ''a''] \<noteq> [''s'', ''a'', ''b.wsp'']" for k
    by (auto dest: arg_cong [where f = length])
  then show ?thesis by (intro sample_ready_gen) (auto simp: sample_filled_def sample_state_def)
qed

lemma filled_files:
  "fs_files sample_filled (metric_path sample_conf ''a.b'') = Some filled_file"
  "\<not> fs_dirs sample_filled (metric_path sample_conf ''a.b'')"
  by (simp_all add: sample_path sample_filled_def sample_state_def)

lemma filled_wsp:
  "wsp_file (host sample_platform) (new_metadata sample_agg sample_rets) (layout sample_rets) filled_file"
  "rings_of (host sample_platform) (layout sample_rets) filled_file =
     [(empty_ring 60)[0 := \<lparr>pt_timestamp = 30, pt_value = double_of_nat 3\<rparr>], empty_ring 60]"
proof -
  let ?as = "layout sample_rets"
  have i: "0 < length ?as" by (simp add: sample_layout)
  have ring: "ring_of LittleEndian (?as ! 0) sample_file = empty_ring 60"
    using rings_of_nth [OF i, of LittleEndian sample_file] by (simp add: sample_wsp(2))
  have off: "slot_offset LittleEndian (?as ! 0) sample_file 30 = 40"
    unfolding slot_offset_def ring by (simp add: sample_layout ring_slot_def ring_first_empty)
  note slot = wsp_file_slot [OF sample_wsp(1) i, of 30, unfolded off]
  show "wsp_file (host sample_platform) (new_metadata sample_agg sample_rets) ?as filled_file"
    unfolding filled_file_def sample_host by (rule slot(1))
  show "rings_of (host sample_platform) ?as filled_file =
     [(empty_ring 60)[0 := \<lparr>pt_timestamp = 30, pt_value = double_of_nat 3\<rparr>], empty_ring 60]"
    unfolding filled_file_def sample_host slot(2) ring
    by (simp add: sample_wsp(2) ring_slot_def ring_first_empty)
qed

lemma share_reached: "float_ge (float_of_u32 1) 0" "float_ge (float_of_u32 0) 0" "\<not> float_ge (float_of_u32 0) 0x3F000000"
  by (simp_all add: float_ge_def float_of_u32_def float_make_def ieee_round_def float_decode_def fp_decode_def
      fnum_le_def lead_exp_def nbits.simps le_scaled_def div_even_def Let_def)

lemma filled_update:
  fixes v :: cdouble
  defines "r0 \<equiv> (empty_ring 60)[0 := \<lparr>pt_timestamp = 30, pt_value = double_of_nat 3\<rparr>]"
  shows "update_ready (new_metadata sample_agg sample_rets) (layout sample_rets) 45 v [r0, empty_ring 60]"
    and "update_rings (new_metadata sample_agg sample_rets) (layout sample_rets) 45 v [r0, empty_ring 60] =
      ([r0[Suc 0 := \<lparr>pt_timestamp = 40, pt_value = v\<rparr>],
        (empty_ring 60)[0 := \<lparr>pt_timestamp = 40, pt_value =
          whisper_aggregate_values [double_of_nat 3, v] 2 (agg_code AGG_TYPE_SUM)\<rparr>]], 2)"
proof -
  let ?h = "\<lparr>offset = 40, seconds_per_point = 10, points = 60\<rparr> :: archive_info"
  let ?l = "\<lparr>offset = 760, seconds_per_point = 20, points = 60\<rparr> :: archive_info"
  let ?r1 = "r0[Suc 0 := \<lparr>pt_timestamp = 40, pt_value = v\<rparr>]"
  have t: "align ?h 45 = 40" by (simp add: align_def)
  have len0: "length r0 = 60" by (simp add: r0_def empty_ring_def)
  have first: "ring_first r0 = 30" "ring_first ?r1 = 30" by (simp_all add: r0_def ring_first_def empty_ring_def)
  have written: "ring_write 10 r0 \<lparr>pt_timestamp = 40, pt_value = v\<rparr> = ?r1"
    by (simp add: ring_write_def ring_slot_def ring_distance_def first len0)
  have start: "whisper_higher_archive_timestamp_start 40 ?h ?l = 30"
    by (simp add: whisper_higher_archive_timestamp_start_def)
  have len: "window_len ?h ?l = 2" by (simp add: window_len_def)
  have slot: "window_slot ?h ?l ?r1 40 = 0" by (simp add: window_slot_def ring_distance_def start first len0)
  have "[0..<2] = [0, 1 :: nat]" by (simp add: upt_rec)
  then have vals: "propagated ?h ?l ?r1 40 = [double_of_nat 3, v]"
    by (simp add: propagated_def known_values_def slot len start) (simp add: r0_def empty_ring_def)
  have win: "window_ready ?h ?l ?r1 40" "window_plain ?h ?l ?r1 40"
    by (simp_all add: window_ready_def window_plain_def ring_distance_def start first len slot len0)
  have md: "md_x_files_factor (new_metadata sample_agg sample_rets) = 0"
    "md_aggregation_type (new_metadata sample_agg sample_rets) = agg_code AGG_TYPE_SUM"
    by (simp_all add: new_metadata_def sample_agg_def)
  have step: "propagate_ring (new_metadata sample_agg sample_rets) 40 ?h ?r1 ?l (empty_ring 60) =
      ((empty_ring 60)[0 := \<lparr>pt_timestamp = 40, pt_value =
          whisper_aggregate_values [double_of_nat 3, v] 2 (agg_code AGG_TYPE_SUM)\<rparr>], 1)"
    by (simp add: propagate_ring_def vals md len known_share_def share_reached ring_write_def ring_slot_def ring_first_empty)
  show "update_ready (new_metadata sample_agg sample_rets) (layout sample_rets) 45 v [r0, empty_ring 60]"
    using win by (simp add: sample_layout t written distance_fits_def ring_distance_def first ring_first_empty)
  show "update_rings (new_metadata sample_agg sample_rets) (layout sample_rets) 45 v [r0, empty_ring 60] =
      ([?r1, (empty_ring 60)[0 := \<lparr>pt_timestamp = 40, pt_value =
          whisper_aggregate_values [double_of_nat 3, v] 2 (agg_code AGG_TYPE_SUM)\<rparr>]], 2)"
    by (simp add: sample_layout t written step)
qed

lemma filled_sum: "whisper_aggregate_values [double_of_nat 3, double_of_nat 4] 2 (agg_code AGG_TYPE_SUM) = double_of_nat 7"
  using double_sum_nat [of "[double_of_nat 3, double_of_nat 4]" "[3, 4]" 0]
  by (simp add: double_is_nat_of_nat whisper_aggregate_values_def)

section \<open>A first point that is due in both archives\<close>

text \<open>The window of this update begins before the only point of its ring.\<close>

definition minute_rets :: "retention list" where
  "minute_rets = [\<lparr>time_per_point = 60, time_to_store = 3600\<rparr>, \<lparr>time_per_point = 120, time_to_store = 7200\<rparr>]"

definition minute_agg :: pattern_aggregation where
  "minute_agg = sample_agg\<lparr>agg_xff := 0x3F000000\<rparr>"

definition minute_conf :: carbon_conf where
  "minute_conf = sample_conf\<lparr>schema := [\<lparr>str_pattern = ''.*'', str_retention = ''60:3600,120:7200'', retention_list = minute_rets\<rparr>],
     aggregation := [minute_agg]\<rparr>"

lemma minute_points:
  "nb_points \<lparr>time_per_point = 60, time_to_store = 3600\<rparr> = 60"
  "nb_points \<lparr>time_per_point = 120, time_to_store = 7200\<rparr> = 60"
  by (simp_all add: nb_points_def word_unat_eq_iff unat_div)

lemma minute_size: "file_size minute_rets = 1480"
  by (simp add: file_size_def minute_rets_def minute_points)

lemma minute_rets_ok: "retentions_ok minute_rets" "\<forall>r\<in>set minute_rets. nb_points r \<noteq> 0"
  by (simp_all add: retentions_ok_def minute_size) (simp_all add: minute_rets_def minute_points)

lemma minute_layout:
  "layout minute_rets = [\<lparr>offset = 40, seconds_per_point = 60, points = 60\<rparr>,
     \<lparr>offset = 760, seconds_per_point = 120, points = 60\<rparr>]"
  by (simp add: layout_def minute_rets_def archive_start_def minute_points)

lemma minute_ready:
  "metric_path minute_conf ''a.b'' = [''s'', ''a'', ''b.wsp'']"
  "metric_ready sample_platform minute_conf ''a.b'' sample_state"
  using sample_ready(1) sample_path by (simp_all add: minute_conf_def metric_ready_def metric_path_def)

lemma minute_found:
  "whisper_find_retention sample_platform name (schema minute_conf) = minute_rets"
  "whisper_find_aggregation sample_platform name (aggregation minute_conf) = Some minute_agg"
  by (simp_all add: minute_conf_def minute_agg_def sample_agg_def sample_match)

lemma minute_update:
  "update_ready (new_metadata minute_agg minute_rets) (layout minute_rets) 150 v [empty_ring 60, empty_ring 60]"
  "update_rings (new_metadata minute_agg minute_rets) (layout minute_rets) 150 v [empty_ring 60, empty_ring 60] =
     ([(empty_ring 60)[0 := \<lparr>pt_timestamp = 120, pt_value = v\<rparr>], empty_ring 60], 1)"
proof -
  let ?h = "\<lparr>offset = 40, seconds_per_point = 60, points = 60\<rparr> :: archive_info"
  let ?l = "\<lparr>offset = 760, seconds_per_point = 120, points = 60\<rparr> :: archive_info"
  let ?r = "(empty_ring 60)[0 := \<lparr>pt_timestamp = 120, pt_value = v\<rparr>]"
  have t: "align ?h 150 = 120" by (simp add: align_def)
  have len0: "length ?r = 60" by (simp add: empty_ring_def)
  have first: "ring_first ?r = 120" by (simp add: ring_first_def empty_ring_def)
  have written: "ring_write 60 (empty_ring 60) \<lparr>pt_timestamp = 120, pt_value = v\<rparr> = ?r"
    by (simp add: ring_write_def ring_slot_def ring_first_empty)
  have start: "whisper_higher_archive_timestamp_start 120 ?h ?l = 60"
    by (simp add: whisper_higher_archive_timestamp_start_def)
  have len: "window_len ?h ?l = 2" by (simp add: window_len_def)
  have slot: "window_slot ?h ?l ?r 120 = 27" by (simp add: window_slot_def ring_distance_def start first) (simp add: empty_ring_def)
  have "[0..<2] = [0, 1 :: nat]" by (simp add: upt_rec)
  then have vals: "propagated ?h ?l ?r 120 = []"
    by (simp add: propagated_def known_values_def slot len start) (simp add: empty_ring_def)
  have win: "window_ready ?h ?l ?r 120" "window_plain ?h ?l ?r 120"
    by (simp_all add: window_ready_def window_plain_def ring_distance_def start first len slot) (simp add: empty_ring_def)
  have md: "md_x_files_factor (new_metadata minute_agg minute_rets) = 0x3F000000"
    by (simp add: new_metadata_def minute_agg_def)
  have step: "propagate_ring (new_metadata minute_agg minute_rets) 120 ?h ?r ?l (empty_ring 60) = (empty_ring 60, 0)"
    by (simp add: propagate_ring_def vals md len known_share_def share_reached)
  show "update_ready (new_metadata minute_agg minute_rets) (layout minute_rets) 150 v [empty_ring 60, empty_ring 60]"
    using win by (simp add: minute_layout t written distance_fits_def ring_first_empty)
  show "update_rings (new_metadata minute_agg minute_rets) (layout minute_rets) 150 v [empty_ring 60, empty_ring 60] =
     ([?r, empty_ring 60], 1)"
    by (simp add: minute_layout t written step)
qed

end
