(* ===== verification/Whisper_Print.thy ===== *)
theory Whisper_Print
  imports Whisper_Value
begin

text \<open>
  \<open>whisper_print_file\<close> of \<open>whisper.c\<close>, which reads a whole file back. What it prints is the
  list of the values it hands to \<open>printf\<close>, line by line. On a well formed file these are
  the header, the archives and the points of the rings.
\<close>

section \<open>Operations\<close>

datatype printed = Printed_file string | Printed_header whisper_metadata
  | Printed_archive nat archive_info | Printed_point nat u32 u32 cdouble

text \<open>The loop over the points of an archive: \<open>n\<close> points are left.\<close>

fun print_points :: "platform \<Rightarrow> int \<Rightarrow> nat \<Rightarrow> nat \<Rightarrow> u32 \<Rightarrow> ('a fsys_scheme, printed list) prog" where
  "print_points P fd 0 point_id loop_offset = ret []"
| "print_points P fd (Suc n) point_id loop_offset =
     andthen (whisper_read_archive_point P fd) (\<lambda>pt.
     case pt of None \<Rightarrow> halt NullDeref
     | Some arch_pt \<Rightarrow>
         andthen (print_points P fd n (Suc point_id) (loop_offset + 12)) (\<lambda>ls.
         ret (Printed_point point_id loop_offset (pt_timestamp arch_pt) (pt_value arch_pt) # ls)))"

text \<open>The loop over the archives; a seek that fails is only logged.\<close>

fun print_archives :: "platform \<Rightarrow> int \<Rightarrow> nat \<Rightarrow> nat \<Rightarrow> ('a fsys_scheme, printed list) prog" where
  "print_archives P fd 0 archive_id = ret []"
| "print_archives P fd (Suc n) archive_id =
     andthen (whisper_read_archive_info P fd (int archive_id)) (\<lambda>a.
     case a of None \<Rightarrow> halt NullDeref
     | Some arch_info \<Rightarrow>
         andthen (posix_lseek fd (uint (offset arch_info))) (\<lambda>_.
         andthen (print_points P fd (unat (points arch_info)) 0 (offset arch_info)) (\<lambda>pts.
         andthen (print_archives P fd n (Suc archive_id)) (\<lambda>ls.
         ret (Printed_archive archive_id arch_info # pts @ ls)))))"

text \<open>
  The result of \<open>open\<close> is not checked: with a bad descriptor no header is read, and the
  null pointer is followed.
\<close>

definition whisper_print_file :: "platform \<Rightarrow> string \<Rightarrow> ('a fsys_scheme, printed list) prog" where
  "whisper_print_file P filename =
     andthen (posix_open filename False) (\<lambda>fd.
     andthen (whisper_read_metadata P fd) (\<lambda>md.
     case md of None \<Rightarrow> halt NullDeref
     | Some wsp_md \<Rightarrow>
         andthen (print_archives P fd (unat (md_archive_count wsp_md)) 0) (\<lambda>ls.
         andthen (posix_close fd) (\<lambda>_.
         ret (Printed_file filename # Printed_header wsp_md # ls)))))"

section \<open>The listing of a file\<close>

definition list_points :: "u32 \<Rightarrow> ring \<Rightarrow> printed list" where
  "list_points off r =
     map (\<lambda>j. Printed_point j (off + of_nat (j * 12)) (pt_timestamp (r ! j)) (pt_value (r ! j))) [0..<length r]"

definition listing :: "whisper_metadata \<Rightarrow> archive_info list \<Rightarrow> ring list \<Rightarrow> printed list" where
  "listing md as rs = Printed_header md #
     concat (map (\<lambda>i. Printed_archive i (as ! i) # list_points (offset (as ! i)) (rs ! i)) [0..<length as])"

lemma print_points_fview:
  assumes "fd_ok s fd"
  shows "n + m * 12 \<le> length c \<Longrightarrow>
   print_points P fd m i off (fview fd p n c s) =
     Inr (map (\<lambda>j. let q = point_dec (host P) (read_at (n + j * 12) 12 c)
        in Printed_point (i + j) (off + of_nat (j * 12)) (pt_timestamp q) (pt_value q)) [0..<m],
      fview fd p (n + m * 12) c s)"
proof (induction m arbitrary: n i off)
  case 0
  then show ?case by (simp add: ret_def)
next
  case (Suc m)
  have rd: "whisper_read_archive_point P fd (fview fd p n c s) =
      Inr (Some (point_dec (host P) (read_at n 12 c)), fview fd p (n + 12) c s)"
    using read_archive_point_fview [OF assms, of n c] Suc.prems by simp
  define q where "q j = point_dec (host P) (read_at (n + j * 12) 12 c)" for j
  let ?f = "\<lambda>j. Printed_point (i + j) (off + of_nat (j * 12)) (pt_timestamp (q j)) (pt_value (q j))"
  have "print_points P fd m (Suc i) (off + 12) (fview fd p (n + 12) c s) =
      Inr (map (\<lambda>j. ?f (Suc j)) [0..<m], fview fd p (n + 12 + m * 12) c s)"
    using Suc.IH [of "n + 12" "Suc i" "off + 12"] Suc.prems by (simp add: Let_def q_def add.assoc)
  moreover have "map ?f [0..<Suc m] = ?f 0 # map (\<lambda>j. ?f (Suc j)) [0..<m]" by (rule map_upt_Suc)
  ultimately have "print_points P fd (Suc m) i off (fview fd p n c s) =
      Inr (map ?f [0..<Suc m], fview fd p (n + 12 + m * 12) c s)"
    by (simp only: print_points.simps andthen_def rd sum.case prod.case option.case ret_def) (simp add: q_def)
  then show ?case by (simp only: q_def Let_def mult_Suc add.assoc)
qed

lemma print_archives_fview:
  assumes fd: "fd_ok s fd" and w: "wsp_file (host P) md as c"
  shows "i + m = length as \<Longrightarrow> \<exists>n'. print_archives P fd m i (fview fd p n c s) =
     Inr (concat (map (\<lambda>j. Printed_archive j (as ! j) # list_points (offset (as ! j)) (rings_of (host P) as c ! j))
        [i..<length as]), fview fd p n' c s)"
proof (induction m arbitrary: i n)
  case 0
  then show ?case by (auto simp: ret_def)
next
  case (Suc m)
  let ?a = "as ! i"
  have i: "i < length as" using Suc.prems by simp
  obtain k where info: "whisper_read_archive_info P fd (int i) (fview fd p n c s) = Inr (Some ?a, fview fd p k c s)"
    using wsp_file_info [OF fd w i] by blast
  have arch: "unat (offset ?a) + unat (points ?a) * 12 \<le> length c"
    using wsp_file_archive [OF w i] by (simp add: archive_in_def)
  have pts: "print_points P fd (unat (points ?a)) 0 (offset ?a) (fview fd p (unat (offset ?a)) c s) =
      Inr (list_points (offset ?a) (rings_of (host P) as c ! i), fview fd p (unat (offset ?a) + unat (points ?a) * 12) c s)"
    unfolding print_points_fview [OF fd arch] using i by (simp add: list_points_def ring_of_nth Let_def)
  obtain n' where "print_archives P fd m (Suc i) (fview fd p (unat (offset ?a) + unat (points ?a) * 12) c s) =
     Inr (concat (map (\<lambda>j. Printed_archive j (as ! j) # list_points (offset (as ! j)) (rings_of (host P) as c ! j))
        [Suc i..<length as]), fview fd p n' c s)"
    using Suc.IH [of "Suc i"] Suc.prems by auto
  moreover have "[i..<length as] = i # [Suc i..<length as]" using i by (rule upt_conv_Cons)
  ultimately show ?case
    using info pts fd by (intro exI [of _ n']) (simp add: andthen_def posix_simps ret_def del: rings_of_nth)
qed

text \<open>Printing changes no file and leaves no descriptor open.\<close>

lemma print_file_listing:
  assumes nofault: "fs_faults s = []" and name: "filename \<noteq> []" "\<not> fs_dirs s (components filename)"
    and c: "fs_files s (components filename) = Some c" and w: "wsp_file (host P) md as c"
  obtains s' where
    "whisper_print_file P filename s = Inr (Printed_file filename # listing md as (rings_of (host P) as c), s')"
    "fs_files s' = fs_files s" "\<forall>fd. lookup_fd s' fd = lookup_fd s fd"
proof -
  let ?p = "components filename"
  obtain n t where nt: "alloc_fd (fs_fds s) \<lparr>of_path = ?p, of_pos = 0\<rparr> = (n, t)" by fastforce
  note op = open_existing [OF nofault name c nt]
  let ?s = "s\<lparr>fs_fds := t\<rparr>"
  have md: "metadata_dec (host P) (read_at 0 16 c) = md" "16 \<le> length c" using w by (simp_all add: wsp_file_def)
  obtain n' where arch: "print_archives P (int n) (length as) 0 (fview (int n) ?p 16 c ?s) =
     Inr (concat (map (\<lambda>j. Printed_archive j (as ! j) # list_points (offset (as ! j)) (rings_of (host P) as c ! j))
        [0..<length as]), fview (int n) ?p n' c ?s)"
    using print_archives_fview [OF op(2) w, of 0 "length as"] by auto
  let ?e = "?s\<lparr>fs_files := (fs_files s)(?p \<mapsto> c), fs_fds := t[n := None]\<rparr>"
  have "whisper_print_file P filename s = Inr (Printed_file filename # listing md as (rings_of (host P) as c), ?e)"
    using op md arch wsp_file_count(2) [OF w]
    by (simp add: whisper_print_file_def andthen_def posix_simps ret_def listing_def del: rings_of_nth)
  moreover have "fs_files ?e = fs_files s" using c by (simp add: fun_upd_idem)
  moreover have "lookup_fd ?e fd = lookup_fd s fd" for fd by (rule lookup_fd_closed [OF nt]) simp
  ultimately show ?thesis using that by blast
qed

end
