(* ===== verification/Whisper_Properties.thy ===== *)
theory Whisper_Properties
  imports Whisper_Sample Whisper_Print
begin

text \<open>
  The properties of the storage engine: what the operations of \<open>whisper.c\<close> do to the
  files, stated on the definitions that model them, each with a concrete case where
  its hypotheses hold.
\<close>

section \<open>Writing a value\<close>

text \<open>C1: for a metric whose file exists and is well formed, when no system call fails and the name fits its
  buffers (\<open>metric_ready\<close>), \<open>whisper_write_value\<close> succeeds, changes no file but this one, leaves no
  descriptor open, counts the points it wrote, and the rings of the file are those of the
  abstract update: the aligned point in the first archive, and the propagated points in the
  next ones. The hypothesis \<open>update_ready\<close> leaves out the updates that the code does not get
  right: a window that is propagated must not go over the end of its ring from the slot
  where the code looks for it, its reads must not overrun their buffer, and distances in
  bytes must fit 32 bits.\<close>

theorem write_value_refines:
  assumes "metric_ready P cf name s" "allocator_ok P"
    and "fs_files s (metric_path cf name) = Some c" "\<not> fs_dirs s (metric_path cf name)"
    and "wsp_file (host P) md as c"
    and "update_ready md as ts v (rings_of (host P) as c)"
    and "update_rings md as ts v (rings_of (host P) as c) = (rs, k)"
  shows "\<exists>c' s'. whisper_write_value P cf name ts v s = Inr (0, s') \<and>
    fs_files s' = (fs_files s)(metric_path cf name \<mapsto> c') \<and> fs_dirs s' = fs_dirs s \<and>
    (\<forall>fd. lookup_fd s' fd = lookup_fd s fd) \<and> monitoring_points s' = monitoring_points s + k \<and>
    wsp_file (host P) md as c' \<and> rings_of (host P) as c' = rs"
  by (rule write_value_existing [OF assms]) (auto simp: stored_def)

theorem write_value_refines_witness:
  "\<exists>c' s'. whisper_write_value sample_platform sample_conf ''a.b'' 45 (double_of_nat 4) sample_filled = Inr (0, s') \<and>
    fs_files s' = (fs_files sample_filled)(metric_path sample_conf ''a.b'' \<mapsto> c') \<and>
    fs_dirs s' = fs_dirs sample_filled \<and>
    (\<forall>fd. lookup_fd s' fd = lookup_fd sample_filled fd) \<and>
    monitoring_points s' = monitoring_points sample_filled + 2 \<and>
    wsp_file (host sample_platform) (new_metadata sample_agg sample_rets) (layout sample_rets) c' \<and>
    rings_of (host sample_platform) (layout sample_rets) c' =
      [(empty_ring 60)[0 := \<lparr>pt_timestamp = 30, pt_value = double_of_nat 3\<rparr>,
          Suc 0 := \<lparr>pt_timestamp = 40, pt_value = double_of_nat 4\<rparr>],
       (empty_ring 60)[0 := \<lparr>pt_timestamp = 40, pt_value = double_of_nat 7\<rparr>]]"
  by (rule write_value_refines [OF filled_ready sample_alloc filled_files filled_wsp(1)], unfold filled_wsp(2))
    (rule filled_update, simp only: filled_update filled_sum)

text \<open>The first point of a new file is not propagated unless it is due in the second archive.\<close>

lemma new_file_ready:
  assumes "\<forall>r\<in>set (r0 # rets). nb_points r \<noteq> 0"
    and "rets \<noteq> [] \<longrightarrow> (ts - ts mod time_per_point r0) mod time_per_point (hd rets) \<noteq> 0"
  shows "update_ready md (layout (r0 # rets)) ts v (map (\<lambda>r. empty_ring (unat (nb_points r))) (r0 # rets))"
proof -
  have first: "ring_first (empty_ring (unat (nb_points r0))) = 0"
    using assms(1) by (simp add: ring_first_empty unat_gt_0)
  have up: "[0..<Suc n] = 0 # [Suc 0..<Suc n]" for n by (simp add: upt_rec)
  have up2: "[Suc 0..<Suc (Suc n)] = Suc 0 # [Suc (Suc 0)..<Suc (Suc n)]" for n by (simp add: upt_rec)
  show ?thesis
  proof (cases rets)
    case Nil
    then show ?thesis using first by (simp add: layout_def distance_fits_def)
  next
    case (Cons r1 rest)
    then show ?thesis
      using first assms(2) by (simp only: layout_def length_Cons up up2 list.map) (simp add: distance_fits_def align_def)
  qed
qed

text \<open>C4: for a metric without a file, for which the configuration has retentions and an aggregation, when no
  system call fails and the name fits its buffers, \<open>whisper_write_value\<close> makes the directories
  and a file with the retentions and the aggregation that the configuration selects,
  stores the point in the first archive, and leaves no descriptor open. As for a
  file that exists, \<open>update_ready\<close> leaves out first points whose propagation reads a window that goes over the
  end of its ring from the slot where the code looks for it, overruns its buffer, or has a distance
  that does not fit; it holds when the timestamp is not due in the second archive.\<close>

theorem write_value_creates:
  assumes "metric_ready P cf name s" "allocator_ok P"
    and "fs_files s (metric_path cf name) = None" "\<not> fs_dirs s (metric_path cf name)"
    and "rets = whisper_find_retention P name (schema cf)" "retentions_ok rets"
    and "\<forall>r\<in>set rets. nb_points r \<noteq> 0"
    and "whisper_find_aggregation P name (aggregation cf) = Some agg"
    and "rings = map (\<lambda>r. empty_ring (unat (nb_points r))) rets"
    and "update_ready (new_metadata agg rets) (layout rets) ts v rings"
    and "update_rings (new_metadata agg rets) (layout rets) ts v rings = (rs, k)"
  shows "\<exists>c' s'. whisper_write_value P cf name ts v s = Inr (0, s') \<and>
    fs_files s' = (fs_files s)(metric_path cf name \<mapsto> c') \<and> fs_dirs s' (butlast (metric_path cf name)) \<and>
    (\<forall>fd. lookup_fd s' fd = lookup_fd s fd) \<and> length c' = file_size rets \<and>
    wsp_file (host P) (new_metadata agg rets) (layout rets) c' \<and> rings_of (host P) (layout rets) c' = rs"
  by (rule write_value_new [OF assms]) (auto simp: stored_def)

theorem write_value_creates_witness:
  "\<exists>c' s'. whisper_write_value sample_platform minute_conf ''a.b'' 150 7 sample_state = Inr (0, s') \<and>
    fs_files s' = (fs_files sample_state)(metric_path minute_conf ''a.b'' \<mapsto> c') \<and>
    fs_dirs s' (butlast (metric_path minute_conf ''a.b'')) \<and>
    (\<forall>fd. lookup_fd s' fd = lookup_fd sample_state fd) \<and> length c' = file_size minute_rets \<and>
    wsp_file (host sample_platform) (new_metadata minute_agg minute_rets) (layout minute_rets) c' \<and>
    rings_of (host sample_platform) (layout minute_rets) c' =
      [(empty_ring 60)[0 := \<lparr>pt_timestamp = 120, pt_value = 7\<rparr>], empty_ring 60]"
proof (rule write_value_creates [OF minute_ready(2) sample_alloc _ _ _ minute_rets_ok minute_found(2) refl])
  show "fs_files sample_state (metric_path minute_conf ''a.b'') = None"
    "\<not> fs_dirs sample_state (metric_path minute_conf ''a.b'')"
    by (simp_all add: minute_ready(1) sample_state_def)
  show "minute_rets = whisper_find_retention sample_platform ''a.b'' (schema minute_conf)"
    by (simp add: minute_found)
  have rings: "map (\<lambda>r. empty_ring (unat (nb_points r))) minute_rets = [empty_ring 60, empty_ring 60]"
    by (simp add: minute_rets_def minute_points)
  show "update_ready (new_metadata minute_agg minute_rets) (layout minute_rets) 150 7
      (map (\<lambda>r. empty_ring (unat (nb_points r))) minute_rets)"
    unfolding rings by (rule minute_update)
  show "update_rings (new_metadata minute_agg minute_rets) (layout minute_rets) 150 7
      (map (\<lambda>r. empty_ring (unat (nb_points r))) minute_rets) =
      ([(empty_ring 60)[0 := \<lparr>pt_timestamp = 120, pt_value = 7\<rparr>], empty_ring 60], 1)"
    unfolding rings by (rule minute_update)
qed

text \<open>C36: a metric without a file, that an aggregation but no schema matches, gets a file that holds only
  the header, for no archives, and the same call then divides by zero. It does so again in
  every later write to such a file, as after a restart.\<close>

theorem write_value_without_schema:
  assumes "metric_ready P cf name s"
    and "fs_files s (metric_path cf name) = None" "\<not> fs_dirs s (metric_path cf name)"
    and "\<forall>pr\<in>set (schema cf). whisper_pattern_match P (str_pattern pr) name = 1"
    and "whisper_find_aggregation P name (aggregation cf) = Some agg"
  shows "(\<exists>fd s' c. whisper_create_file P cf name s = Inr (fd, s') \<and>
      fs_files s' = (fs_files s)(metric_path cf name \<mapsto> c) \<and> length c = 16 \<and>
      md_archive_count (metadata_dec (host P) (read_at 0 16 c)) = 0) \<and>
    whisper_write_value P cf name ts v s = Inl DivByZero \<and>
    (\<forall>s' c. metric_ready P cf name s' \<longrightarrow> fs_files s' (metric_path cf name) = Some c \<longrightarrow>
      \<not> fs_dirs s' (metric_path cf name) \<longrightarrow> length c = 16 \<longrightarrow>
      whisper_write_value P cf name ts v s' = Inl DivByZero)"
proof (intro conjI allI impI)
  have rets: "whisper_find_retention P name (schema cf) = []"
    using assms(4) retention_search.select_none by blast
  have none: "md_archive_count (metadata_dec (host P) (read_at 0 16 (file_image (host P) agg []))) = 0"
    by (simp add: read_new_metadata new_metadata_def)
  show "\<exists>fd s' c. whisper_create_file P cf name s = Inr (fd, s') \<and>
      fs_files s' = (fs_files s)(metric_path cf name \<mapsto> c) \<and> length c = 16 \<and>
      md_archive_count (metadata_dec (host P) (read_at 0 16 c)) = 0"
    by (rule create_file_no_schema [OF assms(1-3) rets assms(5)])
      (intro exI conjI, assumption, simp, assumption, rule none)
  show "whisper_write_value P cf name ts v s = Inl DivByZero" by (rule write_value_no_schema [OF assms(1-3) rets assms(5)])
qed (rule write_value_no_archive)

theorem write_value_without_schema_witness:
  "(\<exists>fd s' c. whisper_create_file sample_platform (sample_conf\<lparr>schema := []\<rparr>) ''a.b'' sample_state = Inr (fd, s') \<and>
      fs_files s' = [[''s'', ''a'', ''b.wsp''] \<mapsto> c] \<and> length c = 16) \<and>
    whisper_write_value sample_platform (sample_conf\<lparr>schema := []\<rparr>) ''a.b'' 35 7 sample_state = Inl DivByZero"
proof -
  have cf: "metric_ready sample_platform (sample_conf\<lparr>schema := []\<rparr>) ''a.b'' sample_state =
      metric_ready sample_platform sample_conf ''a.b'' sample_state"
    "metric_path (sample_conf\<lparr>schema := []\<rparr>) ''a.b'' = metric_path sample_conf ''a.b''"
    by (simp_all add: metric_ready_def metric_path_def)
  have ready: "metric_ready sample_platform (sample_conf\<lparr>schema := []\<rparr>) ''a.b'' sample_state"
    using cf(1) sample_ready(1) by simp
  have new: "fs_files sample_state (metric_path (sample_conf\<lparr>schema := []\<rparr>) ''a.b'') = None"
    "\<not> fs_dirs sample_state (metric_path (sample_conf\<lparr>schema := []\<rparr>) ''a.b'')"
    unfolding cf(2) by (simp_all add: sample_path sample_state_def)
  have agg: "whisper_find_aggregation sample_platform ''a.b'' (aggregation (sample_conf\<lparr>schema := []\<rparr>)) = Some sample_agg"
    using sample_found(2) by simp
  have files: "fs_files sample_state = Map.empty" by (simp add: sample_state_def)
  show ?thesis
    using write_value_without_schema [OF ready new _ agg, of 35 7]
    unfolding cf(2) sample_path files by simp blast
qed

section \<open>The file of a metric\<close>

text \<open>C25: a new file holds a header that decodes to the selected aggregation, the number of
  archives and the longest retention, archive headers that decode to the reference
  layout, and empty archives.\<close>

theorem create_file_content:
  assumes "metric_ready P cf name s"
    and "fs_files s (metric_path cf name) = None" "\<not> fs_dirs s (metric_path cf name)"
    and "rets = whisper_find_retention P name (schema cf)" "retentions_ok rets"
    and "\<forall>r\<in>set rets. nb_points r \<noteq> 0"
    and "whisper_find_aggregation P name (aggregation cf) = Some agg"
  shows "\<exists>fd s' c. whisper_create_file P cf name s = Inr (fd, s') \<and> 0 \<le> fd \<and>
    fs_files s' = (fs_files s)(metric_path cf name \<mapsto> c) \<and> length c = file_size rets \<and>
    metadata_dec (host P) (read_at 0 16 c) = new_metadata agg rets \<and>
    (\<forall>i<length rets. info_dec (host P) (read_at (16 + i * 12) 12 c) = layout rets ! i) \<and>
    rings_of (host P) (layout rets) c = map (\<lambda>r. empty_ring (unat (nb_points r))) rets"
proof -
  have tpp: "\<forall>r\<in>set (whisper_find_retention P name (schema cf)). time_per_point r \<noteq> 0"
    using assms(4,5) by (simp add: retentions_ok_def)
  let ?c = "file_image (host P) agg rets"
  obtain n t s1 where cr: "whisper_create_file P cf name s =
      Inr (int n, fview (int n) (metric_path cf name) (length ?c) ?c (s1\<lparr>fs_fds := t\<rparr>))"
    and ds: "dirs_added s ({components (storage_dir cf)}
        \<union> dirs_between (components (storage_dir cf)) (tokens ''.'' name)) s1"
    by (rule create_file_ready [OF assms(1-3) tpp assms(7)]) (use assms(4) in \<open>auto simp: Let_def\<close>)
  show ?thesis
    using cr dirs_added_simps(1) [OF ds] length_file_image [OF assms(5)] read_new_metadata read_new_info
      new_file_wsp(2) [OF assms(5,6)]
    by (intro exI conjI) auto
qed

theorem create_file_content_witness:
  "\<exists>fd s' c. whisper_create_file sample_platform sample_conf ''a.b'' sample_state = Inr (fd, s') \<and> 0 \<le> fd \<and>
    fs_files s' = (fs_files sample_state)(metric_path sample_conf ''a.b'' \<mapsto> c) \<and> length c = file_size sample_rets \<and>
    metadata_dec (host sample_platform) (read_at 0 16 c) = new_metadata sample_agg sample_rets \<and>
    (\<forall>i<length sample_rets. info_dec (host sample_platform) (read_at (16 + i * 12) 12 c) = layout sample_rets ! i) \<and>
    rings_of (host sample_platform) (layout sample_rets) c = map (\<lambda>r. empty_ring (unat (nb_points r))) sample_rets"
  by (rule create_file_content [OF sample_ready(1) _ _ _ sample_rets_ok sample_found(2)])
    (simp_all add: sample_path sample_state_def sample_found)

text \<open>C26: the offsets of the archives, computed in 32 bits, are the natural ones: the first
  archive follows the headers, each next one follows the end of the one before, and the
  last one ends with the file.\<close>

theorem archive_offsets:
  assumes "retentions_ok rets" "i < length rets"
  shows "\<exists>off. whisper_get_archive_offset rets i = Inr off \<and>
    unat off = 16 + length rets * 12 + (\<Sum>r\<leftarrow>take i rets. unat (nb_points r) * 12) \<and>
    unat off + unat (nb_points (rets ! i)) * 12 \<le> file_size rets \<and>
    (\<forall>j. i < j \<longrightarrow> j < length rets \<longrightarrow> (\<exists>off'. whisper_get_archive_offset rets j = Inr off' \<and>
       unat off + unat (nb_points (rets ! i)) * 12 \<le> unat off'))"
proof -
  have tpp: "\<forall>r\<in>set rets. time_per_point r \<noteq> 0" using assms(1) by (simp add: retentions_ok_def)
  have "unat (archive_start rets (length rets)) = file_size rets"
    using assms(1) by (simp add: unat_archive_start file_size_def)
  then have "unat (archive_start rets i) + unat (nb_points (rets ! i)) * 12 \<le> file_size rets"
    using layout_end [OF assms(1,2)] by simp
  moreover have "unat (archive_start rets i) = 16 + length rets * 12 + (\<Sum>r\<leftarrow>take i rets. unat (nb_points r) * 12)"
    using assms by (simp add: unat_archive_start)
  moreover have "unat (archive_start rets i) + unat (nb_points (rets ! i)) * 12 \<le> unat (archive_start rets j)"
    if "i < j" "j < length rets" for j
    using layout_end [OF assms(1) that(1)] that(2) by simp
  ultimately show ?thesis
    using assms(2) tpp by (intro exI [of _ "archive_start rets i"]) (simp add: get_archive_offset_spec)
qed

theorem archive_offsets_witness:
  "\<exists>off. whisper_get_archive_offset sample_rets 0 = Inr off \<and>
    unat off = 16 + length sample_rets * 12 + (\<Sum>r\<leftarrow>take 0 sample_rets. unat (nb_points r) * 12) \<and>
    unat off + unat (nb_points (sample_rets ! 0)) * 12 \<le> file_size sample_rets \<and>
    (\<forall>j. 0 < j \<longrightarrow> j < length sample_rets \<longrightarrow> (\<exists>off'. whisper_get_archive_offset sample_rets j = Inr off' \<and>
       unat off + unat (nb_points (sample_rets ! 0)) * 12 \<le> unat off'))"
  by (rule archive_offsets [OF sample_rets_ok(1)]) (simp add: sample_rets_def)

text \<open>C27: the structures are written most significant byte first on either kind of host, so that a
  file does not depend on the machine that wrote it; what is written as a point, an
  archive header or a file header is read back, and a point in one slot does not touch the
  other slots.\<close>

theorem file_codec:
  "metadata_mem ho (hton_whisper_metadata ho md) = metadata_mem BigEndian (hton_whisper_metadata BigEndian md) \<and>
   archive_info_mem ho (hton_archive_info ho a) = archive_info_mem BigEndian (hton_archive_info BigEndian a) \<and>
   archive_point_mem ho (hton_archive_point ho p) =
     rev (store_le 4 (pt_timestamp p)) @ rev (store_le 8 (pt_value p)) \<and>
   (\<forall>c. point_dec ho (read_at n 12 (write_at n (archive_point_mem ho (hton_archive_point ho p)) c)) = p) \<and>
   (\<forall>i j c. i \<noteq> j \<longrightarrow> n + j * 12 + 12 \<le> length c \<longrightarrow>
     read_at (n + j * 12) 12 (write_at (n + i * 12) (archive_point_mem ho (hton_archive_point ho p)) c) =
     read_at (n + j * 12) 12 c) \<and>
   info_dec ho (archive_info_mem ho (hton_archive_info ho a)) = a \<and>
   metadata_dec ho (metadata_mem ho (hton_whisper_metadata ho md)) = md"
proof -
  have bytes: "metadata_mem ho (hton_whisper_metadata ho md) = metadata_mem BigEndian (hton_whisper_metadata BigEndian md) \<and>
    archive_info_mem ho (hton_archive_info ho a) = archive_info_mem BigEndian (hton_archive_info BigEndian a) \<and>
    archive_point_mem ho (hton_archive_point ho p) =
      rev (store_le 4 (pt_timestamp p)) @ rev (store_le 8 (pt_value p))"
    by (cases ho) (simp_all add: mem_defs order_defs bytes_simps)
  then show ?thesis
    using point_codec.read_back [of ho n p] point_codec.other_slot [of _ _ n _ ho p]
      info_codec.dec_enc [of ho a] md_codec.dec_enc [of ho md]
    by (simp add: point_enc_def info_enc_def metadata_enc_def)
qed

theorem file_codec_witness:
  "read_at 12 12 (write_at 0 (archive_point_mem BigEndian (hton_archive_point BigEndian
       \<lparr>pt_timestamp = 5, pt_value = 6\<rparr>)) (replicate 24 1)) = replicate 12 1"
proof -
  let ?p = "\<lparr>pt_timestamp = 5, pt_value = 6\<rparr> :: archive_point"
  have "\<forall>i j c. i \<noteq> j \<longrightarrow> 0 + j * 12 + 12 \<le> length c \<longrightarrow>
     read_at (0 + j * 12) 12 (write_at (0 + i * 12) (archive_point_mem BigEndian (hton_archive_point BigEndian ?p)) c) =
     read_at (0 + j * 12) 12 c"
    using file_codec [of BigEndian _ _ ?p 0] by blast
  from this [rule_format, of 0 1 "replicate 24 1"] show ?thesis by (simp add: read_at_replicate)
qed

text \<open>C28: the file name of a metric is the storage directory, a component for each part of the
  name between dots, and the extension; names that do not fit the buffers stop the
  process.\<close>

theorem metric_filename:
  "whisper_metric_filename P cf name =
     (if usable P 4096 < length (storage_dir cf) + 1 then Inl HeapOverflow
      else if 100 \<le> length name then Inl OutOfBounds
      else let ts = tokens ''.'' name; f = storage_dir cf @ concat (map (\<lambda>t. CHR ''/'' # t) ts)
           in if ts = [] then Inr []
              else if usable P 4096 < length f + 5 then Inl HeapOverflow
              else Inr (f @ ''.wsp''))"
  unfolding metric_filename_spec below_def by (rule refl)

text \<open>The retentions of a metric are those of the first pattern that matches its name.\<close>

theorem retention_first_match:
  assumes "\<forall>pr\<in>set before. whisper_pattern_match P (str_pattern pr) name = 1"
    and "whisper_pattern_match P (str_pattern pr) name = 0"
  shows "whisper_find_retention P name (before @ pr # rest) = retention_list pr"
  using assms by (rule retention_search.select_first)

theorem retention_first_match_witness:
  "whisper_find_retention sample_platform ''a.b''
     ([\<lparr>str_pattern = ''none'', str_retention = ''1:2'', retention_list = []\<rparr>]
      @ \<lparr>str_pattern = ''.*'', str_retention = ''10:600'', retention_list = sample_rets\<rparr> # []) = sample_rets"
  by (subst retention_first_match) (simp_all add: whisper_pattern_match_def sample_platform_def)

text \<open>The aggregation of a metric is the first rule whose pattern matches its name, and there is
  none when a pattern before it does not compile.\<close>

lemma aggregation_first_match:
  assumes "\<forall>a\<in>set before. whisper_pattern_match P (agg_pattern a) name = 1"
  shows "(whisper_pattern_match P (agg_pattern a) name = 0 \<longrightarrow>
      whisper_find_aggregation P name (before @ a # rest) = Some a) \<and>
    (\<not> pcre_compiles P (agg_pattern a) \<longrightarrow> whisper_find_aggregation P name (before @ a # rest) = None)"
  using aggregation_search.select_first [OF assms] aggregation_search.select_error [OF assms]
  by (simp_all add: whisper_pattern_match_def)

section \<open>The ring of an archive\<close>

text \<open>C22: \<open>whisper_write_point\<close> on an open well formed file replaces one slot of the archive and keeps the headers and every other
  archive. The slot is the first one in an empty archive, and else at the distance of
  the timestamps as an unsigned difference of 32 bits: for a point that is not before the one in
  the first slot this is their plain distance, and for an older one the difference wraps around. The distance in bytes has
  to fit 32 bits, as it does for any timestamps when there are at least 12 seconds to a point.\<close>

theorem write_point_refines:
  assumes "fd_ok s fd" "wsp_file (host P) md as c" "i < length as" "r = rings_of (host P) as c ! i"
    and "distance_fits (as ! i) (ring_first r) (unat (pt_timestamp pt))"
  shows "\<exists>m c' k. whisper_write_point P fd (as ! i) (pt_timestamp pt) (hton_archive_point (host P) pt)
      (fview fd p n c s) = Inr (0, fview fd p m c' (s\<lparr>monitoring_points := monitoring_points s + 1\<rparr>)) \<and>
    wsp_file (host P) md as c' \<and> length c' = length c \<and>
    rings_of (host P) as c' = (rings_of (host P) as c)[i := r[k := pt]] \<and> k < length r \<and>
    (ring_first r = 0 \<longrightarrow> k = 0) \<and>
    (0 < ring_first r \<longrightarrow> ring_first r \<le> unat (pt_timestamp pt) \<longrightarrow>
      k = (unat (pt_timestamp pt) - ring_first r) div unat (seconds_per_point (as ! i)) mod length r) \<and>
    (unat (pt_timestamp pt) < ring_first r \<longrightarrow>
      k = (2 ^ 32 - (ring_first r - unat (pt_timestamp pt))) div unat (seconds_per_point (as ! i)) mod length r)"
proof -
  let ?t = "unat (pt_timestamp pt)" and ?spp = "unat (seconds_per_point (as ! i))"
  have "archive_in (as ! i) c" using assms(2,3) by (rule wsp_file_archive)
  then have "0 < length r" using assms(3,4) archive_in_size(2) by simp
  then have ne: "r \<noteq> []" by simp
  have "ring_distance (ring_first r) ?t = 2 ^ 32 - (ring_first r - ?t)" if "?t < ring_first r"
    using that unat_u32_less [of "pt_timestamp (r ! 0)"] by (simp add: ring_distance_def ring_first_def)
  then have slot: "ring_slot ?spp r ?t < length r" "ring_first r = 0 \<longrightarrow> ring_slot ?spp r ?t = 0"
    "0 < ring_first r \<longrightarrow> ring_first r \<le> ?t \<longrightarrow> ring_slot ?spp r ?t = (?t - ring_first r) div ?spp mod length r"
    "?t < ring_first r \<longrightarrow> ring_slot ?spp r ?t = (2 ^ 32 - (ring_first r - ?t)) div ?spp mod length r"
    using ring_slot_less [OF ne] by (auto simp: ring_slot_def ring_distance_later [OF _ unat_u32_less])
  obtain m c' where "whisper_write_point P fd (as ! i) (pt_timestamp pt) (hton_archive_point (host P) pt)
      (fview fd p n c s) = Inr (0, fview fd p m c' (s\<lparr>monitoring_points := monitoring_points s + 1\<rparr>))"
    "wsp_file (host P) md as c'" "length c' = length c"
    "rings_of (host P) as c' = (rings_of (host P) as c)[i := r[ring_slot ?spp r ?t := pt]]"
    using write_point_updates [OF assms(1-3), of pt p n] assms(4,5) unfolding updates_def ring_write_def by blast
  with slot show ?thesis by (intro exI [of _ m] exI [of _ c'] exI [of _ "ring_slot ?spp r ?t"]) simp
qed

theorem write_point_refines_witness:
  "\<exists>m c'. whisper_write_point sample_platform 0 (layout sample_rets ! 0) 1700000000
      (hton_archive_point (host sample_platform) \<lparr>pt_timestamp = 1700000000, pt_value = 7\<rparr>)
      (fview 0 [''f''] 0 filled_file (sample_state\<lparr>fs_fds := [None]\<rparr>)) =
      Inr (0, fview 0 [''f''] m c' (sample_state\<lparr>fs_fds := [None], monitoring_points := 1\<rparr>)) \<and>
    wsp_file (host sample_platform) (new_metadata sample_agg sample_rets) (layout sample_rets) c' \<and>
    length c' = length filled_file \<and>
    rings_of (host sample_platform) (layout sample_rets) c' =
      [(empty_ring 60)[0 := \<lparr>pt_timestamp = 30, pt_value = double_of_nat 3\<rparr>, 17 := \<lparr>pt_timestamp = 1700000000, pt_value = 7\<rparr>], empty_ring 60]"
proof -
  let ?r = "(empty_ring 60)[0 := \<lparr>pt_timestamp = 30, pt_value = double_of_nat 3\<rparr>]"
  have fd: "fd_ok (sample_state\<lparr>fs_fds := [None]\<rparr>) 0" by (simp add: fd_ok_def sample_state_def)
  have i: "0 < length (layout sample_rets)" by (simp add: sample_layout)
  have r: "?r = rings_of (host sample_platform) (layout sample_rets) filled_file ! 0" by (simp only: filled_wsp(2) nth_Cons_0)
  have first: "ring_first ?r = 30" by (simp add: ring_first_def empty_ring_def)
  have len: "length ?r = 60" by (simp add: empty_ring_def)
  have spp: "seconds_per_point (layout sample_rets ! 0) = 10" by (simp add: sample_layout)
  have fit: "distance_fits (layout sample_rets ! 0) (ring_first ?r) (unat (pt_timestamp \<lparr>pt_timestamp = 1700000000, pt_value = 7\<rparr>))"
    unfolding first by (simp add: distance_fits_def ring_distance_def spp)
  show ?thesis
    using write_point_refines [OF fd filled_wsp(1) i r fit, of "[''f'']" 0]
    unfolding first len spp filled_wsp(2) by (auto simp: sample_state_def)
qed

text \<open>The points of one archive, written one after the other.\<close>

fun write_each :: "platform \<Rightarrow> int \<Rightarrow> archive_info \<Rightarrow> archive_point list \<Rightarrow> ('a wsp_state_scheme, unit) prog" where
  "write_each P fd a [] = ret ()"
| "write_each P fd a (p # ps) =
     andthen (whisper_write_point P fd a (pt_timestamp p) (hton_archive_point (host P) p))
       (\<lambda>_. write_each P fd a ps)"

text \<open>
  The first slot never goes back in time, so the distances from it are at most those from the
  first slot at the start.
\<close>

lemma accepts_fits:
  assumes "ring_accepts (unat (seconds_per_point a)) r (unat (t :: u32))" "b \<le> ring_first r"
    and "(unat t - b) div unat (seconds_per_point a) * 12 < 2 ^ 32"
  shows "distance_fits a (ring_first r) (unat t)"
proof (cases "ring_first r = 0")
  case False
  then have le: "ring_first r \<le> unat t" using assms(1) by (simp add: ring_accepts_def)
  have "(unat t - ring_first r) div unat (seconds_per_point a) * 12 \<le> (unat t - b) div unat (seconds_per_point a) * 12"
    using assms(2) by (intro mult_le_mono1 div_le_mono) simp
  also note assms(3)
  finally show ?thesis unfolding distance_fits_def ring_distance_later [OF le unat_u32_less] by blast
qed (simp add: distance_fits_def)

lemma later_distance_fits:
  assumes "distance_fits a b (unat (t :: u32))" "0 < b"
  shows "(unat t - b) div unat (seconds_per_point a) * 12 < 2 ^ 32"
proof (cases "b \<le> unat t")
  case True
  then show ?thesis using assms unfolding distance_fits_def ring_distance_later [OF True unat_u32_less] by simp
qed simp

lemma ring_first_write:
  assumes "ring_accepts spp r (unat (pt_timestamp p))" "r \<noteq> []" "0 < b" "b \<le> ring_first r"
  shows "b \<le> ring_first (ring_write spp r p)"
  using assms by (cases "ring_slot spp r (unat (pt_timestamp p)) = 0")
    (simp_all add: ring_accepts_def ring_write_def ring_first_def)

lemma write_each_rings:
  "fd_ok s fd \<Longrightarrow> archive_in a c \<Longrightarrow> accepted (unat (seconds_per_point a)) (ring_of (host P) a c) ps \<Longrightarrow>
   0 < b \<Longrightarrow> b \<le> ring_first (ring_of (host P) a c) \<Longrightarrow>
   \<forall>p\<in>set ps. (unat (pt_timestamp p) - b) div unat (seconds_per_point a) * 12 < 2 ^ 32 \<Longrightarrow>
   \<exists>m c'. write_each P fd a ps (fview fd f n c s) =
       Inr ((), fview fd f m c' (s\<lparr>monitoring_points := monitoring_points s + of_nat (length ps)\<rparr>)) \<and>
     archive_in a c' \<and> ring_of (host P) a c' = foldl (ring_write (unat (seconds_per_point a))) (ring_of (host P) a c) ps"
proof (induction ps arbitrary: n c s)
  case Nil
  then show ?case by (intro exI [of _ n] exI [of _ c]) (simp add: ret_def)
next
  case (Cons p ps)
  let ?t = "unat (pt_timestamp p)" and ?w = "slot_offset (host P) a c (unat (pt_timestamp p))"
  let ?c = "write_at ?w (point_enc (host P) p) c" and ?s = "s\<lparr>monitoring_points := monitoring_points s + 1\<rparr>"
  have acc: "ring_accepts (unat (seconds_per_point a)) (ring_of (host P) a c) ?t" using Cons.prems(3) by simp
  have d: "distance_fits a (ring_first (ring_of (host P) a c)) ?t"
    using Cons.prems by (intro accepts_fits [OF acc Cons.prems(5)]) simp
  note inside = slot_offset_inside [OF Cons.prems(2), of "host P" ?t]
  have a: "archive_in a ?c" using Cons.prems(2) inside(3) by (intro archive_in_write_at) simp_all
  have "ring_slot (unat (seconds_per_point a)) (ring_of (host P) a c) ?t < unat (points a)"
    using inside(2) by (simp add: slot_offset_def)
  then have r: "ring_of (host P) a ?c = ring_write (unat (seconds_per_point a)) (ring_of (host P) a c) p"
    unfolding slot_offset_def ring_write_def by (rule ring_of_write [OF Cons.prems(2)])
  have "ring_of (host P) a c \<noteq> []" using archive_in_size(2) [OF Cons.prems(2)] by (simp flip: length_greater_0_conv)
  note first = ring_first_write [OF acc this Cons.prems(4,5)]
  have step: "write_each P fd a (p # ps) (fview fd f n c s) = write_each P fd a ps (fview fd f (?w + 12) ?c ?s)"
    using write_point_fview [OF Cons.prems(1,2) d] by (simp add: andthen_def Let_def)
  obtain m c' where "write_each P fd a ps (fview fd f (?w + 12) ?c ?s) =
      Inr ((), fview fd f m c' (?s\<lparr>monitoring_points := monitoring_points ?s + of_nat (length ps)\<rparr>))" "archive_in a c'"
    "ring_of (host P) a c' = foldl (ring_write (unat (seconds_per_point a))) (ring_of (host P) a ?c) ps"
    using Cons.IH [of ?s ?c "?w + 12"] Cons.prems a r first by auto
  then show ?case
    by (intro exI [of _ m] exI [of _ c']) (simp add: step r add.assoc del: write_each.simps)
qed

text \<open>C23: a point stays in its slot while later points, each of them less than one turn of the
  ring after it and on the grid of the ring, are written with \<open>whisper_write_point\<close>: every point
  of the retention period can be read. The points may be written in any order as long as none
  of them is before the point that is then in the first slot, and their distances from the point that was there
  before fit 32 bits in bytes, as they do for any timestamps when there are at least 12 seconds to a point.\<close>

theorem points_kept:
  assumes "fd_ok s fd" "archive_in a c" "ring_inv (unat (seconds_per_point a)) (ring_of (host P) a c)"
    and "accepted (unat (seconds_per_point a)) (ring_of (host P) a c) ps"
    and "\<forall>p\<in>set ps. distance_fits a (ring_first (ring_of (host P) a c)) (unat (pt_timestamp p))"
    and "i < unat (points a)" "ring_of (host P) a c ! i = q" "pt_timestamp q \<noteq> 0"
    and "\<forall>p\<in>set ps. unat (pt_timestamp q) < unat (pt_timestamp p) \<and>
      unat (pt_timestamp p) < unat (pt_timestamp q) + unat (points a) * unat (seconds_per_point a)"
  shows "\<exists>m c'. write_each P fd a ps (fview fd f n c s) =
      Inr ((), fview fd f m c' (s\<lparr>monitoring_points := monitoring_points s + of_nat (length ps)\<rparr>)) \<and>
    ring_of (host P) a c' ! i = q \<and> ring_inv (unat (seconds_per_point a)) (ring_of (host P) a c')"
proof -
  let ?r = "ring_of (host P) a c"
  note sz = archive_in_size [OF assms(2)]
  have ne: "?r \<noteq> []" using sz(2) by (simp flip: length_greater_0_conv)
  have first: "0 < ring_first ?r" using assms(3,6-8) unfolding ring_inv_def by auto
  have "\<forall>p\<in>set ps. (unat (pt_timestamp p) - ring_first ?r) div unat (seconds_per_point a) * 12 < 2 ^ 32"
    using assms(5) later_distance_fits [OF _ first] by blast
  then obtain m c' where run: "write_each P fd a ps (fview fd f n c s) =
      Inr ((), fview fd f m c' (s\<lparr>monitoring_points := monitoring_points s + of_nat (length ps)\<rparr>))"
    "ring_of (host P) a c' = foldl (ring_write (unat (seconds_per_point a))) ?r ps"
    using write_each_rings [OF assms(1,2,4) first order_refl, of f n] by blast
  have "ring_of (host P) a c' ! i = q"
    unfolding run(2) using assms(6-9)
    by (intro ring_run_keeps [OF assms(3) ne sz(5) assms(4)]) simp_all
  moreover have "ring_inv (unat (seconds_per_point a)) (ring_of (host P) a c')"
    unfolding run(2) by (rule ring_run_inv [OF assms(3) ne sz(5) assms(4)])
  ultimately show ?thesis using run(1) by blast
qed

definition sample_written :: "byte list" where
  "sample_written = write_at 40 (point_enc LittleEndian \<lparr>pt_timestamp = 1700000000, pt_value = 7\<rparr>) sample_file"

lemma sample_archive: "archive_in \<lparr>offset = 40, seconds_per_point = 10, points = 60\<rparr> sample_file"
  by (simp add: archive_in_def sample_length)

lemma sample_written_ring:
  "archive_in \<lparr>offset = 40, seconds_per_point = 10, points = 60\<rparr> sample_written"
  "ring_of LittleEndian \<lparr>offset = 40, seconds_per_point = 10, points = 60\<rparr> sample_written =
     (empty_ring 60)[0 := \<lparr>pt_timestamp = 1700000000, pt_value = 7\<rparr>]"
  "ring_inv 10 ((empty_ring 60)[0 := \<lparr>pt_timestamp = 1700000000, pt_value = 7\<rparr>])"
proof -
  let ?a = "\<lparr>offset = 40, seconds_per_point = 10, points = 60\<rparr>"
  show "archive_in ?a sample_written" by (simp add: archive_in_def sample_written_def sample_length)
  have "ring_of LittleEndian ?a sample_file = empty_ring 60"
    using sample_wsp(2) unfolding sample_layout by (simp add: rings_of_def)
  then show "ring_of LittleEndian ?a sample_written = (empty_ring 60)[0 := \<lparr>pt_timestamp = 1700000000, pt_value = 7\<rparr>]"
    using ring_of_write [OF sample_archive, of 0 LittleEndian "\<lparr>pt_timestamp = 1700000000, pt_value = 7\<rparr>"]
    by (simp add: sample_written_def)
  have "ring_inv 10 (empty_ring 60)" by (simp add: ring_inv_def empty_ring_def)
  then have "ring_inv 10 (ring_write 10 (empty_ring 60) \<lparr>pt_timestamp = 1700000000, pt_value = 7\<rparr>)"
    by (rule ring_write_inv) (simp_all add: ring_accepts_def ring_first_empty, simp add: empty_ring_def)
  then show "ring_inv 10 ((empty_ring 60)[0 := \<lparr>pt_timestamp = 1700000000, pt_value = 7\<rparr>])"
    by (simp add: ring_write_def ring_slot_def ring_first_empty)
qed

theorem points_kept_witness:
  "\<exists>m c'. write_each sample_platform 0 \<lparr>offset = 40, seconds_per_point = 10, points = 60\<rparr>
      [\<lparr>pt_timestamp = 1700000010, pt_value = 8\<rparr>, \<lparr>pt_timestamp = 1700000590, pt_value = 9\<rparr>]
      (fview 0 [''f''] 0 sample_written (sample_state\<lparr>fs_fds := [None]\<rparr>)) =
      Inr ((), fview 0 [''f''] m c' (sample_state\<lparr>fs_fds := [None], monitoring_points := 2\<rparr>)) \<and>
    ring_of (host sample_platform) \<lparr>offset = 40, seconds_per_point = 10, points = 60\<rparr> c' ! 0
      = \<lparr>pt_timestamp = 1700000000, pt_value = 7\<rparr> \<and>
    ring_inv 10 (ring_of (host sample_platform) \<lparr>offset = 40, seconds_per_point = 10, points = 60\<rparr> c')"
proof -
  let ?a = "\<lparr>offset = 40, seconds_per_point = 10, points = 60\<rparr> :: archive_info"
  let ?ps = "[\<lparr>pt_timestamp = 1700000010, pt_value = 8\<rparr>, \<lparr>pt_timestamp = 1700000590, pt_value = 9\<rparr>] :: archive_point list"
  have r: "ring_of (host sample_platform) ?a sample_written = (empty_ring 60)[0 := \<lparr>pt_timestamp = 1700000000, pt_value = 7\<rparr>]"
    by (simp only: sample_host sample_written_ring(2))
  have first: "ring_first ((empty_ring 60)[0 := \<lparr>pt_timestamp = 1700000000, pt_value = 7\<rparr>]) = 1700000000"
    by (simp add: ring_first_def empty_ring_def)
  have acc: "accepted (unat (seconds_per_point ?a)) (ring_of (host sample_platform) ?a sample_written) ?ps"
    unfolding r by (simp add: ring_accepts_def first ring_write_def ring_slot_def ring_distance_def)
      (simp add: ring_first_def empty_ring_def)
  show ?thesis
    using points_kept [of "sample_state\<lparr>fs_fds := [None]\<rparr>" 0 ?a sample_written sample_platform ?ps 0
        "\<lparr>pt_timestamp = 1700000000, pt_value = 7\<rparr>" "[''f'']" 0] sample_written_ring(1,3) acc
    by (simp add: fd_ok_def sample_state_def r first distance_fits_def ring_distance_def) (simp add: empty_ring_def)
qed

section \<open>Propagation\<close>

text \<open>C24: for a window that does not go over the end of its ring from the slot at its 32-bit distance from the first
  one, and whose reads do not overrun the buffer, \<open>whisper_write_propagate\<close>
  writes the aggregate of the known points of the window to the next archive when their
  share reaches the files factor, and nothing otherwise; the share is 1 when all are
  known and 0 when one is missing. The distances have to fit 32 bits in bytes.\<close>

theorem propagate_window_read:
  assumes "fd_ok s fd" "allocator_ok P" "archive_in higher c"
    and "window_ready higher lower (ring_of (host P) higher c) ts"
    and "window_plain higher lower (ring_of (host P) higher c) ts"
    and "archive_in lower c" "distance_fits lower (ring_first (ring_of (host P) lower c)) (unat ts)"
    and "vals = propagated higher lower (ring_of (host P) higher c) ts"
  shows "\<exists>m. whisper_write_propagate P fd ts md higher lower (fview fd p n c s) =
       Inr (0, if float_ge (float_of_u32 (if length vals = window_len higher lower then 1 else 0))
                     (md_x_files_factor md)
         then fview fd p m (write_at (slot_offset (host P) lower c (unat ts))
                (archive_point_mem (host P) (hton_archive_point (host P) \<lparr>pt_timestamp = ts, pt_value =
                   whisper_aggregate_values vals (of_nat (length vals)) (md_aggregation_type md)\<rparr>)) c)
                (s\<lparr>monitoring_points := monitoring_points s + 1\<rparr>)
         else fview fd p m c s)"
  by (rule propagate_plain [OF assms refl, where md = md and p = p and n = n])
    (unfold known_share_def point_enc_def, blast)

theorem propagate_window_read_witness:
  "\<exists>m. whisper_write_propagate sample_platform 0 20 (new_metadata sample_agg sample_rets)
      \<lparr>offset = 40, seconds_per_point = 10, points = 60\<rparr> \<lparr>offset = 760, seconds_per_point = 20, points = 60\<rparr>
      (fview 0 [''f''] 0 sample_file (sample_state\<lparr>fs_fds := [None]\<rparr>)) =
      Inr (0, fview 0 [''f''] m (write_at 760
                (archive_point_mem LittleEndian (hton_archive_point LittleEndian \<lparr>pt_timestamp = 20, pt_value =
                   whisper_aggregate_values [] 0 (agg_code AGG_TYPE_SUM)\<rparr>)) sample_file)
                (sample_state\<lparr>fs_fds := [None], monitoring_points := 1\<rparr>))"
proof -
  let ?h = "\<lparr>offset = 40, seconds_per_point = 10, points = 60\<rparr> :: archive_info"
  let ?l = "\<lparr>offset = 760, seconds_per_point = 20, points = 60\<rparr> :: archive_info"
  have rings: "ring_of LittleEndian ?h sample_file = empty_ring 60" "ring_of LittleEndian ?l sample_file = empty_ring 60"
    using sample_wsp(2) unfolding sample_layout by (simp_all add: rings_of_def)
  have start: "whisper_higher_archive_timestamp_start 20 ?h ?l = 10"
    by (simp add: whisper_higher_archive_timestamp_start_def)
  have len: "window_len ?h ?l = 2" by (simp add: window_len_def)
  have slot: "window_slot ?h ?l (empty_ring 60) 20 = 1"
    by (simp add: window_slot_def start ring_first_empty ring_distance_def) (simp add: empty_ring_def)
  have "[0..<2] = [0, 1 :: nat]" by (simp add: upt_rec)
  then have vals: "propagated ?h ?l (empty_ring 60) 20 = []"
    by (simp add: propagated_def known_values_def slot len start) (simp add: empty_ring_def)
  have low: "archive_in ?l sample_file" by (simp add: archive_in_def sample_length)
  have fd: "fd_ok (sample_state\<lparr>fs_fds := [None]\<rparr>) 0" by (simp add: fd_ok_def sample_state_def)
  have ready: "window_ready ?h ?l (ring_of (host sample_platform) ?h sample_file) 20"
    unfolding sample_host rings by (simp add: window_ready_def len start ring_first_empty ring_distance_def)
  have plain: "window_plain ?h ?l (ring_of (host sample_platform) ?h sample_file) 20"
    unfolding sample_host rings by (simp add: window_plain_def len slot) (simp add: empty_ring_def)
  have d: "distance_fits ?l (ring_first (ring_of (host sample_platform) ?l sample_file)) (unat 20)"
    unfolding sample_host rings by (simp add: distance_fits_def ring_first_empty)
  have off: "slot_offset LittleEndian ?l sample_file (unat 20) = 760"
    by (simp add: slot_offset_def rings ring_slot_def ring_first_empty)
  have md: "md_x_files_factor (new_metadata sample_agg sample_rets) = 0"
    "md_aggregation_type (new_metadata sample_agg sample_rets) = agg_code AGG_TYPE_SUM"
    by (simp_all add: new_metadata_def sample_agg_def)
  have ge: "float_ge (float_of_u32 0) 0"
    by (simp add: float_ge_def float_of_u32_def float_make_def ieee_round_def float_decode_def fp_decode_def
        fnum_le_def)
  have mon: "sample_state\<lparr>fs_fds := [None], monitoring_points := monitoring_points (sample_state\<lparr>fs_fds := [None]\<rparr>) + 1\<rparr>
      = sample_state\<lparr>fs_fds := [None], monitoring_points := 1\<rparr>"
    by (simp add: sample_state_def)
  show ?thesis
    using propagate_window_read [OF fd sample_alloc sample_archive ready plain low d refl,
        where md = "new_metadata sample_agg sample_rets" and p = "[''f'']" and n = 0]
    unfolding sample_host rings vals len off md mon using ge by simp
qed

text \<open>C34: when the end of the window, reduced modulo the size of the archive without its offset,
  lies before the archive, the two reads of \<open>whisper_write_propagate\<close> together are longer
  than its buffer, and the heap is overwritten.\<close>

theorem propagate_heap_overflow:
  assumes "fd_ok s fd" "allocator_ok P" "archive_in higher c"
    and "window_ready higher lower (ring_of (host P) higher c) ts"
    and "window_end higher lower (ring_of (host P) higher c) ts \<le> unat (offset higher)"
    and "usable P (unat (points higher) * 12)
        < (unat (points higher) - window_slot higher lower (ring_of (host P) higher c) ts) * 12
          + (unat (offset higher) - window_end higher lower (ring_of (host P) higher c) ts)"
    and "unat (offset higher) + (unat (offset higher) - window_end higher lower (ring_of (host P) higher c) ts)
        \<le> length c"
  shows "whisper_write_propagate P fd ts md higher lower (fview fd p n c s) = Inl HeapOverflow"
  by (rule propagate_overflow [OF assms])

text \<open>A header and two archives of 6 points, as made for retentions \<open>10:60,20:120\<close>.\<close>

lemma short_ring:
  "ring_of ho \<lparr>offset = 40, seconds_per_point = spp, points = 6\<rparr> (replicate 184 0) = empty_ring 6"
  by (intro nth_equalityI) (simp_all add: ring_of_nth empty_ring_def read_at_replicate)

theorem propagate_heap_overflow_witness:
  "whisper_write_propagate sample_platform 0 20 (new_metadata sample_agg sample_rets)
      \<lparr>offset = 40, seconds_per_point = 10, points = 6\<rparr> \<lparr>offset = 112, seconds_per_point = 20, points = 6\<rparr>
      (fview 0 [''f''] 0 (replicate 184 0) (sample_state\<lparr>fs_fds := [None]\<rparr>)) = Inl HeapOverflow"
proof -
  let ?h = "\<lparr>offset = 40, seconds_per_point = 10, points = 6\<rparr> :: archive_info"
  let ?l = "\<lparr>offset = 112, seconds_per_point = 20, points = 6\<rparr> :: archive_info"
  have start: "whisper_higher_archive_timestamp_start 20 ?h ?l = 10"
    by (simp add: whisper_higher_archive_timestamp_start_def)
  have len: "window_len ?h ?l = 2" by (simp add: window_len_def)
  have slot: "window_slot ?h ?l (empty_ring 6) 20 = 1"
    by (simp add: window_slot_def start ring_first_empty ring_distance_def) (simp add: empty_ring_def)
  have stop: "window_end ?h ?l (empty_ring 6) 20 = 4"
    by (simp add: window_end_def slot len) (simp add: empty_ring_def)
  show ?thesis
    by (rule propagate_heap_overflow [OF _ sample_alloc])
      (simp_all add: fd_ok_def sample_state_def archive_in_def short_ring window_ready_def len slot stop start
        ring_first_empty ring_distance_def sample_platform_def glibc_usable_def)
qed

text \<open>C33: a window whose points are all in their slots, in order, and that goes over the end of its ring, is not
  found: for a files factor above 0, the code either overruns its buffer or writes nothing to the lower archive,
  although it should write the aggregate. This is so for archives of at least 12 seconds to a point, when their number of
  points does not divide the number of intervals in \<open>2 ^ 32\<close> seconds: the distance of the window from
  the first slot is negative, wraps around, and leads to another slot.\<close>

theorem complete_window_lost:
  assumes "fd_ok s fd" "allocator_ok P" "archive_in higher c"
    and "ring_inv (unat (seconds_per_point higher)) (ring_of (host P) higher c)"
    and "n = window_len higher lower" "n * 12 < 2 ^ 31" "n \<le> unat (points higher)"
    and "start = whisper_higher_archive_timestamp_start ts higher lower"
    and "0 < unat start" "unat start + n * unat (seconds_per_point higher) < 2 ^ 32"
    and "i < unat (points higher)" "unat (points higher) < i + n"
    and "\<forall>j<n. pt_timestamp (ring_of (host P) higher c ! ((i + j) mod unat (points higher)))
      = start + of_nat j * seconds_per_point higher"
    and "12 \<le> unat (seconds_per_point higher)"
    and "\<not> unat (points higher) dvd 2 ^ 32 div unat (seconds_per_point higher)"
    and "\<not> float_ge (float_of_u32 0) (md_x_files_factor md)"
  shows "whisper_write_propagate P fd ts md higher lower (fview fd p q c s) = Inl HeapOverflow \<or>
    (\<exists>m e. whisper_write_propagate P fd ts md higher lower (fview fd p q c s) =
      Inr (EXIT_SUCCESS, fview fd p m c (s\<lparr>fs_errno := e\<rparr>)))"
  by (rule over_end_missed [OF assms])

text \<open>Two archives of 6 points, one for each minute and one for two: the points for 660 and 720 seconds
  are in the slots 5 and 0, the factor is one half, and the point for 720 of the second archive is not made.\<close>

definition over_the_end :: "byte list" where
  "over_the_end = write_at (40 + 5 * 12) (point_enc LittleEndian \<lparr>pt_timestamp = 660, pt_value = 7\<rparr>)
     (write_at (40 + 0 * 12) (point_enc LittleEndian \<lparr>pt_timestamp = 720, pt_value = 7\<rparr>) (replicate 184 0))"

theorem complete_window_lost_witness:
  "ring_of LittleEndian \<lparr>offset = 40, seconds_per_point = 60, points = 6\<rparr> over_the_end =
      (empty_ring 6)[0 := \<lparr>pt_timestamp = 720, pt_value = 7\<rparr>, 5 := \<lparr>pt_timestamp = 660, pt_value = 7\<rparr>] \<and>
    (whisper_write_propagate sample_platform 0 720 ((new_metadata sample_agg sample_rets)\<lparr>md_x_files_factor := 0x3F000000\<rparr>)
       \<lparr>offset = 40, seconds_per_point = 60, points = 6\<rparr> \<lparr>offset = 112, seconds_per_point = 120, points = 6\<rparr>
       (fview 0 [''f''] 0 over_the_end (sample_state\<lparr>fs_fds := [None]\<rparr>)) = Inl HeapOverflow \<or>
     (\<exists>m e. whisper_write_propagate sample_platform 0 720 ((new_metadata sample_agg sample_rets)\<lparr>md_x_files_factor := 0x3F000000\<rparr>)
       \<lparr>offset = 40, seconds_per_point = 60, points = 6\<rparr> \<lparr>offset = 112, seconds_per_point = 120, points = 6\<rparr>
       (fview 0 [''f''] 0 over_the_end (sample_state\<lparr>fs_fds := [None]\<rparr>)) =
       Inr (0, fview 0 [''f''] m over_the_end (sample_state\<lparr>fs_fds := [None], fs_errno := e\<rparr>))))"
proof
  let ?h = "\<lparr>offset = 40, seconds_per_point = 60, points = 6\<rparr> :: archive_info"
  let ?l = "\<lparr>offset = 112, seconds_per_point = 120, points = 6\<rparr> :: archive_info"
  let ?md = "(new_metadata sample_agg sample_rets)\<lparr>md_x_files_factor := 0x3F000000\<rparr>"
  let ?c1 = "write_at (40 + 0 * 12) (point_enc LittleEndian \<lparr>pt_timestamp = 720, pt_value = 7\<rparr>) (replicate 184 0)"
  have in0: "archive_in ?h (replicate 184 0)" by (simp add: archive_in_def)
  have r1: "ring_of LittleEndian ?h ?c1 = (empty_ring 6)[0 := \<lparr>pt_timestamp = 720, pt_value = 7\<rparr>]"
    using ring_of_write [OF in0, of 0 LittleEndian "\<lparr>pt_timestamp = 720, pt_value = 7\<rparr>"] by (simp add: short_ring)
  have in1: "archive_in ?h ?c1" by (simp add: archive_in_def length_write_at)
  show ring: "ring_of LittleEndian ?h over_the_end =
      (empty_ring 6)[0 := \<lparr>pt_timestamp = 720, pt_value = 7\<rparr>, 5 := \<lparr>pt_timestamp = 660, pt_value = 7\<rparr>]"
    using ring_of_write [OF in1, of 5 LittleEndian "\<lparr>pt_timestamp = 660, pt_value = 7\<rparr>"] r1 by (simp add: over_the_end_def)
  have in2: "archive_in ?h over_the_end" by (simp add: archive_in_def length_write_at over_the_end_def)
  have inv: "ring_inv 60 (ring_of LittleEndian ?h over_the_end)"
    by (auto simp: ring ring_inv_def ring_first_def empty_ring_def nth_list_update)
  have start: "660 = whisper_higher_archive_timestamp_start 720 ?h ?l"
    by (simp add: whisper_higher_archive_timestamp_start_def)
  have len: "2 = window_len ?h ?l" by (simp add: window_len_def)
  have "\<forall>j<2. pt_timestamp (ring_of LittleEndian ?h over_the_end ! ((5 + j) mod 6)) = 660 + of_nat j * 60"
    by (auto simp: ring empty_ring_def dest!: less_2_cases)
  moreover have "\<not> float_ge (float_of_u32 0) (md_x_files_factor ?md)"
    by (simp add: float_ge_def float_of_u32_def float_make_def ieee_round_def float_decode_def fp_decode_def fnum_le_def)
  ultimately show "whisper_write_propagate sample_platform 0 720 ?md ?h ?l
       (fview 0 [''f''] 0 over_the_end (sample_state\<lparr>fs_fds := [None]\<rparr>)) = Inl HeapOverflow \<or>
     (\<exists>m e. whisper_write_propagate sample_platform 0 720 ?md ?h ?l
       (fview 0 [''f''] 0 over_the_end (sample_state\<lparr>fs_fds := [None]\<rparr>)) =
       Inr (0, fview 0 [''f''] m over_the_end (sample_state\<lparr>fs_fds := [None], fs_errno := e\<rparr>)))"
    using inv complete_window_lost [OF _ sample_alloc in2 _ len _ _ start, where i = 5 and s = "sample_state\<lparr>fs_fds := [None]\<rparr>"
        and fd = 0 and md = ?md and p = "[''f'']" and q = 0]
    by (simp add: fd_ok_def sample_state_def sample_host)
qed

section \<open>Aggregation\<close>

text \<open>C29: of known values that are natural numbers with a sum below \<open>2 ^ 53\<close>, the sum is exact, and
  the average is their exact quotient rounded once to the nearest double: no rounding error adds up.\<close>

theorem aggregate_rounded_once:
  assumes "list_all2 double_is_nat vs ns" "sum_list ns < 2 ^ 53" "vs \<noteq> []" "length vs < 2 ^ 32"
  shows "whisper_aggregate_values vs (of_nat (length vs)) (agg_code AGG_TYPE_SUM) = double_of_nat (sum_list ns) \<and>
    double_is_nat (double_of_nat (sum_list ns)) (sum_list ns) \<and>
    whisper_aggregate_values vs (of_nat (length vs)) (agg_code AGG_TYPE_AVERAGE) =
      double_of_ratio (sum_list ns) (length vs)"
proof -
  have n: "unat (of_nat (length vs) :: u32) = length vs"
    using assms(4) by (simp add: unat_of_nat take_bit_nat_eq_self)
  have sum: "foldl double_add 0 vs = double_of_nat (sum_list ns)"
    using double_sum_nat [OF assms(1), of 0] assms(2) by simp
  have "double_div (double_of_nat (sum_list ns)) (double_of_u32 (of_nat (length vs))) =
      double_of_ratio (sum_list ns) (length vs)"
    using double_div_nat [OF double_is_nat_of_nat [OF assms(2)] double_is_nat_u32] assms(3) n
    by (metis length_greater_0_conv)
  then show ?thesis using double_is_nat_of_nat [OF assms(2)] by (simp add: whisper_aggregate_values_def n sum)
qed

theorem aggregate_rounded_once_witness:
  "whisper_aggregate_values [double_of_nat 1, double_of_nat 1, double_of_nat 2] 3 (agg_code AGG_TYPE_SUM) = double_of_nat 4 \<and>
   whisper_aggregate_values [double_of_nat 1, double_of_nat 1, double_of_nat 2] 3 (agg_code AGG_TYPE_AVERAGE) = double_of_ratio 4 3"
  using aggregate_rounded_once [of "[double_of_nat 1, double_of_nat 1, double_of_nat 2]" "[1, 1, 2]"]
  by (simp add: double_is_nat_of_nat flip: numeral_3_eq_3)

text \<open>The methods last, max and min, which the configuration accepts, all give 0.\<close>

lemma aggregate_unhandled:
  "method \<in> {AGG_TYPE_LAST, AGG_TYPE_MAX, AGG_TYPE_MIN, AGG_TYPE_UNDEF} \<Longrightarrow>
   whisper_aggregate_values vs n (agg_code method) = 0"
  by (auto simp: whisper_aggregate_values_def Let_def)

text \<open>The unrelated slot of a point that is older than the one in the first slot, here slot 387 of an archive of one point a
  minute, where the ring of the archive would have it in the last slot.\<close>

lemma late_point_slot:
  "point_write_offset \<lparr>offset = 40, seconds_per_point = 60, points = 1440\<rparr> 599940 600000 =
     Inr (40 + 387 * 12) \<and> (-1 :: int) mod 1440 = 1439"
  by (simp add: point_write_offset_def archive_size_def)

section \<open>Reading a file back\<close>

text \<open>C14: after a write to an existing well formed file, \<open>whisper_print_file\<close> lists the header, the archives and
  every point of the rings of the abstract update, and it changes nothing. As for the write
  alone, no system call fails, the name fits its buffers, and \<open>update_ready\<close> leaves out
  propagations from windows that go over the end of their ring from the slot where the code looks for them, that
  overrun their buffer, or whose distance does not fit.\<close>

theorem write_then_print:
  assumes "metric_ready P cf name s" "allocator_ok P"
    and "fs_files s (metric_path cf name) = Some c" "\<not> fs_dirs s (metric_path cf name)"
    and "wsp_file (host P) md as c"
    and "update_ready md as ts v (rings_of (host P) as c)"
    and "update_rings md as ts v (rings_of (host P) as c) = (rs, k)"
  shows "\<exists>s1 s2. whisper_write_value P cf name ts v s = Inr (0, s1) \<and>
    whisper_print_file P (metric_file cf name) s1 =
      Inr (Printed_file (metric_file cf name) # listing md as rs, s2) \<and>
    fs_files s2 = fs_files s1 \<and> (\<forall>fd. lookup_fd s2 fd = lookup_fd s fd)"
proof -
  note fn = metric_filename_ready [OF assms(1)]
  obtain c' s1 where w: "whisper_write_value P cf name ts v s = Inr (0, s1)"
    "stored (metric_path cf name) c' k s s1" "fs_dirs s1 = fs_dirs s"
    "wsp_file (host P) md as c'" "rings_of (host P) as c' = rs"
    by (rule write_value_existing [OF assms])
  have st: "fs_faults s1 = []" "fs_files s1 (components (metric_file cf name)) = Some c'"
    "\<not> fs_dirs s1 (components (metric_file cf name))"
    using w(2,3) assms(4) by (simp_all add: stored_def fn(3))
  obtain s2 where "whisper_print_file P (metric_file cf name) s1 =
      Inr (Printed_file (metric_file cf name) # listing md as (rings_of (host P) as c'), s2)"
    "fs_files s2 = fs_files s1" "\<forall>fd. lookup_fd s2 fd = lookup_fd s1 fd"
    by (rule print_file_listing [OF st(1) fn(2) st(3,2) w(4)])
  then show ?thesis using w(1,2,5) by (auto simp: stored_def)
qed

theorem write_then_print_witness:
  "\<exists>s1 s2. whisper_write_value sample_platform sample_conf ''a.b'' 45 (double_of_nat 4) sample_filled = Inr (0, s1) \<and>
    whisper_print_file sample_platform (metric_file sample_conf ''a.b'') s1 =
      Inr (Printed_file (metric_file sample_conf ''a.b'') #
        listing (new_metadata sample_agg sample_rets) (layout sample_rets)
          [(empty_ring 60)[0 := \<lparr>pt_timestamp = 30, pt_value = double_of_nat 3\<rparr>,
             Suc 0 := \<lparr>pt_timestamp = 40, pt_value = double_of_nat 4\<rparr>],
           (empty_ring 60)[0 := \<lparr>pt_timestamp = 40, pt_value = double_of_nat 7\<rparr>]], s2)"
  using write_then_print [OF filled_ready sample_alloc filled_files filled_wsp(1), unfolded filled_wsp(2), OF filled_update [of "double_of_nat 4", unfolded filled_sum]]
  by blast

end
