(* ===== verification/Linked_List.thy ===== *)
theory Linked_List
  imports Carbon_Prelude
begin

text \<open>
  Singly linked lists with a head and a tail pointer in an explicit heap. The two
  lists of the database (the metrics, and the points of each metric) are both of
  this kind; the locale proves once what appending at the tail and walking from the
  head do, and is interpreted for both in \<open>Database\<close>.
\<close>

type_synonym addr = nat
type_synonym ptr = "addr option"
type_synonym 'c heap = "addr \<Rightarrow> 'c option"

text \<open>A dereference: of the null pointer, of a freed object, or of an object.\<close>

definition deref :: "'c heap \<Rightarrow> ptr \<Rightarrow> stop + 'c" where
  "deref h p = (case p of None \<Rightarrow> Inl NullDeref
     | Some a \<Rightarrow> (case h a of None \<Rightarrow> Inl UseAfterFree | Some c \<Rightarrow> Inr c))"

section \<open>Chains\<close>

fun chain :: "('c \<Rightarrow> ptr) \<Rightarrow> 'c heap \<Rightarrow> ptr \<Rightarrow> addr list \<Rightarrow> bool" where
  "chain nxt h p [] = (p = None)"
| "chain nxt h p (a # as) =
     (p = Some a \<and> (case h a of None \<Rightarrow> False | Some c \<Rightarrow> chain nxt h (nxt c) as))"

text \<open>The addresses met on a walk of at most \<open>n\<close> steps.\<close>

fun follow :: "('c \<Rightarrow> ptr) \<Rightarrow> 'c heap \<Rightarrow> nat \<Rightarrow> ptr \<Rightarrow> addr list" where
  "follow nxt h 0 p = []"
| "follow nxt h (Suc n) None = []"
| "follow nxt h (Suc n) (Some a) = (case h a of None \<Rightarrow> [a] | Some c \<Rightarrow> a # follow nxt h n (nxt c))"

text \<open>Head and tail pointers that belong to the chain \<open>as\<close>.\<close>

definition queue :: "('c \<Rightarrow> ptr) \<Rightarrow> 'c heap \<Rightarrow> ptr \<Rightarrow> ptr \<Rightarrow> addr list \<Rightarrow> bool" where
  "queue nxt h head tail as \<longleftrightarrow>
     chain nxt h head as \<and> distinct as \<and> tail = (if as = [] then None else Some (last as))"

lemma follow_chain: "chain nxt h p as \<Longrightarrow> length as \<le> n \<Longrightarrow> follow nxt h n p = as"
proof (induction as arbitrary: p n)
  case Nil
  then show ?case by (cases n) auto
next
  case (Cons a as)
  then show ?case by (cases n) (auto split: option.splits)
qed

lemma chain_cells: "chain nxt h p as \<Longrightarrow> a \<in> set as \<Longrightarrow> \<exists>c. h a = Some c"
  by (induction as arbitrary: p) (auto split: option.splits)

lemma chain_cong:
  "chain nxt h p as \<Longrightarrow> (\<And>a. a \<in> set as \<Longrightarrow> map_option nxt (h' a) = map_option nxt (h a)) \<Longrightarrow> chain nxt h' p as"
proof (induction as arbitrary: p)
  case (Cons a as)
  obtain c where c: "h a = Some c" "chain nxt h (nxt c) as" using Cons.prems(1) by (auto split: option.splits)
  then have "map_option nxt (h' a) = Some (nxt c)" using Cons.prems(2) [of a] by simp
  then obtain c' where "h' a = Some c'" "nxt c' = nxt c" by auto
  with Cons c show ?case by (auto split: option.splits)
qed simp

lemma chain_upd_other: "chain nxt h p as \<Longrightarrow> b \<notin> set as \<Longrightarrow> chain nxt (h(b := x)) p as"
  by (erule chain_cong) auto

lemma queue_upd_other: "queue nxt h p q as \<Longrightarrow> b \<notin> set as \<Longrightarrow> queue nxt (h(b := x)) p q as"
  by (simp add: queue_def chain_upd_other)

lemma queue_same_next:
  "queue nxt h p q as \<Longrightarrow> h b = Some c \<Longrightarrow> nxt c' = nxt c \<Longrightarrow> queue nxt (h(b \<mapsto> c')) p q as"
  unfolding queue_def by (auto intro: chain_cong)

lemma queue_tail: "queue nxt h p q as \<Longrightarrow> q = None \<longleftrightarrow> as = []"
  by (simp add: queue_def)

lemma queue_cells: "queue nxt h p q as \<Longrightarrow> a \<in> set as \<Longrightarrow> \<exists>c. h a = Some c"
  unfolding queue_def using chain_cells by blast

lemma queue_follow:
  assumes "queue nxt h p q as" "\<forall>a\<in>set as. a < n"
  shows "follow nxt h n p = as"
proof -
  have "card (set as) \<le> card {..<n}" using assms(2) by (intro card_mono) auto
  then have "length as \<le> n" using assms(1) by (simp add: queue_def distinct_card)
  with assms(1) show ?thesis by (simp add: queue_def follow_chain)
qed

section \<open>Appending and walking\<close>

text \<open>
  The interface of a linked structure: how the \<open>next\<close> field of a cell is read and
  set. Setting it is read back, and leaves what the client observes of a cell alone.
\<close>

locale linked =
  fixes nxt :: "'c \<Rightarrow> ptr" and set_nxt :: "ptr \<Rightarrow> 'c \<Rightarrow> 'c" and observe :: "'c \<Rightarrow> 'o"
  assumes nxt_set: "nxt (set_nxt p c) = p"
    and observe_set: "observe (set_nxt p c) = observe c"
begin

lemma chain_snoc:
  "chain nxt h p (as @ [l]) \<Longrightarrow> distinct (as @ [l]) \<Longrightarrow> h l = Some cl \<Longrightarrow> n \<notin> set (as @ [l]) \<Longrightarrow>
   h n = Some c \<Longrightarrow> nxt c = None \<Longrightarrow>
   chain nxt (h(l \<mapsto> set_nxt (Some n) cl)) p (as @ [l, n])"
  by (induction as arbitrary: p) (auto simp: nxt_set split: option.splits)

lemma append_first:
  "queue nxt h p None as \<Longrightarrow> h n = Some c \<Longrightarrow> nxt c = None \<Longrightarrow> queue nxt h (Some n) (Some n) (as @ [n])"
  by (auto simp: queue_def split: if_splits)

lemma append_next:
  assumes "queue nxt h p (Some l) as" "h l = Some cl" "h n = Some c" "nxt c = None" "n \<notin> set as"
  shows "queue nxt (h(l \<mapsto> set_nxt (Some n) cl)) p (Some n) (as @ [n])"
proof -
  have ne: "as \<noteq> []" and l: "l = last as" using assms(1) by (auto simp: queue_def split: if_splits)
  then have as: "as = butlast as @ [l]" by simp
  have "chain nxt (h(l \<mapsto> set_nxt (Some n) cl)) p (butlast as @ [l, n])"
    using assms by (intro chain_snoc) (simp_all add: queue_def flip: as)
  moreover have "butlast as @ [l, n] = as @ [n]" using as by (metis append.assoc append_Cons append_Nil)
  ultimately show ?thesis using assms(1,5) by (simp add: queue_def)
qed

text \<open>What is observed of the cells does not change.\<close>

lemma observe_append:
  "h l = Some cl \<Longrightarrow> map_option observe ((h(l \<mapsto> set_nxt q cl)) a) = map_option observe (h a)"
  by (simp add: observe_set)

end

end
