(* ===== verification/Database.thy ===== *)
theory Database
  imports Linked_List C_String Whisper_Write
begin

text \<open>
  The database of \<open>database.c\<close>: a linked list of metrics, each with a linked list of
  points that wait to be written. The heap is explicit; an allocation takes an
  address that was never used, so that a pointer to a freed object stays
  recognisable. The abstract database is a list of names with their points.
\<close>

named_theorems db_simps
  \<open>evaluation of the database operations\<close>

section \<open>State\<close>

record metric_point =
  mp_timestamp :: u32
  mp_value :: cdouble
  mp_next :: ptr

record metric =
  m_name :: string
  m_nb_points :: u32
  m_points :: ptr
  m_last :: ptr
  m_next :: ptr

text \<open>The globals of the daemon: files and counters, the heap, and the database \<open>db\<close>.\<close>

record daemon =
  io :: wsp_state
  h_metrics :: "metric heap"
  h_points :: "metric_point heap"
  h_fresh :: nat
  db_first :: ptr
  db_last :: ptr

text \<open>A call that only concerns files and counters.\<close>

definition with_io :: "(wsp_state, 'a) prog \<Rightarrow> (daemon, 'a) prog" where
  "with_io m = (\<lambda>s. case m (io s) of Inl e \<Rightarrow> Inl e | Inr (a, i) \<Rightarrow> Inr (a, s\<lparr>io := i\<rparr>))"

section \<open>Operations\<close>

text \<open>
  The walk of \<open>get_metric\<close>. It has no end exactly when it makes more steps than there
  are allocated objects.
\<close>

fun get_metric_loop :: "metric heap \<Rightarrow> string \<Rightarrow> nat \<Rightarrow> ptr \<Rightarrow> stop + ptr" where
  "get_metric_loop h name n None = Inr None"
| "get_metric_loop h name 0 (Some a) = Inl Endless"
| "get_metric_loop h name (Suc n) (Some a) =
     (case h a of None \<Rightarrow> Inl UseAfterFree
      | Some cur_m \<Rightarrow>
          if length name = length (m_name cur_m) \<and> strncmp_eq (m_name cur_m) name (length name + 1)
          then Inr (Some a)
          else get_metric_loop h name n (m_next cur_m))"

definition get_metric :: "string \<Rightarrow> (daemon, ptr) prog" where
  "get_metric name = (\<lambda>s. pure_prog (get_metric_loop (h_metrics s) name (h_fresh s) (db_first s)) s)"

definition add_database_metric_point :: "addr \<Rightarrow> addr \<Rightarrow> (daemon, unit) prog" where
  "add_database_metric_point m new_point = (\<lambda>s.
     case h_metrics s m of None \<Rightarrow> Inl UseAfterFree
     | Some c \<Rightarrow>
         (case m_last c of
            None \<Rightarrow> Inr ((), s\<lparr>h_metrics := (h_metrics s)(m \<mapsto> c\<lparr>m_points := Some new_point,
                       m_last := Some new_point, m_nb_points := m_nb_points c + 1\<rparr>)\<rparr>)
          | Some l \<Rightarrow>
              (case h_points s l of None \<Rightarrow> Inl UseAfterFree
               | Some q \<Rightarrow> Inr ((), s\<lparr>h_points := (h_points s)(l \<mapsto> q\<lparr>mp_next := Some new_point\<rparr>),
                       h_metrics := (h_metrics s)(m \<mapsto> c\<lparr>m_last := Some new_point,
                         m_nb_points := m_nb_points c + 1\<rparr>)\<rparr>))))"

definition add_database_metric :: "addr \<Rightarrow> (daemon, unit) prog" where
  "add_database_metric new_metric = (\<lambda>s.
     case db_last s of
       None \<Rightarrow> Inr ((), s\<lparr>db_first := Some new_metric, db_last := Some new_metric\<rparr>)
     | Some l \<Rightarrow>
         (case h_metrics s l of None \<Rightarrow> Inl UseAfterFree
          | Some c \<Rightarrow> Inr ((), s\<lparr>h_metrics := (h_metrics s)(l \<mapsto> c\<lparr>m_next := Some new_metric\<rparr>),
                  db_last := Some new_metric\<rparr>)))"

definition create_new_metric_point :: "u32 \<Rightarrow> cdouble \<Rightarrow> (daemon, addr) prog" where
  "create_new_metric_point timestamp v = (\<lambda>s.
     Inr (h_fresh s, s\<lparr>h_points := (h_points s)(h_fresh s \<mapsto>
         \<lparr>mp_timestamp = timestamp, mp_value = v, mp_next = None\<rparr>), h_fresh := Suc (h_fresh s)\<rparr>))"

definition create_new_metric :: "string \<Rightarrow> (daemon, addr) prog" where
  "create_new_metric name = (\<lambda>s.
     Inr (h_fresh s, s\<lparr>h_metrics := (h_metrics s)(h_fresh s \<mapsto>
         \<lparr>m_name = name, m_nb_points = 0, m_points = None, m_last = None, m_next = None\<rparr>),
         h_fresh := Suc (h_fresh s)\<rparr>))"

definition database_init :: "(daemon, unit) prog" where
  "database_init = (\<lambda>s. Inr ((), s\<lparr>db_first := None, db_last := None\<rparr>))"

text \<open>
  Storing a value under a name, as the receivers do it: the metric is looked up or
  created, and a new point is appended to it.
\<close>

definition store_point :: "string \<Rightarrow> u32 \<Rightarrow> cdouble \<Rightarrow> (daemon, unit) prog" where
  "store_point metric_name timestamp v =
     andthen (get_metric metric_name) (\<lambda>related_metric.
     andthen (case related_metric of
         None \<Rightarrow> andthen (create_new_metric metric_name) (\<lambda>m.
                 andthen (add_database_metric m) (\<lambda>_. ret m))
       | Some m \<Rightarrow> ret m) (\<lambda>m.
     andthen (create_new_metric_point timestamp v) (\<lambda>p.
     add_database_metric_point m p)))"

section \<open>The two linked lists\<close>

interpretation metric_list: linked m_next "\<lambda>p m. m\<lparr>m_next := p\<rparr>"
    "\<lambda>m. (m_name m, m_nb_points m, m_points m, m_last m)"
  by unfold_locales simp_all

interpretation point_list: linked mp_next "\<lambda>p q. q\<lparr>mp_next := p\<rparr>" "\<lambda>q. (mp_timestamp q, mp_value q)"
  by unfold_locales simp_all

section \<open>Abstraction and invariant\<close>

type_synonym adb = "(string \<times> (u32 \<times> cdouble) list) list"

definition name_of :: "daemon \<Rightarrow> addr \<Rightarrow> string" where
  "name_of s m = (case h_metrics s m of None \<Rightarrow> [] | Some c \<Rightarrow> m_name c)"

definition point_of :: "daemon \<Rightarrow> addr \<Rightarrow> u32 \<times> cdouble" where
  "point_of s p = (case h_points s p of None \<Rightarrow> (0, 0) | Some c \<Rightarrow> (mp_timestamp c, mp_value c))"

definition metric_addrs :: "daemon \<Rightarrow> addr list" where
  "metric_addrs s = follow m_next (h_metrics s) (h_fresh s) (db_first s)"

definition point_addrs :: "daemon \<Rightarrow> addr \<Rightarrow> addr list" where
  "point_addrs s m = (case h_metrics s m of None \<Rightarrow> []
     | Some c \<Rightarrow> follow mp_next (h_points s) (h_fresh s) (m_points c))"

definition db_view :: "daemon \<Rightarrow> addr list \<Rightarrow> (addr \<Rightarrow> addr list) \<Rightarrow> adb" where
  "db_view s ms pl = map (\<lambda>m. (name_of s m, map (point_of s) (pl m))) ms"

definition db_abs :: "daemon \<Rightarrow> adb" where
  "db_abs s = db_view s (metric_addrs s) (point_addrs s)"

text \<open>
  The shape of the heap: the metrics \<open>ms\<close> are linked, have different names, and each
  owns the points \<open>pl m\<close>, which are linked and counted.
\<close>

definition metric_shape :: "daemon \<Rightarrow> addr \<Rightarrow> addr list \<Rightarrow> bool" where
  "metric_shape s m ps \<longleftrightarrow>
     m < h_fresh s \<and> (\<forall>p\<in>set ps. p < h_fresh s) \<and>
     (case h_metrics s m of None \<Rightarrow> False
      | Some c \<Rightarrow> queue mp_next (h_points s) (m_points c) (m_last c) ps \<and>
                  m_nb_points c = of_nat (length ps))"

definition db_shape :: "daemon \<Rightarrow> addr list \<Rightarrow> (addr \<Rightarrow> addr list) \<Rightarrow> bool" where
  "db_shape s ms pl \<longleftrightarrow>
     queue m_next (h_metrics s) (db_first s) (db_last s) ms \<and>
     (\<forall>m\<in>set ms. metric_shape s m (pl m)) \<and>
     (\<forall>m\<in>set ms. \<forall>m'\<in>set ms. m \<noteq> m' \<longrightarrow> set (pl m) \<inter> set (pl m') = {}) \<and>
     distinct (map (name_of s) ms)"

definition db_inv :: "daemon \<Rightarrow> bool" where
  "db_inv s \<longleftrightarrow> db_shape s (metric_addrs s) (point_addrs s)"

text \<open>The specification of \<open>store_point\<close>.\<close>

fun record_point :: "string \<Rightarrow> u32 \<times> cdouble \<Rightarrow> adb \<Rightarrow> adb" where
  "record_point n p [] = [(n, [p])]"
| "record_point n p ((m, ps) # db) = (if m = n then (m, ps @ [p]) # db else (m, ps) # record_point n p db)"

lemma db_shape_addrs:
  assumes "db_shape s ms pl"
  shows "metric_addrs s = ms" "m \<in> set ms \<Longrightarrow> point_addrs s m = pl m"
proof -
  show "metric_addrs s = ms"
    unfolding metric_addrs_def
    by (rule queue_follow) (use assms in \<open>auto simp: db_shape_def metric_shape_def\<close>)
  assume "m \<in> set ms"
  then have "metric_shape s m (pl m)" using assms by (simp add: db_shape_def)
  then show "point_addrs s m = pl m"
    by (auto simp: metric_shape_def point_addrs_def intro: queue_follow split: option.splits)
qed

lemma db_shape_cong:
  "(\<And>m. m \<in> set ms \<Longrightarrow> pl' m = pl m) \<Longrightarrow> db_shape s ms pl \<Longrightarrow> db_shape s ms pl'"
  by (simp add: db_shape_def)

lemma db_shape_inv:
  assumes "db_shape s ms pl"
  shows "db_inv s" "db_abs s = db_view s ms pl"
proof -
  note addrs = db_shape_addrs [OF assms]
  show "db_inv s" unfolding db_inv_def addrs(1)
    by (rule db_shape_cong [OF _ assms]) (rule addrs(2))
  show "db_abs s = db_view s ms pl"
    unfolding db_abs_def addrs(1) by (simp add: db_view_def addrs(2))
qed

section \<open>Looking a metric up\<close>

lemma names_equal:
  "length a = length b \<and> strncmp_eq b a (length a + 1) \<longleftrightarrow> a = b"
  by (auto simp: strncmp_eq_take)

lemma get_metric_loop_chain:
  "chain m_next (h_metrics s) p ms \<Longrightarrow> length ms \<le> n \<Longrightarrow>
   get_metric_loop (h_metrics s) name n p = Inr (find (\<lambda>m. name_of s m = name) ms)"
proof (induction ms arbitrary: n p)
  case (Cons m ms)
  then obtain k c where "n = Suc k" "h_metrics s m = Some c" "p = Some m"
    "chain m_next (h_metrics s) (m_next c) ms" "length ms \<le> k"
    by (cases n) (auto split: option.splits)
  with Cons.IH show ?case by (simp only: get_metric_loop.simps names_equal) (auto simp: name_of_def)
qed simp

lemma get_metric_shape:
  assumes "db_shape s ms pl"
  shows "get_metric name s = Inr (find (\<lambda>m. name_of s m = name) ms, s)"
proof -
  have q: "queue m_next (h_metrics s) (db_first s) (db_last s) ms" "\<forall>m\<in>set ms. m < h_fresh s"
    using assms by (auto simp: db_shape_def metric_shape_def)
  have "card (set ms) \<le> card {..<h_fresh s}" using q(2) by (intro card_mono) auto
  then have "length ms \<le> h_fresh s" using q(1) by (simp add: queue_def distinct_card)
  then show ?thesis
    using get_metric_loop_chain [of s "db_first s" ms "h_fresh s" name] q(1)
    by (simp add: get_metric_def queue_def pure_prog_def)
qed

section \<open>Adding a metric\<close>

lemma metric_shape_other:
  assumes "metric_shape s m ps" "h_fresh s \<le> h_fresh s'"
    and "map_option (\<lambda>c. (m_points c, m_last c, m_nb_points c)) (h_metrics s' m)
       = map_option (\<lambda>c. (m_points c, m_last c, m_nb_points c)) (h_metrics s m)"
    and "\<And>p. p \<in> set ps \<Longrightarrow> h_points s' p = h_points s p"
  shows "metric_shape s' m ps"
proof -
  obtain c where c: "h_metrics s m = Some c" using assms(1) by (auto simp: metric_shape_def split: option.splits)
  with assms(3) obtain c' where c': "h_metrics s' m = Some c'" "m_points c' = m_points c"
    "m_last c' = m_last c" "m_nb_points c' = m_nb_points c" by auto
  have "queue mp_next (h_points s') (m_points c) (m_last c) ps"
    using assms(1,4) c unfolding metric_shape_def queue_def by (auto intro: chain_cong)
  then show ?thesis using assms(1,2) c c' by (auto simp: metric_shape_def)
qed

text \<open>What is seen of a metric besides its \<open>next\<close> pointer.\<close>

abbreviation seen :: "metric \<Rightarrow> string \<times> u32 \<times> ptr \<times> ptr" where
  "seen m \<equiv> (m_name m, m_nb_points m, m_points m, m_last m)"

lemma seen_name: "map_option seen (h_metrics s' m) = map_option seen (h_metrics s m) \<Longrightarrow> name_of s' m = name_of s m"
  by (auto simp: name_of_def split: option.splits)

lemma seen_shape:
  assumes "metric_shape s m ps" "h_fresh s \<le> h_fresh s'"
    and "map_option seen (h_metrics s' m) = map_option seen (h_metrics s m)"
    and "\<And>p. p \<in> set ps \<Longrightarrow> h_points s' p = h_points s p"
  shows "metric_shape s' m ps"
  using assms(3) by (intro metric_shape_other [OF assms(1,2) _ assms(4)]) (auto simp: map_option_case split: option.splits)

text \<open>The linked list after a new metric was appended.\<close>

lemma add_metric_queue:
  fixes name s
  defines "c \<equiv> \<lparr>m_name = name, m_nb_points = 0, m_points = None, m_last = None, m_next = None\<rparr>"
  assumes q: "queue m_next (h_metrics s) (db_first s) (db_last s) ms" and fr: "h_fresh s \<notin> set ms"
  obtains h' f where
    "andthen (create_new_metric name) (\<lambda>m. andthen (add_database_metric m) (\<lambda>_. ret m)) s =
      Inr (h_fresh s, s\<lparr>h_metrics := h', h_fresh := Suc (h_fresh s), db_first := f, db_last := Some (h_fresh s)\<rparr>)"
    "queue m_next h' f (Some (h_fresh s)) (ms @ [h_fresh s])"
    "\<forall>a. map_option seen (h' a) = map_option seen (((h_metrics s)(h_fresh s \<mapsto> c)) a)"
proof -
  let ?n = "h_fresh s" and ?h = "(h_metrics s)(h_fresh s \<mapsto> c)"
  note defs = c_def create_new_metric_def add_database_metric_def andthen_def ret_def
  have q': "queue m_next ?h (db_first s) (db_last s) ms" using q fr by (simp add: queue_upd_other)
  show ?thesis
  proof (cases "db_last s")
    case None
    with metric_list.append_first [of ?h "db_first s" ms ?n c] q' show ?thesis
      by (intro that [of "Some ?n" ?h]) (simp_all add: defs)
  next
    case (Some l)
    then have l: "l \<in> set ms" using q by (auto simp: queue_def split: if_splits)
    then obtain cl where cl: "h_metrics s l = Some cl" using queue_cells [OF q] by blast
    have "l \<noteq> ?n" using l fr by auto
    then have hl: "?h l = Some cl" using cl by simp
    have "queue m_next (?h(l \<mapsto> cl\<lparr>m_next := Some ?n\<rparr>)) (db_first s) (Some ?n) (ms @ [?n])"
      using metric_list.append_next [of ?h "db_first s" l ms cl ?n c] q' hl fr Some by (simp add: c_def)
    with Some hl \<open>l \<noteq> ?n\<close> metric_list.observe_append [of ?h l cl] show ?thesis
      by (intro that [of "db_first s" "?h(l \<mapsto> cl\<lparr>m_next := Some ?n\<rparr>)"]) (simp_all add: defs)
  qed
qed

text \<open>A new metric at the end of the list, with no points.\<close>

lemma add_metric_shape:
  assumes sh: "db_shape s ms pl" and new: "name \<notin> name_of s ` set ms"
  obtains s' where
    "andthen (create_new_metric name) (\<lambda>m. andthen (add_database_metric m) (\<lambda>_. ret m)) s = Inr (h_fresh s, s')"
    "db_shape s' (ms @ [h_fresh s]) (pl(h_fresh s := []))"
    "db_view s' (ms @ [h_fresh s]) (pl(h_fresh s := [])) = db_view s ms pl @ [(name, [])]"
    "io s' = io s"
proof -
  let ?n = "h_fresh s" and ?pl = "pl(h_fresh s := [])"
  have fr: "?n \<notin> set ms" using sh by (auto simp: db_shape_def metric_shape_def)
  obtain h' f where h':
    "andthen (create_new_metric name) (\<lambda>m. andthen (add_database_metric m) (\<lambda>_. ret m)) s =
      Inr (?n, s\<lparr>h_metrics := h', h_fresh := Suc ?n, db_first := f, db_last := Some ?n\<rparr>)"
    "queue m_next h' f (Some ?n) (ms @ [?n])"
    "\<forall>a. map_option seen (h' a) = map_option seen (((h_metrics s)(?n \<mapsto> \<lparr>m_name = name, m_nb_points = 0,
       m_points = None, m_last = None, m_next = None\<rparr>)) a)"
    by (rule add_metric_queue [of s ms name]) (use sh fr in \<open>simp_all add: db_shape_def\<close>)
  let ?s = "s\<lparr>h_metrics := h', h_fresh := Suc ?n, db_first := f, db_last := Some ?n\<rparr>"
  obtain cn where cn: "h' ?n = Some cn" "m_name cn = name" "m_nb_points cn = 0" "m_points cn = None" "m_last cn = None"
    using h'(3) [rule_format, of ?n] by auto
  have old: "map_option seen (h_metrics ?s m) = map_option seen (h_metrics s m)" if "m \<in> set ms" for m
    using h'(3) [rule_format, of m] that fr by auto
  have names: "name_of ?s m = name_of s m" if "m \<in> set ms" for m using seen_name [OF old [OF that]] .
  have name: "name_of ?s ?n = name" using cn by (simp add: name_of_def)
  have pts: "point_of ?s = point_of s" by (simp add: point_of_def fun_eq_iff)
  have shapes: "metric_shape ?s m (?pl m)" if "m \<in> set (ms @ [?n])" for m
  proof (cases "m = ?n")
    case True
    then show ?thesis using cn by (simp add: metric_shape_def queue_def)
  next
    case False
    then have m: "m \<in> set ms" using that by simp
    have "metric_shape ?s m (pl m)"
      by (rule seen_shape [OF _ _ old [OF m]]) (use sh m in \<open>simp_all add: db_shape_def\<close>)
    then show ?thesis using False by simp
  qed
  have "db_shape ?s (ms @ [?n]) ?pl"
    unfolding db_shape_def
  proof (intro conjI)
    show "queue m_next (h_metrics ?s) (db_first ?s) (db_last ?s) (ms @ [?n])" using h'(2) by simp
    show "\<forall>m\<in>set (ms @ [?n]). metric_shape ?s m (?pl m)" using shapes by blast
    show "\<forall>m\<in>set (ms @ [?n]). \<forall>m'\<in>set (ms @ [?n]). m \<noteq> m' \<longrightarrow> set (?pl m) \<inter> set (?pl m') = {}"
      using sh by (simp add: db_shape_def)
    have "map (name_of ?s) (ms @ [?n]) = map (name_of s) ms @ [name]" using names name by simp
    moreover have "distinct (map (name_of s) ms @ [name])" using sh new by (auto simp: db_shape_def)
    ultimately show "distinct (map (name_of ?s) (ms @ [?n]))" by (simp only:)
  qed
  moreover have "db_view ?s (ms @ [?n]) ?pl = db_view s ms pl @ [(name, [])]"
    using fr names name pts by (auto simp: db_view_def)
  ultimately show ?thesis using that h'(1) by simp
qed

section \<open>Adding a point\<close>

lemma add_point_queue:
  fixes ts v s
  defines "q \<equiv> \<lparr>mp_timestamp = ts, mp_value = v, mp_next = None\<rparr>"
  assumes sh: "metric_shape s m ps" and c: "h_metrics s m = Some c"
  obtains hp c' where
    "andthen (create_new_metric_point ts v) (add_database_metric_point m) s =
       Inr ((), s\<lparr>h_points := hp, h_metrics := (h_metrics s)(m \<mapsto> c'), h_fresh := Suc (h_fresh s)\<rparr>)"
    "queue mp_next hp (m_points c') (m_last c') (ps @ [h_fresh s])"
    "m_nb_points c' = m_nb_points c + 1" "m_name c' = m_name c" "m_next c' = m_next c"
    "\<forall>a. map_option (\<lambda>q. (mp_timestamp q, mp_value q)) (hp a) =
       map_option (\<lambda>q. (mp_timestamp q, mp_value q)) (((h_points s)(h_fresh s \<mapsto> q)) a)"
    "\<forall>a. a \<notin> set ps \<longrightarrow> a \<noteq> h_fresh s \<longrightarrow> hp a = h_points s a"
proof -
  let ?n = "h_fresh s" and ?h = "(h_points s)(h_fresh s \<mapsto> q)"
  note defs = q_def create_new_metric_point_def add_database_metric_point_def andthen_def
  have qu: "queue mp_next (h_points s) (m_points c) (m_last c) ps" and fr: "?n \<notin> set ps"
    using sh c by (auto simp: metric_shape_def)
  then have q': "queue mp_next ?h (m_points c) (m_last c) ps" by (simp add: queue_upd_other)
  show ?thesis
  proof (cases "m_last c")
    case None
    let ?c = "c\<lparr>m_points := Some ?n, m_last := Some ?n, m_nb_points := m_nb_points c + 1\<rparr>"
    from None point_list.append_first [of ?h "m_points c" ps ?n q] q' c show ?thesis
      by (intro that [of ?c ?h]) (simp_all add: defs)
  next
    case (Some l)
    let ?c = "c\<lparr>m_last := Some ?n, m_nb_points := m_nb_points c + 1\<rparr>"
    have l: "l \<in> set ps" using Some qu by (auto simp: queue_def split: if_splits)
    then obtain ql where ql: "h_points s l = Some ql" using queue_cells [OF qu] by blast
    have "l \<noteq> ?n" using l fr by auto
    then have hl: "?h l = Some ql" using ql by simp
    let ?h' = "?h(l \<mapsto> ql\<lparr>mp_next := Some ?n\<rparr>)"
    have "queue mp_next ?h' (m_points c) (Some ?n) (ps @ [?n])"
      using point_list.append_next [of ?h "m_points c" l ps ql ?n q] q' hl fr Some by (simp add: q_def)
    with Some c hl l \<open>l \<noteq> ?n\<close> point_list.observe_append [of ?h l ql] show ?thesis
      by (intro that [of ?c ?h']) (auto simp: defs)
  qed
qed

text \<open>
  Shape of every metric and of the database after a point was appended to the
  metric at \<open>m\<close>: only its own cell and the points of its own list have changed.
\<close>

lemma append_metric_shapes:
  assumes sh: "db_shape s ms pl" and m: "m \<in> set ms" and c: "h_metrics s m = Some c"
    and q: "queue mp_next hp (m_points c') (m_last c') (pl m @ [h_fresh s])"
    and nb: "m_nb_points c' = m_nb_points c + 1"
    and same: "\<forall>a. a \<notin> set (pl m) \<longrightarrow> a \<noteq> h_fresh s \<longrightarrow> hp a = h_points s a"
    and a: "a \<in> set ms"
  shows "metric_shape (s\<lparr>h_points := hp, h_metrics := (h_metrics s)(m \<mapsto> c'), h_fresh := Suc (h_fresh s)\<rparr>)
    a ((pl(m := pl m @ [h_fresh s])) a)"
proof (cases "a = m")
  case True
  have "m < h_fresh s" "\<forall>p\<in>set (pl m). p < h_fresh s" "m_nb_points c = of_nat (length (pl m))"
    using sh m c by (auto simp: db_shape_def metric_shape_def)
  then show ?thesis using True q nb by (auto simp: metric_shape_def)
next
  case False
  have sa: "metric_shape s a (pl a)" and "set (pl a) \<inter> set (pl m) = {}"
    using sh a m False by (simp_all add: db_shape_def)
  then have "hp p = h_points s p" if "p \<in> set (pl a)" for p
    using same that by (auto simp: metric_shape_def)
  then have "metric_shape (s\<lparr>h_points := hp, h_metrics := (h_metrics s)(m \<mapsto> c'), h_fresh := Suc (h_fresh s)\<rparr>) a (pl a)"
    using False by (intro metric_shape_other [OF sa]) simp_all
  then show ?thesis using False by simp
qed

lemma add_point_shape:
  assumes sh: "db_shape s ms pl" and m: "m \<in> set ms"
  obtains s' where
    "andthen (create_new_metric_point ts v) (add_database_metric_point m) s = Inr ((), s')"
    "db_shape s' ms (pl(m := pl m @ [h_fresh s]))"
    "db_view s' ms (pl(m := pl m @ [h_fresh s])) =
       map (\<lambda>a. (name_of s a, map (point_of s) (pl a) @ (if a = m then [(ts, v)] else []))) ms"
    "io s' = io s"
proof -
  let ?n = "h_fresh s" and ?pl = "pl(m := pl m @ [h_fresh s])"
  have shm: "metric_shape s a (pl a)" if "a \<in> set ms" for a using sh that by (simp add: db_shape_def)
  obtain c where c: "h_metrics s m = Some c"
    using shm [OF m] by (auto simp: metric_shape_def split: option.splits)
  obtain hp c' where h:
    "andthen (create_new_metric_point ts v) (add_database_metric_point m) s =
       Inr ((), s\<lparr>h_points := hp, h_metrics := (h_metrics s)(m \<mapsto> c'), h_fresh := Suc ?n\<rparr>)"
    "queue mp_next hp (m_points c') (m_last c') (pl m @ [?n])"
    "m_nb_points c' = m_nb_points c + 1" "m_name c' = m_name c" "m_next c' = m_next c"
    "\<forall>a. map_option (\<lambda>q. (mp_timestamp q, mp_value q)) (hp a) =
       map_option (\<lambda>q. (mp_timestamp q, mp_value q))
         (((h_points s)(?n \<mapsto> \<lparr>mp_timestamp = ts, mp_value = v, mp_next = None\<rparr>)) a)"
    "\<forall>a. a \<notin> set (pl m) \<longrightarrow> a \<noteq> ?n \<longrightarrow> hp a = h_points s a"
    by (rule add_point_queue [OF shm [OF m] c, of ts v])
  let ?s = "s\<lparr>h_points := hp, h_metrics := (h_metrics s)(m \<mapsto> c'), h_fresh := Suc ?n\<rparr>"
  have names: "name_of ?s = name_of s" using c h(4) by (auto simp: name_of_def fun_eq_iff)
  have fr: "?n \<notin> set (pl a)" if "a \<in> set ms" for a using shm [OF that] by (auto simp: metric_shape_def)
  have apart: "set (pl a) \<inter> set (pl b) = {}" if "a \<in> set ms" "b \<in> set ms" "a \<noteq> b" for a b
    using sh that by (simp add: db_shape_def)
  have pt: "point_of ?s p = (if p = ?n then (ts, v) else point_of s p)" for p
    using h(6) [rule_format, of p] by (auto simp: point_of_def map_option_case split: option.splits if_splits)
  note shapes = append_metric_shapes [OF sh m c h(2,3,7)]
  have "db_shape ?s ms ?pl"
    unfolding db_shape_def
  proof (intro conjI)
    show "queue m_next (h_metrics ?s) (db_first ?s) (db_last ?s) ms"
      using queue_same_next [of m_next "h_metrics s" "db_first s" "db_last s" ms m c c'] sh c h(5)
      by (simp add: db_shape_def)
    show "\<forall>m\<in>set ms. metric_shape ?s m (?pl m)" using shapes by blast
    show "\<forall>a\<in>set ms. \<forall>b\<in>set ms. a \<noteq> b \<longrightarrow> set (?pl a) \<inter> set (?pl b) = {}"
      using apart fr m by auto
    show "distinct (map (name_of ?s) ms)" using sh unfolding names by (simp add: db_shape_def)
  qed
  moreover have "db_view ?s ms ?pl =
       map (\<lambda>a. (name_of s a, map (point_of s) (pl a) @ (if a = m then [(ts, v)] else []))) ms"
    using fr by (auto simp: db_view_def names pt)
  ultimately show ?thesis using that h(1) by simp
qed

section \<open>Storing refines the specification\<close>

lemma record_point_found:
  "m \<in> set ms \<Longrightarrow> distinct (map f ms) \<Longrightarrow>
   record_point (f m) p (map (\<lambda>a. (f a, g a)) ms) =
     map (\<lambda>a. (f a, g a @ (if a = m then [p] else []))) ms"
proof (induction ms)
  case (Cons a ms)
  show ?case
  proof (cases "a = m")
    case True
    then have "m \<notin> set ms" using Cons.prems(2) by auto
    then have "map (\<lambda>b. (f b, g b @ (if b = m then [p] else []))) ms = map (\<lambda>b. (f b, g b)) ms"
      by (intro map_cong) auto
    then show ?thesis using True by simp
  next
    case False
    then have "f a \<noteq> f m" using Cons.prems by auto
    then show ?thesis using Cons False by simp
  qed
qed simp

lemma record_point_new:
  "n \<notin> fst ` set db \<Longrightarrow> record_point n p db = db @ [(n, [p])]"
  "n \<notin> fst ` set db \<Longrightarrow> record_point n p (db @ [(n, [])]) = db @ [(n, [p])]"
  by (induction n p db rule: record_point.induct) auto

lemma add_point_refines:
  assumes sh: "db_shape s ms pl" and m: "m \<in> set ms"
  obtains s' where "andthen (create_new_metric_point ts v) (add_database_metric_point m) s = Inr ((), s')"
    "db_inv s'" "db_abs s' = record_point (name_of s m) (ts, v) (db_abs s)" "io s' = io s"
proof -
  let ?pl = "pl(m := pl m @ [h_fresh s])"
  obtain s' where s': "andthen (create_new_metric_point ts v) (add_database_metric_point m) s = Inr ((), s')"
    "db_shape s' ms ?pl"
    "db_view s' ms ?pl = map (\<lambda>a. (name_of s a, map (point_of s) (pl a) @ (if a = m then [(ts, v)] else []))) ms"
    "io s' = io s"
    by (rule add_point_shape [OF sh m, of ts v])
  have dist: "distinct (map (name_of s) ms)" using sh by (simp add: db_shape_def)
  have "db_abs s' = record_point (name_of s m) (ts, v) (db_abs s)"
    unfolding db_shape_inv(2) [OF s'(2)] db_shape_inv(2) [OF sh] s'(3)
    using record_point_found [OF m dist, of "(ts, v)" "\<lambda>a. map (point_of s) (pl a)"]
    by (simp add: db_view_def)
  then show ?thesis using that s'(1,4) db_shape_inv(1) [OF s'(2)] by blast
qed

lemma store_point_refines:
  assumes inv: "db_inv s"
  obtains s' where "store_point name ts v s = Inr ((), s')" "db_inv s'"
    "db_abs s' = record_point name (ts, v) (db_abs s)" "io s' = io s"
proof -
  let ?ms = "metric_addrs s" and ?pl = "point_addrs s"
  have sh: "db_shape s ?ms ?pl" using inv by (simp add: db_inv_def)
  have st: "store_point name ts v s =
      andthen (case find (\<lambda>m. name_of s m = name) ?ms of
         None \<Rightarrow> andthen (create_new_metric name) (\<lambda>m. andthen (add_database_metric m) (\<lambda>_. ret m))
       | Some m \<Rightarrow> ret m) (\<lambda>m. andthen (create_new_metric_point ts v) (add_database_metric_point m)) s"
    by (simp add: store_point_def andthen_def [of "get_metric _"] get_metric_shape [OF sh])
  show ?thesis
  proof (cases "find (\<lambda>m. name_of s m = name) ?ms")
    case (Some m)
    then have m: "m \<in> set ?ms" "name_of s m = name" by (auto simp: find_Some_iff)
    from add_point_refines [OF sh m(1), of ts v] that show ?thesis
      by (auto simp: st Some m(2))
  next
    case None
    then have new: "name \<notin> name_of s ` set ?ms" by (auto simp: find_None_iff)
    let ?n = "h_fresh s"
    obtain s1 where s1:
      "andthen (create_new_metric name) (\<lambda>m. andthen (add_database_metric m) (\<lambda>_. ret m)) s = Inr (?n, s1)"
      "db_shape s1 (?ms @ [?n]) (?pl(?n := []))"
      "db_view s1 (?ms @ [?n]) (?pl(?n := [])) = db_view s ?ms ?pl @ [(name, [])]" "io s1 = io s"
      by (rule add_metric_shape [OF sh new])
    have nn: "name_of s1 ?n = name" using s1(3) by (simp add: db_view_def)
    obtain s' where s': "andthen (create_new_metric_point ts v) (add_database_metric_point ?n) s1 = Inr ((), s')"
      "db_inv s'" "db_abs s' = record_point name (ts, v) (db_abs s1)" "io s' = io s1"
      using add_point_refines [OF s1(2), of ?n ts v] nn by auto
    have "db_abs s1 = db_abs s @ [(name, [])]"
      unfolding db_shape_inv(2) [OF s1(2)] s1(3) by (simp add: db_abs_def)
    moreover have "name \<notin> fst ` set (db_abs s)" using new by (auto simp: db_abs_def db_view_def)
    ultimately have "db_abs s' = record_point name (ts, v) (db_abs s)"
      using s'(3) by (simp add: record_point_new)
    then show ?thesis
      using that st None s1(1,4) s' by (simp add: andthen_def [of "andthen _ _"])
  qed
qed

section \<open>The interface of the receivers\<close>

text \<open>The points of a metric, in the order they arrived.\<close>

definition points_of :: "string \<Rightarrow> adb \<Rightarrow> (u32 \<times> cdouble) list" where
  "points_of n db = (case map_of db n of None \<Rightarrow> [] | Some ps \<Rightarrow> ps)"

lemma points_of_record [simp]:
  "points_of n (record_point m p db) = points_of n db @ (if n = m then [p] else [])"
  by (induction m p db rule: record_point.induct) (auto simp: points_of_def)

lemma names_record: "fst ` set (record_point n p db) = insert n (fst ` set db)"
  by (induction n p db rule: record_point.induct) auto

lemma distinct_record: "distinct (map fst db) \<Longrightarrow> distinct (map fst (record_point n p db))"
  by (induction n p db rule: record_point.induct) (auto simp: names_record simp flip: image_set)

definition pending :: "adb \<Rightarrow> nat" where
  "pending db = (\<Sum>(n, ps)\<leftarrow>db. length ps)"

lemma pending_record [simp]: "pending (record_point n p db) = Suc (pending db)"
  by (induction n p db rule: record_point.induct) (auto simp: pending_def)

type_synonym sample = "string \<times> u32 \<times> cdouble"

fun put_all :: "(string \<Rightarrow> u32 \<Rightarrow> cdouble \<Rightarrow> ('s, unit) prog) \<Rightarrow> sample list \<Rightarrow> ('s, unit) prog" where
  "put_all put [] = ret ()"
| "put_all put ((n, t, v) # xs) = andthen (put n t v) (\<lambda>_. put_all put xs)"

definition record_all :: "sample list \<Rightarrow> adb \<Rightarrow> adb" where
  "record_all xs db = fold (\<lambda>(n, t, v). record_point n (t, v)) xs db"

text \<open>
  A store of samples: an operation that never fails on a good state and records one
  point. Its clients send it any number of samples.
\<close>

locale metric_store =
  fixes put :: "string \<Rightarrow> u32 \<Rightarrow> cdouble \<Rightarrow> ('s, unit) prog"
    and inv :: "'s \<Rightarrow> bool" and view :: "'s \<Rightarrow> adb"
  assumes put_law: "inv s \<Longrightarrow>
    \<exists>s'. put n t v s = Inr ((), s') \<and> inv s' \<and> view s' = record_point n (t, v) (view s)"
begin

lemma put_all_ok:
  "inv s \<Longrightarrow> \<exists>s'. put_all put xs s = Inr ((), s') \<and> inv s' \<and> view s' = record_all xs (view s)"
proof (induction xs arbitrary: s)
  case Nil
  then show ?case by (simp add: ret_def record_all_def)
next
  case (Cons x xs)
  obtain n t v where x: "x = (n, t, v)" by (cases x)
  obtain s1 where "put n t v s = Inr ((), s1)" "inv s1" "view s1 = record_point n (t, v) (view s)"
    using put_law [OF Cons.prems] by blast
  with Cons.IH [of s1] show ?case by (simp add: x andthen_def record_all_def)
qed

end

interpretation heap_store: metric_store store_point db_inv db_abs
  by unfold_locales (metis store_point_refines)

text \<open>The same store with files and counters held fixed.\<close>

interpretation framed_store: metric_store store_point "\<lambda>s. db_inv s \<and> io s = i" db_abs for i
  by unfold_locales (metis store_point_refines)

lemma points_of_record_all:
  "points_of n (record_all xs db) = points_of n db @ map snd (filter (\<lambda>x. fst x = n) xs)"
  by (induction xs arbitrary: db) (auto simp: record_all_def)

lemma pending_record_all: "pending (record_all xs db) = pending db + length xs"
  by (induction xs arbitrary: db) (auto simp: record_all_def)

text \<open>An empty database.\<close>

lemma database_init_inv:
  "database_init s = Inr ((), s') \<Longrightarrow> db_inv s' \<and> db_abs s' = []"
  by (cases "h_fresh s")
    (auto simp: database_init_def db_inv_def db_shape_def queue_def metric_addrs_def db_abs_def db_view_def)

end
