(* ===== verification/Writer.thy ===== *)
theory Writer
  imports Database
begin

text \<open>
  The writer of \<open>writer.c\<close>: it picks the metric with the most points, writes them to
  disk and empties the metric. The locks are the subject of \<open>Threads\<close>; here the
  operations run by themselves.
\<close>

section \<open>Operations\<close>

text \<open>The loop of \<open>write_metric\<close> over the points, which are freed as they are written.\<close>

fun write_points :: "platform \<Rightarrow> carbon_conf \<Rightarrow> string \<Rightarrow> nat \<Rightarrow> ptr \<Rightarrow> (daemon, unit) prog" where
  "write_points P cf name n None = ret ()"
| "write_points P cf name 0 (Some a) = halt Endless"
| "write_points P cf name (Suc n) (Some a) = (\<lambda>s.
     case h_points s a of None \<Rightarrow> Inl UseAfterFree
     | Some mt_p \<Rightarrow>
         andthen (with_io (whisper_write_value P cf name (mp_timestamp mt_p) (mp_value mt_p)))
           (\<lambda>_ s. write_points P cf name n (mp_next mt_p) (s\<lparr>h_points := (h_points s)(a := None)\<rparr>)) s)"

definition empty_metric :: "addr \<Rightarrow> (daemon, unit) prog" where
  "empty_metric m = (\<lambda>s. case h_metrics s m of None \<Rightarrow> Inl UseAfterFree
     | Some c \<Rightarrow> Inr ((), s\<lparr>h_metrics := (h_metrics s)(m \<mapsto>
         c\<lparr>m_nb_points := 0, m_points := None, m_last := None\<rparr>)\<rparr>))"

definition write_metric :: "platform \<Rightarrow> carbon_conf \<Rightarrow> addr \<Rightarrow> (daemon, unit) prog" where
  "write_metric P cf m = (\<lambda>s. case h_metrics s m of None \<Rightarrow> Inl UseAfterFree
     | Some c \<Rightarrow> andthen (write_points P cf (m_name c) (h_fresh s) (m_points c)) (\<lambda>_. empty_metric m) s)"

fun find_largest_loop :: "metric heap \<Rightarrow> nat \<Rightarrow> ptr \<Rightarrow> ptr \<Rightarrow> u32 \<Rightarrow> stop + ptr" where
  "find_largest_loop h n None max_m max_nb = Inr max_m"
| "find_largest_loop h 0 (Some a) max_m max_nb = Inl Endless"
| "find_largest_loop h (Suc n) (Some a) max_m max_nb =
     (case h a of None \<Rightarrow> Inl UseAfterFree
      | Some cur_m \<Rightarrow>
          if m_nb_points cur_m > max_nb
          then find_largest_loop h n (m_next cur_m) (Some a) (m_nb_points cur_m)
          else find_largest_loop h n (m_next cur_m) max_m max_nb)"

definition find_largest_metric :: "(daemon, ptr) prog" where
  "find_largest_metric = (\<lambda>s. pure_prog (find_largest_loop (h_metrics s) (h_fresh s) (db_first s) None 0) s)"

text \<open>One turn of the loop of \<open>writer_thread\<close>, after the check for a pause: whether it wrote.\<close>

definition writer_turn :: "platform \<Rightarrow> carbon_conf \<Rightarrow> (daemon, bool) prog" where
  "writer_turn P cf =
     andthen find_largest_metric (\<lambda>max_m.
     case max_m of None \<Rightarrow> ret False
     | Some m \<Rightarrow> andthen (write_metric P cf m) (\<lambda>_. ret True))"

section \<open>The largest metric\<close>

text \<open>The first metric of the list with the most points, none if there is no point.\<close>

fun largest :: "(addr \<Rightarrow> u32) \<Rightarrow> addr list \<Rightarrow> ptr \<Rightarrow> u32 \<Rightarrow> ptr" where
  "largest f [] best n = best"
| "largest f (m # ms) best n = (if f m > n then largest f ms (Some m) (f m) else largest f ms best n)"

definition count_of :: "daemon \<Rightarrow> addr \<Rightarrow> u32" where
  "count_of s m = (case h_metrics s m of None \<Rightarrow> 0 | Some c \<Rightarrow> m_nb_points c)"

lemma find_largest_chain:
  "chain m_next (h_metrics s) p ms \<Longrightarrow> length ms \<le> n \<Longrightarrow>
   find_largest_loop (h_metrics s) n p best k = Inr (largest (count_of s) ms best k)"
proof (induction ms arbitrary: n p best k)
  case (Cons m ms)
  then obtain j c where "n = Suc j" "h_metrics s m = Some c" "p = Some m"
    "chain m_next (h_metrics s) (m_next c) ms" "length ms \<le> j"
    by (cases n) (auto split: option.splits)
  with Cons.IH show ?case by (simp add: count_of_def)
qed simp

lemma db_shape_length: "db_shape s ms pl \<Longrightarrow> length ms \<le> h_fresh s"
proof -
  assume sh: "db_shape s ms pl"
  then have "card (set ms) \<le> card {..<h_fresh s}"
    by (intro card_mono) (auto simp: db_shape_def metric_shape_def)
  with sh show ?thesis by (simp add: db_shape_def queue_def distinct_card)
qed

lemma find_largest_shape:
  "db_shape s ms pl \<Longrightarrow> find_largest_metric s = Inr (largest (count_of s) ms None 0, s)"
  using find_largest_chain [of s "db_first s" ms "h_fresh s"] db_shape_length [of s ms pl]
  by (simp add: find_largest_metric_def db_shape_def queue_def pure_prog_def)

text \<open>What \<open>largest\<close> returns, by splitting the list at it.\<close>

definition largest_at :: "(addr \<Rightarrow> u32) \<Rightarrow> addr list \<Rightarrow> addr \<Rightarrow> bool" where
  "largest_at f ms m \<longleftrightarrow> (\<exists>before after. ms = before @ m # after \<and>
     (\<forall>x\<in>set before. f x < f m) \<and> (\<forall>x\<in>set after. f x \<le> f m))"

lemma largest_at_Cons: "f a < f m \<Longrightarrow> largest_at f ms m \<Longrightarrow> largest_at f (a # ms) m"
  unfolding largest_at_def by (metis append_Cons set_ConsD)

lemma largest_cases:
  "(\<forall>m\<in>set ms. f m \<le> n) \<and> largest f ms best n = best \<or>
   (\<exists>m. largest f ms best n = Some m \<and> n < f m \<and> largest_at f ms m)"
proof (induction ms arbitrary: best n)
  case (Cons a ms)
  show ?case
  proof (cases "f a > n")
    case True
    from Cons.IH [where n = "f a" and best = "Some a"] show ?thesis
    proof (elim disjE conjE exE)
      assume "\<forall>m\<in>set ms. f m \<le> f a" "largest f ms (Some a) (f a) = Some a"
      moreover from this have "largest_at f (a # ms) a"
        unfolding largest_at_def by (intro exI [of _ "[]"] exI [of _ ms]) simp
      ultimately show ?thesis using True by auto
    next
      fix m
      assume "largest f ms (Some a) (f a) = Some m" "f a < f m" "largest_at f ms m"
      with True show ?thesis by (auto intro: largest_at_Cons)
    qed
  next
    case False
    from Cons.IH [where n = n and best = best] show ?thesis
    proof (elim disjE conjE exE)
      assume "\<forall>m\<in>set ms. f m \<le> n" "largest f ms best n = best"
      with False show ?thesis by auto
    next
      fix m
      assume m: "largest f ms best n = Some m" "n < f m" "largest_at f ms m"
      with False have "f a < f m" by auto
      with m False show ?thesis by (auto intro: largest_at_Cons)
    qed
  qed
qed simp

section \<open>Writing a metric\<close>

text \<open>The writes of the points, in order.\<close>

fun write_all :: "platform \<Rightarrow> carbon_conf \<Rightarrow> string \<Rightarrow> (u32 \<times> cdouble) list \<Rightarrow> (wsp_state, unit) prog" where
  "write_all P cf name [] = ret ()"
| "write_all P cf name ((t, v) # ps) =
     andthen (whisper_write_value P cf name t v) (\<lambda>_. write_all P cf name ps)"

definition drain :: "string \<Rightarrow> adb \<Rightarrow> adb" where
  "drain n db = map (\<lambda>(m, ps). if m = n then (m, []) else (m, ps)) db"

lemma write_points_chain:
  "chain mp_next (h_points s) p ps \<Longrightarrow> length ps \<le> n \<Longrightarrow> distinct ps \<Longrightarrow>
   write_points P cf name n p s =
     (case write_all P cf name (map (point_of s) ps) (io s) of Inl e \<Rightarrow> Inl e
      | Inr (_, i) \<Rightarrow> Inr ((), s\<lparr>io := i, h_points := (\<lambda>a. if a \<in> set ps then None else h_points s a)\<rparr>))"
proof (induction ps arbitrary: n p s)
  case Nil
  then show ?case by (simp add: ret_def)
next
  case (Cons a ps)
  then obtain k c where k: "n = Suc k" "p = Some a" "h_points s a = Some c" "length ps \<le> k"
    and ch: "chain mp_next (h_points s) (mp_next c) ps"
    by (cases n) (auto split: option.splits)
  have pt: "point_of s a = (mp_timestamp c, mp_value c)" using k by (simp add: point_of_def)
  show ?case
  proof (cases "whisper_write_value P cf name (mp_timestamp c) (mp_value c) (io s)")
    case (Inl e)
    then show ?thesis using k pt by (simp add: andthen_def with_io_def)
  next
    case (Inr r)
    obtain x i where r: "r = (x, i)" by (cases r)
    let ?s = "s\<lparr>io := i, h_points := (h_points s)(a := None)\<rparr>"
    have "chain mp_next (h_points ?s) (mp_next c) ps" using ch Cons.prems(3) by (simp add: chain_upd_other)
    note ih = Cons.IH [OF this k(4)]
    have pts: "map (point_of ?s) ps = map (point_of s) ps"
      using Cons.prems(3) by (auto simp: point_of_def)
    have "write_points P cf name n p s = write_points P cf name k (mp_next c) ?s"
      using k Inr r by (simp add: andthen_def with_io_def)
    also have "\<dots> = (case write_all P cf name (map (point_of s) ps) i of Inl e \<Rightarrow> Inl e
        | Inr (_, j) \<Rightarrow> Inr ((), s\<lparr>io := j, h_points := (\<lambda>b. if b \<in> set (a # ps) then None else h_points s b)\<rparr>))"
      using ih Cons.prems(3) unfolding pts
      by (auto split: sum.splits prod.splits simp: fun_eq_iff intro!: arg_cong2 [where f = "\<lambda>h t. t\<lparr>h_points := h\<rparr>"])
    finally show ?thesis using Inr r pt by (simp add: andthen_def)
  qed
qed

lemma points_of_view:
  assumes "db_shape s ms pl" "m \<in> set ms"
  shows "points_of (name_of s m) (db_view s ms pl) = map (point_of s) (pl m)"
proof -
  have "distinct (map fst (db_view s ms pl))"
    using assms(1) by (simp add: db_view_def db_shape_def comp_def)
  moreover have "(name_of s m, map (point_of s) (pl m)) \<in> set (db_view s ms pl)"
    using assms(2) by (auto simp: db_view_def)
  ultimately have "map_of (db_view s ms pl) (name_of s m) = Some (map (point_of s) (pl m))"
    by (rule map_of_is_SomeI)
  then show ?thesis by (simp add: points_of_def)
qed

text \<open>The heap after the points of \<open>m\<close> were freed and \<open>m\<close> was emptied.\<close>

lemma emptied_shape:
  assumes sh: "db_shape s ms pl" and m: "m \<in> set ms" and c: "h_metrics s m = Some c"
    and s': "s' = s\<lparr>io := i, h_points := (\<lambda>a. if a \<in> set (pl m) then None else h_points s a),
      h_metrics := (h_metrics s)(m \<mapsto> c\<lparr>m_nb_points := 0, m_points := None, m_last := None\<rparr>)\<rparr>"
  shows "db_shape s' ms (pl(m := []))"
    and "db_view s' ms (pl(m := [])) = drain (name_of s m) (db_view s ms pl)"
proof -
  let ?pl = "pl(m := [])"
  have shm: "metric_shape s a (pl a)" if "a \<in> set ms" for a using sh that by (simp add: db_shape_def)
  have apart: "set (pl a) \<inter> set (pl b) = {}" if "a \<in> set ms" "b \<in> set ms" "a \<noteq> b" for a b
    using sh that by (simp add: db_shape_def)
  have names: "name_of s' = name_of s" using c by (auto simp: s' name_of_def fun_eq_iff)
  have kept: "h_points s' p = h_points s p" if "a \<in> set ms" "a \<noteq> m" "p \<in> set (pl a)" for a p
    using apart [OF that(1) m that(2)] that(3) by (auto simp: s')
  have shapes: "metric_shape s' a (?pl a)" if a: "a \<in> set ms" for a
  proof (cases "a = m")
    case True
    then show ?thesis using shm [OF m] by (simp add: s' metric_shape_def queue_def)
  next
    case False
    then have "metric_shape s' a (pl a)"
      using kept [OF a False] by (intro metric_shape_other [OF shm [OF a]]) (simp_all add: s')
    then show ?thesis using False by simp
  qed
  show "db_shape s' ms ?pl"
    unfolding db_shape_def
  proof (intro conjI)
    show "queue m_next (h_metrics s') (db_first s') (db_last s') ms"
      using queue_same_next [of m_next "h_metrics s" "db_first s" "db_last s" ms m c] sh c
      by (simp add: db_shape_def s')
    show "\<forall>m\<in>set ms. metric_shape s' m (?pl m)" using shapes by blast
    show "\<forall>a\<in>set ms. \<forall>b\<in>set ms. a \<noteq> b \<longrightarrow> set (?pl a) \<inter> set (?pl b) = {}"
      using apart by auto
    show "distinct (map (name_of s') ms)" using sh unfolding names by (simp add: db_shape_def)
  qed
  have inj: "name_of s a = name_of s m \<longleftrightarrow> a = m" if "a \<in> set ms" for a
    using sh m that by (auto simp: db_shape_def distinct_map dest: inj_onD)
  have "map (point_of s') (pl a) = map (point_of s) (pl a)" if "a \<in> set ms" "a \<noteq> m" for a
    using kept [OF that] by (simp add: point_of_def)
  then show "db_view s' ms ?pl = drain (name_of s m) (db_view s ms pl)"
    using inj by (auto simp: db_view_def drain_def names)
qed

lemma write_metric_refines:
  assumes inv: "db_inv s" and m: "m \<in> set (metric_addrs s)" and n: "n = name_of s m"
  shows "write_all P cf n (points_of n (db_abs s)) (io s) = Inl e \<Longrightarrow> write_metric P cf m s = Inl e"
    and "write_all P cf n (points_of n (db_abs s)) (io s) = Inr (u, i) \<Longrightarrow>
      \<exists>s'. write_metric P cf m s = Inr ((), s') \<and> db_inv s' \<and> db_abs s' = drain n (db_abs s) \<and> io s' = i"
proof -
  let ?ms = "metric_addrs s" and ?pl = "point_addrs s"
  have sh: "db_shape s ?ms ?pl" using inv by (simp add: db_inv_def)
  then have shm: "metric_shape s m (?pl m)" using m by (simp add: db_shape_def)
  then obtain c where c: "h_metrics s m = Some c" "m_name c = n"
    by (auto simp: metric_shape_def n name_of_def split: option.splits)
  have q: "queue mp_next (h_points s) (m_points c) (m_last c) (?pl m)" "\<forall>p\<in>set (?pl m). p < h_fresh s"
    using shm c by (simp_all add: metric_shape_def)
  have "card (set (?pl m)) \<le> card {..<h_fresh s}" using q(2) by (intro card_mono) auto
  then have len: "length (?pl m) \<le> h_fresh s" using q(1) by (simp add: queue_def distinct_card)
  have pts: "points_of n (db_abs s) = map (point_of s) (?pl m)"
    using points_of_view [OF sh m] by (simp add: n db_abs_def)
  have run: "write_metric P cf m s = andthen (write_points P cf n (h_fresh s) (m_points c)) (\<lambda>_. empty_metric m) s"
    using c by (simp add: write_metric_def)
  have wp: "write_points P cf n (h_fresh s) (m_points c) s =
     (case write_all P cf n (points_of n (db_abs s)) (io s) of Inl e \<Rightarrow> Inl e
      | Inr (_, i) \<Rightarrow> Inr ((), s\<lparr>io := i, h_points := (\<lambda>a. if a \<in> set (?pl m) then None else h_points s a)\<rparr>))"
    unfolding pts using q(1) len by (intro write_points_chain) (simp_all add: queue_def)
  show "write_all P cf n (points_of n (db_abs s)) (io s) = Inl e \<Longrightarrow> write_metric P cf m s = Inl e"
    using run wp by (simp add: andthen_def)
  assume w: "write_all P cf n (points_of n (db_abs s)) (io s) = Inr (u, i)"
  let ?s = "s\<lparr>io := i, h_points := (\<lambda>a. if a \<in> set (?pl m) then None else h_points s a),
    h_metrics := (h_metrics s)(m \<mapsto> c\<lparr>m_nb_points := 0, m_points := None, m_last := None\<rparr>)\<rparr>"
  have "write_metric P cf m s = Inr ((), ?s)"
    using run wp w c by (simp add: andthen_def empty_metric_def)
  moreover note sh' = emptied_shape [OF sh m c(1) refl, of i]
  moreover have "db_abs ?s = drain n (db_abs s)"
    unfolding db_shape_inv(2) [OF sh'(1)] sh'(2) by (simp add: n db_abs_def)
  ultimately show "\<exists>s'. write_metric P cf m s = Inr ((), s') \<and> db_inv s' \<and> db_abs s' = drain n (db_abs s) \<and> io s' = i"
    using db_shape_inv(1) by (intro exI [of _ ?s]) auto
qed

section \<open>The writer's loop\<close>

text \<open>No metric has so many points that its 32-bit counter wraps.\<close>

definition counts_fit :: "adb \<Rightarrow> bool" where
  "counts_fit db \<longleftrightarrow> (\<forall>(n, ps)\<in>set db. length ps < 2 ^ 32)"

lemma count_of_view:
  assumes "db_inv s" "m \<in> set (metric_addrs s)" "counts_fit (db_abs s)"
  shows "unat (count_of s m) = length (points_of (name_of s m) (db_abs s))"
proof -
  have sh: "db_shape s (metric_addrs s) (point_addrs s)" using assms(1) by (simp add: db_inv_def)
  then have shm: "metric_shape s m (point_addrs s m)" using assms(2) by (simp add: db_shape_def)
  have "(name_of s m, map (point_of s) (point_addrs s m)) \<in> set (db_abs s)"
    using assms(2) by (auto simp: db_abs_def db_view_def)
  then have "length (point_addrs s m) < 2 ^ 32" using assms(3) by (auto simp: counts_fit_def)
  moreover have "count_of s m = of_nat (length (point_addrs s m))"
    using shm by (auto simp: count_of_def metric_shape_def split: option.splits)
  ultimately show ?thesis
    using points_of_view [OF sh assms(2)]
    by (simp add: db_abs_def unat_of_nat take_bit_nat_eq_self)
qed

lemma db_abs_names: "fst ` set (db_abs s) = name_of s ` set (metric_addrs s)"
  by (auto simp: db_abs_def db_view_def image_iff)

lemma db_abs_entry:
  assumes "db_inv s" "(n, ps) \<in> set (db_abs s)"
  shows "points_of n (db_abs s) = ps"
proof -
  have "distinct (map fst (db_abs s))"
    using assms(1) by (simp add: db_inv_def db_shape_def db_abs_def db_view_def comp_def)
  then show ?thesis using assms(2) by (simp add: points_of_def map_of_is_SomeI)
qed

lemma largest_empty:
  assumes inv: "db_inv s" and fit: "counts_fit (db_abs s)"
    and all: "\<forall>m\<in>set (metric_addrs s). count_of s m \<le> 0"
  shows "pending (db_abs s) = 0"
proof -
  have "ps = []" if x: "(n, ps) \<in> set (db_abs s)" for n ps
  proof -
    have "n \<in> name_of s ` set (metric_addrs s)" using x unfolding db_abs_names [symmetric] by force
    then obtain m where m: "m \<in> set (metric_addrs s)" "n = name_of s m" by blast
    have "count_of s m = 0" using all m(1) by simp
    then show ?thesis
      using count_of_view [OF inv m(1) fit] db_abs_entry [OF inv x] m(2) by simp
  qed
  then show ?thesis by (fastforce simp: pending_def)
qed

text \<open>
  One turn: nothing to do, or the points of a metric with the most points are
  written and it is emptied; the process stops only if a write stops it.
\<close>

lemma writer_turn_refines:
  assumes inv: "db_inv s" and fit: "counts_fit (db_abs s)"
  shows "pending (db_abs s) = 0 \<and> writer_turn P cf s = Inr (False, s) \<or>
    (\<exists>n\<in>fst ` set (db_abs s). points_of n (db_abs s) \<noteq> [] \<and>
       (\<forall>k\<in>fst ` set (db_abs s). length (points_of k (db_abs s)) \<le> length (points_of n (db_abs s))) \<and>
       (case write_all P cf n (points_of n (db_abs s)) (io s) of
          Inl e \<Rightarrow> writer_turn P cf s = Inl e
        | Inr (_, i) \<Rightarrow> \<exists>s'. writer_turn P cf s = Inr (True, s') \<and> db_inv s' \<and>
            db_abs s' = drain n (db_abs s) \<and> io s' = i))"
proof -
  let ?ms = "metric_addrs s"
  have sh: "db_shape s ?ms (point_addrs s)" using inv by (simp add: db_inv_def)
  note fl = find_largest_shape [OF sh]
  consider "\<forall>m\<in>set ?ms. count_of s m \<le> 0" "largest (count_of s) ?ms None 0 = None"
    | m where "largest (count_of s) ?ms None 0 = Some m" "0 < count_of s m" "largest_at (count_of s) ?ms m"
    using largest_cases [of ?ms "count_of s" 0 None] by (elim disjE conjE exE) simp_all
  then show ?thesis
  proof cases
    case 1
    then show ?thesis
      using largest_empty [OF inv fit 1(1)] fl by (simp add: writer_turn_def andthen_def ret_def)
  next
    case (2 m)
    then have m: "m \<in> set ?ms" and le: "\<forall>x\<in>set ?ms. count_of s x \<le> count_of s m"
      by (auto simp: largest_at_def less_imp_le)
    let ?n = "name_of s m"
    have turn: "writer_turn P cf s = andthen (write_metric P cf m) (\<lambda>_. ret True) s"
      using fl 2(1) by (simp add: writer_turn_def andthen_def)
    have "length (points_of k (db_abs s)) \<le> length (points_of ?n (db_abs s))"
      if k: "k \<in> fst ` set (db_abs s)" for k
    proof -
      obtain x where "x \<in> set ?ms" "k = name_of s x" using k unfolding db_abs_names by blast
      then show ?thesis
        using le count_of_view [OF inv _ fit] m by (metis word_le_nat_alt)
    qed
    moreover have "points_of ?n (db_abs s) \<noteq> []"
      using count_of_view [OF inv m fit] 2(2) by (auto simp: word_less_nat_alt)
    moreover have "?n \<in> fst ` set (db_abs s)" using m unfolding db_abs_names by blast
    moreover have "case write_all P cf ?n (points_of ?n (db_abs s)) (io s) of
          Inl e \<Rightarrow> writer_turn P cf s = Inl e
        | Inr (_, i) \<Rightarrow> \<exists>s'. writer_turn P cf s = Inr (True, s') \<and> db_inv s' \<and>
            db_abs s' = drain ?n (db_abs s) \<and> io s' = i"
      using write_metric_refines [OF inv m refl, of P cf]
      by (fastforce simp: turn andthen_def ret_def split: sum.splits prod.splits)
    ultimately show ?thesis by blast
  qed
qed

text \<open>
  The backlog is written in as many turns as there are metrics with points: every
  turn empties one, and none is filled.
\<close>

fun writer_turns :: "platform \<Rightarrow> carbon_conf \<Rightarrow> nat \<Rightarrow> (daemon, unit) prog" where
  "writer_turns P cf 0 = ret ()"
| "writer_turns P cf (Suc k) = andthen (writer_turn P cf) (\<lambda>_. writer_turns P cf k)"

definition backlog :: "adb \<Rightarrow> nat" where
  "backlog db = length (filter (\<lambda>(n, ps). ps \<noteq> []) db)"

lemma backlog_pending: "backlog db = 0 \<longleftrightarrow> pending db = 0"
  by (auto simp: backlog_def pending_def filter_empty_conv)

lemma backlog_drain_outside: "n \<notin> fst ` set db \<Longrightarrow> drain n db = db"
  by (induction db) (auto simp: drain_def)

lemma backlog_drain:
  "distinct (map fst db) \<Longrightarrow> n \<in> fst ` set db \<Longrightarrow> points_of n db \<noteq> [] \<Longrightarrow> backlog db = Suc (backlog (drain n db))"
proof (induction db)
  case (Cons x db)
  obtain m ps where x: "x = (m, ps)" by (cases x)
  show ?case
  proof (cases "m = n")
    case True
    then have "drain n db = db" using Cons.prems(1) x by (intro backlog_drain_outside) auto
    then have "drain n (x # db) = (n, []) # db" using True x by (simp add: drain_def)
    then show ?thesis using True Cons.prems(3) x by (simp add: backlog_def points_of_def)
  next
    case False
    then have "backlog db = Suc (backlog (drain n db))"
      using Cons x by (auto simp: points_of_def)
    then show ?thesis using False x by (simp add: backlog_def drain_def)
  qed
qed simp

lemma counts_fit_drain: "counts_fit db \<Longrightarrow> counts_fit (drain n db)"
  by (auto simp: counts_fit_def drain_def split: if_splits)

lemma writer_turns_backlog:
  "db_inv s \<Longrightarrow> counts_fit (db_abs s) \<Longrightarrow>
   (\<exists>e n ps i. writer_turns P cf k s = Inl e \<and> write_all P cf n ps i = Inl e) \<or>
   (\<exists>s'. writer_turns P cf k s = Inr ((), s') \<and> db_inv s' \<and> backlog (db_abs s') = backlog (db_abs s) - k)"
proof (induction k arbitrary: s)
  case 0
  then show ?case by (simp add: ret_def)
next
  case (Suc k)
  from writer_turn_refines [OF Suc.prems, of P cf] show ?case
  proof (elim disjE conjE bexE)
    assume t: "pending (db_abs s) = 0" "writer_turn P cf s = Inr (False, s)"
    then have "backlog (db_abs s) = 0" by (simp add: backlog_pending)
    with Suc.IH [OF Suc.prems] t(2) show ?thesis by (auto simp: andthen_def)
  next
    fix n
    assume n: "n \<in> fst ` set (db_abs s)" "points_of n (db_abs s) \<noteq> []"
      and c: "case write_all P cf n (points_of n (db_abs s)) (io s) of
          Inl e \<Rightarrow> writer_turn P cf s = Inl e
        | Inr (_, i) \<Rightarrow> \<exists>s'. writer_turn P cf s = Inr (True, s') \<and> db_inv s' \<and>
            db_abs s' = drain n (db_abs s) \<and> io s' = i"
    have dist: "distinct (map fst (db_abs s))"
      using Suc.prems(1) by (simp add: db_inv_def db_shape_def db_abs_def db_view_def comp_def)
    note b = backlog_drain [OF dist n]
    show ?thesis
    proof (cases "write_all P cf n (points_of n (db_abs s)) (io s)")
      case (Inl e)
      then have "writer_turns P cf (Suc k) s = Inl e" using c by (simp add: andthen_def)
      then show ?thesis using Inl by blast
    next
      case (Inr r)
      then obtain s1 where s1: "writer_turn P cf s = Inr (True, s1)" "db_inv s1"
        "db_abs s1 = drain n (db_abs s)" using c by (auto split: prod.splits)
      have "counts_fit (db_abs s1)" using Suc.prems(2) by (simp add: s1(3) counts_fit_drain)
      from Suc.IH [OF s1(2) this] s1(1,3) b show ?thesis by (auto simp: andthen_def)
    qed
  qed
qed

end
