(* ===== verification/Writer_Race.thy ===== *)
theory Writer_Race
  imports Writer
begin

text \<open>
  The writer and the receivers at the same metric. \<open>write_metric\<close> of \<open>writer.c\<close> is cut into
  the steps between which a receiver can run; a receiver stores a whole point at once,
  since it never takes the lock of the metric. A schedule says who runs next. The writer
  alone does what \<open>writer_turn\<close> does; a store in between can be lost or hit freed memory.
\<close>

section \<open>State\<close>

text \<open>
  Where the writer is: before \<open>find_largest_metric\<close>; at the test of \<open>mt_p\<close>; about to
  write, with \<open>mt_p_next\<close> read; about to free; and before the three assignments that
  empty the metric.
\<close>

datatype writer_pos = Resting | Fetch addr ptr | Writing addr addr ptr | Freeing addr addr ptr
  | Clear_nb addr | Clear_points addr | Clear_last addr

text \<open>The daemon, the place of the writer, and what was passed to the storage so far.\<close>

record shared =
  sh_daemon :: daemon
  sh_pos :: writer_pos
  sh_written :: "sample list"

section \<open>Steps\<close>

definition update_metric :: "addr \<Rightarrow> (metric \<Rightarrow> metric) \<Rightarrow> daemon \<Rightarrow> stop + daemon" where
  "update_metric m f d = (case h_metrics d m of None \<Rightarrow> Inl UseAfterFree
     | Some c \<Rightarrow> Inr (d\<lparr>h_metrics := (h_metrics d)(m \<mapsto> f c)\<rparr>))"

definition write_step :: "platform \<Rightarrow> carbon_conf \<Rightarrow> addr \<Rightarrow> addr \<Rightarrow> ptr \<Rightarrow> shared \<Rightarrow> stop + shared" where
  "write_step P cf m a nx s =
     (let d = sh_daemon s
      in case (h_metrics d m, h_points d a) of
           (Some c, Some mt_p) \<Rightarrow>
             bind_sum (whisper_write_value P cf (m_name c) (mp_timestamp mt_p) (mp_value mt_p) (io d)) (\<lambda>(_, i).
             Inr (s\<lparr>sh_daemon := d\<lparr>io := i\<rparr>, sh_pos := Freeing m a nx,
                    sh_written := sh_written s @ [(m_name c, mp_timestamp mt_p, mp_value mt_p)]\<rparr>))
         | _ \<Rightarrow> Inl UseAfterFree)"

definition writer_step :: "platform \<Rightarrow> carbon_conf \<Rightarrow> shared \<Rightarrow> stop + shared" where
  "writer_step P cf s =
     (let d = sh_daemon s
      in case sh_pos s of
           Resting \<Rightarrow>
             bind_sum (find_largest_metric d) (\<lambda>(max_m, _).
             case max_m of None \<Rightarrow> Inr s
             | Some m \<Rightarrow> (case h_metrics d m of None \<Rightarrow> Inl UseAfterFree
                 | Some c \<Rightarrow> Inr (s\<lparr>sh_pos := Fetch m (m_points c)\<rparr>)))
         | Fetch m None \<Rightarrow> Inr (s\<lparr>sh_pos := Clear_nb m\<rparr>)
         | Fetch m (Some a) \<Rightarrow>
             (case h_points d a of None \<Rightarrow> Inl UseAfterFree
              | Some mt_p \<Rightarrow> Inr (s\<lparr>sh_pos := Writing m a (mp_next mt_p)\<rparr>))
         | Writing m a nx \<Rightarrow> write_step P cf m a nx s
         | Freeing m a nx \<Rightarrow>
             Inr (s\<lparr>sh_daemon := d\<lparr>h_points := (h_points d)(a := None)\<rparr>, sh_pos := Fetch m nx\<rparr>)
         | Clear_nb m \<Rightarrow>
             bind_sum (update_metric m (\<lambda>c. c\<lparr>m_nb_points := 0\<rparr>) d) (\<lambda>d.
             Inr (s\<lparr>sh_daemon := d, sh_pos := Clear_points m\<rparr>))
         | Clear_points m \<Rightarrow>
             bind_sum (update_metric m (\<lambda>c. c\<lparr>m_points := None\<rparr>) d) (\<lambda>d.
             Inr (s\<lparr>sh_daemon := d, sh_pos := Clear_last m\<rparr>))
         | Clear_last m \<Rightarrow>
             bind_sum (update_metric m (\<lambda>c. c\<lparr>m_last := None\<rparr>) d) (\<lambda>d.
             Inr (s\<lparr>sh_daemon := d, sh_pos := Resting\<rparr>)))"

datatype event = Step | Store string u32 cdouble

fun schedule :: "platform \<Rightarrow> carbon_conf \<Rightarrow> event list \<Rightarrow> shared \<Rightarrow> stop + shared" where
  "schedule P cf [] s = Inr s"
| "schedule P cf (Step # es) s = bind_sum (writer_step P cf s) (schedule P cf es)"
| "schedule P cf (Store n t v # es) s =
     bind_sum (store_point n t v (sh_daemon s)) (\<lambda>(_, d). schedule P cf es (s\<lparr>sh_daemon := d\<rparr>))"

lemma schedule_append:
  "schedule P cf (es @ fs) s = bind_sum (schedule P cf es s) (schedule P cf fs)"
  by (induction P cf es s rule: schedule.induct) (auto simp: bind_sum_def split: sum.splits)

lemma schedule_steps:
  "schedule P cf (replicate j Step) s = Inr s' \<Longrightarrow> schedule P cf (replicate k Step) s' = r \<Longrightarrow>
   schedule P cf (replicate (j + k) Step) s = r"
  by (simp add: replicate_add schedule_append bind_sum_def)

section \<open>The writer alone\<close>

text \<open>The samples at a list of addresses, for a metric name.\<close>

definition samples_at :: "daemon \<Rightarrow> string \<Rightarrow> addr list \<Rightarrow> sample list" where
  "samples_at d n ps = map (\<lambda>a. (n, point_of d a)) ps"

lemma points_alone:
  "write_points P cf (m_name c) n p d = Inr ((), d') \<Longrightarrow> h_metrics d m = Some c \<Longrightarrow>
   chain mp_next (h_points d) p ps \<Longrightarrow> distinct ps \<Longrightarrow>
    h_metrics d' = h_metrics d \<and>
    (\<exists>k. schedule P cf (replicate k Step) \<lparr>sh_daemon = d, sh_pos = Fetch m p, sh_written = w\<rparr> =
      Inr \<lparr>sh_daemon = d', sh_pos = Fetch m None, sh_written = w @ samples_at d (m_name c) ps\<rparr>)"
proof (induction ps arbitrary: n p d w)
  case Nil
  then have "d' = d" by (simp add: ret_def)
  with Nil show ?case by (auto simp: samples_at_def intro!: exI [of _ 0])
next
  case (Cons a ps)
  obtain q where q: "h_points d a = Some q" "p = Some a" "chain mp_next (h_points d) (mp_next q) ps"
    using Cons.prems(3) by (auto split: option.splits)
  obtain j where j: "n = Suc j" using Cons.prems(1) q(2) by (cases n) (auto simp: halt_def)
  obtain r i where w: "whisper_write_value P cf (m_name c) (mp_timestamp q) (mp_value q) (io d) = Inr (r, i)"
    using Cons.prems(1) q j
    by (cases "whisper_write_value P cf (m_name c) (mp_timestamp q) (mp_value q) (io d)")
      (auto simp: andthen_def with_io_def)
  let ?d = "d\<lparr>io := i, h_points := (h_points d)(a := None)\<rparr>"
  let ?w = "w @ [(m_name c, mp_timestamp q, mp_value q)]"
  have rest: "write_points P cf (m_name c) j (mp_next q) ?d = Inr ((), d')" "h_metrics ?d m = Some c"
    using Cons.prems q j w by (simp_all add: andthen_def with_io_def)
  have tail: "chain mp_next (h_points ?d) (mp_next q) ps" "distinct ps"
    using q(3) Cons.prems(4) by (simp_all add: chain_upd_other)
  have smp: "?w @ samples_at ?d (m_name c) ps = w @ samples_at d (m_name c) (a # ps)"
    using Cons.prems(4) q(1) by (auto simp: samples_at_def point_of_def)
  have "schedule P cf (replicate 3 Step) \<lparr>sh_daemon = d, sh_pos = Fetch m p, sh_written = w\<rparr> =
      Inr \<lparr>sh_daemon = ?d, sh_pos = Fetch m (mp_next q), sh_written = ?w\<rparr>"
    using q w Cons.prems(2)
    by (simp add: numeral_3_eq_3 writer_step_def write_step_def bind_sum_def)
  moreover obtain k where
    "schedule P cf (replicate k Step) \<lparr>sh_daemon = ?d, sh_pos = Fetch m (mp_next q), sh_written = ?w\<rparr> =
      Inr \<lparr>sh_daemon = d', sh_pos = Fetch m None, sh_written = ?w @ samples_at ?d (m_name c) ps\<rparr>"
    "h_metrics d' = h_metrics ?d"
    using Cons.IH [OF rest tail, of ?w] by blast
  ultimately show ?case unfolding smp using schedule_steps by fastforce
qed

text \<open>Picking a metric, and emptying it.\<close>

lemma pick_step:
  assumes "find_largest_metric d = Inr (Some m, d)" "h_metrics d m = Some c"
  shows "schedule P cf (Step # es) \<lparr>sh_daemon = d, sh_pos = Resting, sh_written = w\<rparr> =
    schedule P cf es \<lparr>sh_daemon = d, sh_pos = Fetch m (m_points c), sh_written = w\<rparr>"
  using assms by (simp add: writer_step_def bind_sum_def)

lemma clear_steps:
  assumes "h_metrics d m = Some c"
  shows "schedule P cf (replicate 4 Step) \<lparr>sh_daemon = d, sh_pos = Fetch m None, sh_written = w\<rparr> =
    Inr \<lparr>sh_daemon = d\<lparr>h_metrics := (h_metrics d)(m \<mapsto> c\<lparr>m_nb_points := 0, m_points := None, m_last := None\<rparr>)\<rparr>,
      sh_pos = Resting, sh_written = w\<rparr>"
  using assms by (simp add: numeral_eq_Suc writer_step_def update_metric_def bind_sum_def)

lemma turn_alone:
  assumes inv: "db_inv d" and turn: "writer_turn P cf d = Inr (True, d')"
  shows "\<exists>k n. schedule P cf (replicate k Step) \<lparr>sh_daemon = d, sh_pos = Resting, sh_written = w\<rparr> =
      Inr \<lparr>sh_daemon = d', sh_pos = Resting, sh_written = w @ map (Pair n) (points_of n (db_abs d))\<rparr>"
proof -
  have sh: "db_shape d (metric_addrs d) (point_addrs d)" using inv by (simp add: db_inv_def)
  obtain m where m: "find_largest_metric d = Inr (Some m, d)" "write_metric P cf m d = Inr ((), d')"
    using turn by (auto simp: writer_turn_def andthen_def find_largest_metric_def pure_prog_def ret_def
        split: sum.splits option.splits)
  have mem: "m \<in> set (metric_addrs d)"
    using m(1) find_largest_shape [OF sh] largest_cases [of "metric_addrs d" "count_of d" 0 None]
    by (auto simp: largest_at_def)
  obtain c where c: "h_metrics d m = Some c" using m(2) by (cases "h_metrics d m") (auto simp: write_metric_def)
  have q: "chain mp_next (h_points d) (m_points c) (point_addrs d m)" "distinct (point_addrs d m)"
    using sh mem c by (auto simp: db_shape_def metric_shape_def queue_def)
  obtain d1 where d1: "write_points P cf (m_name c) (h_fresh d) (m_points c) d = Inr ((), d1)"
      "empty_metric m d1 = Inr ((), d')"
    using m(2) c by (auto simp: write_metric_def andthen_def split: sum.splits)
  have pts: "samples_at d (m_name c) (point_addrs d m) = map (Pair (m_name c)) (points_of (m_name c) (db_abs d))"
    using points_of_view [OF sh mem] c by (simp add: samples_at_def db_abs_def name_of_def)
  obtain k where k: "schedule P cf (replicate k Step)
      \<lparr>sh_daemon = d, sh_pos = Fetch m (m_points c), sh_written = w\<rparr> =
        Inr \<lparr>sh_daemon = d1, sh_pos = Fetch m None, sh_written = w @ samples_at d (m_name c) (point_addrs d m)\<rparr>"
    and c1: "h_metrics d1 m = Some c"
    using points_alone [OF d1(1) c q, of w] c by auto
  have "schedule P cf (replicate (Suc (k + 4)) Step) \<lparr>sh_daemon = d, sh_pos = Resting, sh_written = w\<rparr> =
      Inr \<lparr>sh_daemon = d', sh_pos = Resting, sh_written = w @ samples_at d (m_name c) (point_addrs d m)\<rparr>"
    unfolding replicate_Suc pick_step [OF m(1) c]
    by (rule schedule_steps [OF k]) (use clear_steps [OF c1] d1(2) c1 in \<open>simp add: empty_metric_def\<close>)
  then show ?thesis unfolding pts by blast
qed

section \<open>A store in between\<close>

text \<open>The heap of a database with one metric of one point.\<close>

lemma single_point:
  assumes inv: "db_inv d" and abs: "db_abs d = [(n, [(t0, v0)])]"
  obtains m a where
    "h_metrics d m = Some \<lparr>m_name = n, m_nb_points = 1, m_points = Some a, m_last = Some a, m_next = None\<rparr>"
    "h_points d a = Some \<lparr>mp_timestamp = t0, mp_value = v0, mp_next = None\<rparr>"
    "db_first d = Some m" "db_last d = Some m" "m < h_fresh d" "a < h_fresh d"
proof -
  have sh: "db_shape d (metric_addrs d) (point_addrs d)" using inv by (simp add: db_inv_def)
  obtain m where ms: "metric_addrs d = [m]" and nm: "name_of d m = n"
      "map (point_of d) (point_addrs d m) = [(t0, v0)]"
    using abs by (auto simp: db_abs_def db_view_def)
  then obtain a where a: "point_addrs d m = [a]" "point_of d a = (t0, v0)" by auto
  have shm: "metric_shape d m [a]" and q: "queue m_next (h_metrics d) (db_first d) (db_last d) [m]"
    using sh ms a by (simp_all add: db_shape_def)
  obtain c where c: "h_metrics d m = Some c" using shm by (auto simp: metric_shape_def split: option.splits)
  obtain p where p: "h_points d a = Some p" using shm c by (auto simp: metric_shape_def queue_def split: option.splits)
  have "c = \<lparr>m_name = n, m_nb_points = 1, m_points = Some a, m_last = Some a, m_next = None\<rparr>"
    using shm q c p nm(1) by (cases c) (auto simp: metric_shape_def queue_def name_of_def)
  moreover have "p = \<lparr>mp_timestamp = t0, mp_value = v0, mp_next = None\<rparr>"
    using shm c p a(2) by (cases p) (auto simp: metric_shape_def queue_def point_of_def)
  moreover have "db_first d = Some m" "db_last d = Some m" using q c by (auto simp: queue_def)
  moreover have "m < h_fresh d" "a < h_fresh d" using shm by (auto simp: metric_shape_def)
  ultimately show ?thesis using that c p by blast
qed

lemma get_metric_single:
  assumes "h_metrics d m = Some c" "db_first d = Some m" "m < h_fresh d" "m_name c = n"
  shows "get_metric n d = Inr (Some m, d)"
proof -
  obtain k where k: "h_fresh d = Suc k" using assms(3) by (cases "h_fresh d") auto
  show ?thesis
    using assms names_equal [of n n] by (simp add: get_metric_def pure_prog_def k)
qed

lemma find_largest_single:
  assumes "h_metrics d m = Some c" "db_first d = Some m" "m < h_fresh d" "m_next c = None" "m_nb_points c = 1"
  shows "find_largest_metric d = Inr (Some m, d)"
proof -
  obtain k where k: "h_fresh d = Suc k" using assms(3) by (cases "h_fresh d") auto
  show ?thesis using assms by (simp add: find_largest_metric_def pure_prog_def k)
qed

text \<open>A store to that metric after its address was looked up: the point goes behind the last one.\<close>

lemma store_point_found:
  assumes "get_metric n d = Inr (Some m, d)" "h_metrics d m = Some c" "m_last c = Some l"
  shows "store_point n t v d =
    (let hp = (h_points d)(h_fresh d \<mapsto> \<lparr>mp_timestamp = t, mp_value = v, mp_next = None\<rparr>)
     in case hp l of None \<Rightarrow> Inl UseAfterFree
        | Some q \<Rightarrow> Inr ((), d\<lparr>h_points := hp(l \<mapsto> q\<lparr>mp_next := Some (h_fresh d)\<rparr>), h_fresh := Suc (h_fresh d),
            h_metrics := (h_metrics d)(m \<mapsto> c\<lparr>m_last := Some (h_fresh d), m_nb_points := m_nb_points c + 1\<rparr>)\<rparr>))"
  using assms
  by (simp add: store_point_def andthen_def ret_def create_new_metric_point_def add_database_metric_point_def Let_def
      split: option.splits)

text \<open>The store comes after \<open>mt_p_next\<close> was read: the new point is never seen by the writer.\<close>

lemma store_lost:
  assumes inv: "db_inv d" and abs: "db_abs d = [(n, [(t0, v0)])]"
    and w: "whisper_write_value P cf n t0 v0 (io d) = Inr (r, i)"
  shows "\<exists>s. schedule P cf [Step, Step, Store n t v, Step, Step, Step, Step, Step, Step]
      \<lparr>sh_daemon = d, sh_pos = Resting, sh_written = []\<rparr> = Inr s \<and>
    sh_pos s = Resting \<and> sh_written s = [(n, t0, v0)] \<and>
    db_inv (sh_daemon s) \<and> db_abs (sh_daemon s) = [(n, [])]"
proof -
  obtain m a where m: "h_metrics d m = Some \<lparr>m_name = n, m_nb_points = 1, m_points = Some a, m_last = Some a, m_next = None\<rparr>"
    and a: "h_points d a = Some \<lparr>mp_timestamp = t0, mp_value = v0, mp_next = None\<rparr>"
    and db: "db_first d = Some m" "db_last d = Some m" "m < h_fresh d" "a < h_fresh d"
    by (rule single_point [OF inv abs])
  let ?b = "h_fresh d"
  let ?d1 = "d\<lparr>h_points := (h_points d)(?b \<mapsto> \<lparr>mp_timestamp = t, mp_value = v, mp_next = None\<rparr>,
        a \<mapsto> \<lparr>mp_timestamp = t0, mp_value = v0, mp_next = Some ?b\<rparr>), h_fresh := Suc ?b,
      h_metrics := (h_metrics d)(m \<mapsto> \<lparr>m_name = n, m_nb_points = 1 + 1, m_points = Some a, m_last = Some ?b, m_next = None\<rparr>)\<rparr>"
  let ?d2 = "?d1\<lparr>io := i, h_points := (h_points ?d1)(a := None)\<rparr>"
  let ?c = "\<lparr>m_name = n, m_nb_points = 0, m_points = None, m_last = None, m_next = None\<rparr> :: metric"
  let ?d3 = "?d2\<lparr>h_metrics := (h_metrics ?d2)(m \<mapsto> ?c)\<rparr>"
  have store: "store_point n t v d = Inr ((), ?d1)"
    using store_point_found [OF get_metric_single [OF m db(1,3)] m, where n = n and l = a and t = t and v = v] a db(4)
    by simp
  have "find_largest_metric d = Inr (Some m, d)"
    using find_largest_single [OF m db(1,3)] by simp
  then have "schedule P cf [Step, Step, Store n t v, Step, Step]
      \<lparr>sh_daemon = d, sh_pos = Resting, sh_written = []\<rparr> =
      Inr \<lparr>sh_daemon = ?d2, sh_pos = Fetch m None, sh_written = [(n, t0, v0)]\<rparr>"
    using m a w store by (simp add: writer_step_def write_step_def bind_sum_def)
  moreover have "schedule P cf [Step, Step, Step, Step] \<lparr>sh_daemon = ?d2, sh_pos = Fetch m None, sh_written = [(n, t0, v0)]\<rparr> =
      Inr \<lparr>sh_daemon = ?d3, sh_pos = Resting, sh_written = [(n, t0, v0)]\<rparr>"
    using clear_steps [of ?d2 m] by (simp add: numeral_eq_Suc)
  ultimately have run: "schedule P cf ([Step, Step, Store n t v, Step, Step] @ [Step, Step, Step, Step])
      \<lparr>sh_daemon = d, sh_pos = Resting, sh_written = []\<rparr> =
      Inr \<lparr>sh_daemon = ?d3, sh_pos = Resting, sh_written = [(n, t0, v0)]\<rparr>"
    unfolding schedule_append by (simp only: bind_sum_def sum.case)
  have sh: "db_shape ?d3 [m] (\<lambda>_. [])"
    using db by (simp add: db_shape_def queue_def metric_shape_def)
  have "db_abs ?d3 = [(n, [])]"
    unfolding db_shape_inv(2) [OF sh] by (simp add: db_view_def name_of_def)
  then show ?thesis
    using run db_shape_inv(1) [OF sh] by simp
qed

text \<open>The store comes after the last point was freed: \<open>last\<close> still points to it.\<close>

lemma store_after_free:
  assumes inv: "db_inv d" and abs: "db_abs d = [(n, [(t0, v0)])]"
    and w: "whisper_write_value P cf n t0 v0 (io d) = Inr (r, i)"
  shows "schedule P cf [Step, Step, Step, Step, Store n t v]
      \<lparr>sh_daemon = d, sh_pos = Resting, sh_written = []\<rparr> = Inl UseAfterFree"
proof -
  obtain m a where m: "h_metrics d m = Some \<lparr>m_name = n, m_nb_points = 1, m_points = Some a, m_last = Some a, m_next = None\<rparr>"
    and a: "h_points d a = Some \<lparr>mp_timestamp = t0, mp_value = v0, mp_next = None\<rparr>"
    and db: "db_first d = Some m" "db_last d = Some m" "m < h_fresh d" "a < h_fresh d"
    by (rule single_point [OF inv abs])
  let ?d1 = "d\<lparr>io := i, h_points := (h_points d)(a := None)\<rparr>"
  have "find_largest_metric d = Inr (Some m, d)"
    using find_largest_single [OF m db(1,3)] by simp
  then have run: "schedule P cf [Step, Step, Step, Step] \<lparr>sh_daemon = d, sh_pos = Resting, sh_written = []\<rparr> =
      Inr \<lparr>sh_daemon = ?d1, sh_pos = Fetch m None, sh_written = [(n, t0, v0)]\<rparr>"
    using m a w by (simp add: writer_step_def write_step_def bind_sum_def)
  have "get_metric n ?d1 = Inr (Some m, ?d1)"
    using get_metric_single [of ?d1 m _ n] m db by simp
  then have "store_point n t v ?d1 = Inl UseAfterFree"
    using store_point_found [of n ?d1 m _ a t v] m db(4) by simp
  then have "schedule P cf ([Step, Step, Step, Step] @ [Store n t v])
      \<lparr>sh_daemon = d, sh_pos = Resting, sh_written = []\<rparr> = Inl UseAfterFree"
    unfolding schedule_append run by (simp add: bind_sum_def)
  then show ?thesis by simp
qed

end
