(* ===== verification/Protocol.thy ===== *)
theory Protocol
  imports Database
begin

text \<open>
  The line protocol of \<open>protocol.c\<close>: a line holds a name, a value and a timestamp, and
  a message holds lines. The lines go to the store of \<open>Database\<close>.
\<close>

section \<open>Operations\<close>

text \<open>
  \<open>sscanf(metric_line, "%s %lf %u", ...)\<close>: the conversions that fail leave the
  variables as they were, which for the name is a block that was never written. The
  name is stored into a block of \<open>METRIC_NAME_MAX_LEN\<close> bytes.
\<close>

definition scan_metric_line :: "platform \<Rightarrow> string \<Rightarrow> stop + string \<times> cdouble \<times> u32" where
  "scan_metric_line P metric_line =
     (case scan_s metric_line of
        None \<Rightarrow> Inl UninitRead
      | Some (metric_name, r) \<Rightarrow>
          if usable P METRIC_NAME_MAX_LEN < length metric_name + 1 then Inl HeapOverflow
          else (case scan_lf r of
                  None \<Rightarrow> Inr (metric_name, 0, 0)
                | Some (v, r) \<Rightarrow>
                    (case scan_u r of
                       None \<Rightarrow> Inr (metric_name, v, 0)
                     | Some timestamp \<Rightarrow> Inr (metric_name, v, timestamp))))"

definition protocol_process_metric_line :: "platform \<Rightarrow> string \<Rightarrow> (daemon, unit) prog" where
  "protocol_process_metric_line P metric_line =
     andthen (pure_prog (scan_metric_line P metric_line)) (\<lambda>(metric_name, v, timestamp).
       store_point metric_name timestamp v)"

function protocol_process_metrics_multiline :: "platform \<Rightarrow> string \<Rightarrow> (daemon, unit) prog" where
  "protocol_process_metrics_multiline P metrics_multiline =
     (case strtok_r [CHR 0x0A] metrics_multiline of
        None \<Rightarrow> ret ()
      | Some (cur_line, saveptr) \<Rightarrow>
          andthen (protocol_process_metric_line P cur_line) (\<lambda>_.
            protocol_process_metrics_multiline P saveptr))"
  by pat_completeness auto
termination
  by (relation "measure (\<lambda>(P, s). length s)") (auto simp: strtok_r_shorter)

declare protocol_process_metrics_multiline.simps [simp del]

section \<open>Messages\<close>

text \<open>The samples of a message, for lines that all parse.\<close>

definition sample_of :: "platform \<Rightarrow> string \<Rightarrow> sample" where
  "sample_of P line = (case scan_metric_line P line of
     Inr (n, v, t) \<Rightarrow> (n, t, v) | Inl _ \<Rightarrow> ([], 0, 0))"

definition line_ok :: "platform \<Rightarrow> string \<Rightarrow> bool" where
  "line_ok P line \<longleftrightarrow> (case scan_metric_line P line of Inr _ \<Rightarrow> True | Inl _ \<Rightarrow> False)"

text \<open>Only a blank line or a name of 100 characters or more does not parse.\<close>

lemma line_ok_iff:
  "line_ok P line \<longleftrightarrow> (\<exists>w r. scan_s line = Some (w, r) \<and> length w < usable P METRIC_NAME_MAX_LEN)"
  by (auto simp: line_ok_def scan_metric_line_def split: option.splits prod.splits)

lemma metric_line_put:
  "line_ok P line \<Longrightarrow> protocol_process_metric_line P line =
     (case sample_of P line of (n, t, v) \<Rightarrow> store_point n t v)"
  by (auto simp: line_ok_def sample_of_def protocol_process_metric_line_def fun_eq_iff andthen_def pure_prog_def
      split: sum.splits)

lemma multiline_put_all:
  "\<forall>l\<in>set (tokens [CHR 0x0A] m). line_ok P l \<Longrightarrow>
   protocol_process_metrics_multiline P m = put_all store_point (map (sample_of P) (tokens [CHR 0x0A] m))"
proof (induction "[CHR 0x0A]" m rule: tokens.induct)
  case (1 m)
  show ?case
  proof (cases "strtok_r [CHR 0x0A] m")
    case None
    then show ?thesis by (simp add: protocol_process_metrics_multiline.simps)
  next
    case (Some lr)
    obtain l r where lr: "lr = (l, r)" by (cases lr)
    obtain n t v where smp: "sample_of P l = (n, t, v)" by (cases "sample_of P l")
    have ok: "line_ok P l" "\<forall>l\<in>set (tokens [CHR 0x0A] r). line_ok P l" using 1(2) Some lr by simp_all
    have "protocol_process_metrics_multiline P m =
        andthen (store_point n t v) (\<lambda>_. protocol_process_metrics_multiline P r)"
      using Some lr smp metric_line_put [OF ok(1)] by (subst protocol_process_metrics_multiline.simps) simp
    then show ?thesis using 1(1) [OF Some lr [symmetric] ok(2)] Some lr smp by simp
  qed
qed

lemma multiline_refines:
  assumes "db_inv s" "\<forall>l\<in>set (tokens [CHR 0x0A] m). line_ok P l"
  shows "\<exists>s'. protocol_process_metrics_multiline P m s = Inr ((), s') \<and> db_inv s' \<and>
    db_abs s' = record_all (map (sample_of P) (tokens [CHR 0x0A] m)) (db_abs s) \<and> io s' = io s"
  using framed_store.put_all_ok [of s "io s"] assms(1) multiline_put_all [OF assms(2)] by auto

lemma multiline_bad_line:
  assumes "db_inv s" "tokens [CHR 0x0A] m = good @ bad # rest" "\<forall>l\<in>set good. line_ok P l"
    "scan_metric_line P bad = Inl e"
  shows "protocol_process_metrics_multiline P m s = Inl e"
  using assms
proof (induction "[CHR 0x0A]" m arbitrary: s good rule: tokens.induct)
  case (1 m)
  then obtain l r where lr: "strtok_r [CHR 0x0A] m = Some (l, r)"
    by (cases "strtok_r [CHR 0x0A] m") auto
  show ?case
  proof (cases good)
    case Nil
    then have "l = bad" using 1(3) lr by simp
    then show ?thesis
      using lr 1(5) by (subst protocol_process_metrics_multiline.simps)
        (simp add: protocol_process_metric_line_def andthen_def pure_prog_def)
  next
    case (Cons g gs)
    then have g: "g = l" "tokens [CHR 0x0A] r = gs @ bad # rest" using 1(3) lr by simp_all
    obtain n t v where smp: "sample_of P l = (n, t, v)" by (cases "sample_of P l")
    have ok: "line_ok P l" using 1(4) Cons g by simp
    obtain s1 where s1: "store_point n t v s = Inr ((), s1)" "db_inv s1"
      using store_point_refines [OF 1(2)] by blast
    have "protocol_process_metrics_multiline P m s = protocol_process_metrics_multiline P r s1"
      using lr smp metric_line_put [OF ok] s1(1)
      by (subst protocol_process_metrics_multiline.simps) (simp add: andthen_def)
    also have "\<dots> = Inl e" using 1(1) [OF lr refl s1(2) g(2)] 1(4,5) Cons by simp
    finally show ?thesis .
  qed
qed

end
