(* ===== verification/Receivers.thy ===== *)
theory Receivers
  imports Protocol
begin

text \<open>
  The receivers of \<open>receiver_udp.c\<close> and \<open>receiver_tcp.c\<close>: one turn of each worker's
  loop, as a function of what the socket calls returned. The messages go to
  \<open>Protocol\<close>; a turn that received nothing changes nothing.
\<close>

section \<open>Sockets\<close>

datatype sock_error = EINTR | EAGAIN | EOTHER

text \<open>The result of \<open>recvfrom\<close>: an error, or the bytes that are in \<open>mesg\<close> now.\<close>

datatype received = RecvError sock_error | Received string

text \<open>The result of \<open>accept\<close>: an error, or a connection and what \<open>recvfrom\<close> gave on it.\<close>

datatype accepted_conn = AcceptError sock_error | Accepted received

abbreviation (input) MAX_UDP_READ :: nat where "MAX_UDP_READ \<equiv> 65535"
abbreviation (input) MAX_TCP_READ :: nat where "MAX_TCP_READ \<equiv> 65535"

section \<open>Operations\<close>

text \<open>
  Terminating and processing a message: \<open>mesg[n] = 0\<close> in an array of \<open>cap\<close> bytes, then
  the string up to the first NUL.
\<close>

definition process_mesg :: "platform \<Rightarrow> nat \<Rightarrow> string \<Rightarrow> (daemon, unit) prog" where
  "process_mesg P cap mesg =
     (if cap \<le> length mesg then halt StackOverflow
      else protocol_process_metrics_multiline P (cstr mesg))"

definition receiver_udp_turn :: "platform \<Rightarrow> received \<Rightarrow> (daemon, unit) prog" where
  "receiver_udp_turn P r =
     (case r of RecvError e \<Rightarrow> ret ()
      | Received mesg \<Rightarrow> process_mesg P MAX_UDP_READ mesg)"

definition receiver_tcp_turn :: "platform \<Rightarrow> accepted_conn \<Rightarrow> (daemon, unit) prog" where
  "receiver_tcp_turn P a =
     (case a of AcceptError e \<Rightarrow> ret ()
      | Accepted r \<Rightarrow>
          (case r of RecvError e \<Rightarrow> ret ()
           | Received mesg \<Rightarrow> process_mesg P MAX_TCP_READ mesg))"

section \<open>A message of any length\<close>

lemma process_mesg_refines:
  assumes "db_inv s" "length mesg < cap" "\<forall>l\<in>set (tokens [CHR 0x0A] (cstr mesg)). line_ok P l"
  shows "\<exists>s'. process_mesg P cap mesg s = Inr ((), s') \<and> db_inv s' \<and>
    db_abs s' = record_all (map (sample_of P) (tokens [CHR 0x0A] (cstr mesg))) (db_abs s) \<and> io s' = io s"
  using multiline_refines [OF assms(1,3)] assms(2) by (simp add: process_mesg_def)

lemma process_mesg_full: "cap \<le> length mesg \<Longrightarrow> process_mesg P cap mesg s = Inl StackOverflow"
  by (simp add: process_mesg_def halt_def)

end
