(* ===== verification/Monitoring.thy ===== *)
theory Monitoring
  imports Database
begin

text \<open>
  The monitoring of \<open>monitoring.c\<close>: once a second the number of points written to
  disk is stored as a metric of the daemon itself, and the counter starts again.
\<close>

section \<open>Operations\<close>

definition update_monitoring_metric :: "string \<Rightarrow> u32 \<Rightarrow> cdouble \<Rightarrow> (daemon, unit) prog" where
  "update_monitoring_metric name timestamp v =
     andthen (get_metric name) (\<lambda>metric.
     andthen (case metric of
         None \<Rightarrow> andthen (create_new_metric name) (\<lambda>m.
                 andthen (add_database_metric m) (\<lambda>_. ret m))
       | Some m \<Rightarrow> ret m) (\<lambda>m.
     andthen (create_new_metric_point timestamp v) (\<lambda>point.
     add_database_metric_point m point)))"

text \<open>One round of the worker; \<open>now\<close> is what \<open>time\<close> returned.\<close>

definition update_monitoring_metrics :: "u32 \<Rightarrow> (daemon, unit) prog" where
  "update_monitoring_metrics now =
     andthen (\<lambda>s. update_monitoring_metric ''carbond.points'' now
                  (double_of_u32 (monitoring_points (io s))) s) (\<lambda>_ s.
     Inr ((), s\<lparr>io := (io s)\<lparr>monitoring_points := 0\<rparr>\<rparr>))"

text \<open>The time until the next full second, from the nanoseconds of the clock.\<close>

definition monitoring_wait :: "int \<Rightarrow> int" where
  "monitoring_wait tv_nsec = 1000000000 - tv_nsec"

section \<open>What a round does\<close>

lemma monitoring_is_store: "update_monitoring_metric = store_point"
  by (intro ext) (simp add: update_monitoring_metric_def store_point_def)

interpretation monitoring_store: metric_store update_monitoring_metric db_inv db_abs
  unfolding monitoring_is_store by (rule heap_store.metric_store_axioms)

lemma db_abs_io: "db_inv (s\<lparr>io := i\<rparr>) = db_inv s" "db_abs (s\<lparr>io := i\<rparr>) = db_abs s"
proof -
  have eqs: "metric_addrs (s\<lparr>io := i\<rparr>) = metric_addrs s" "point_addrs (s\<lparr>io := i\<rparr>) = point_addrs s"
    "name_of (s\<lparr>io := i\<rparr>) = name_of s" "point_of (s\<lparr>io := i\<rparr>) = point_of s"
    by (auto simp: metric_addrs_def point_addrs_def name_of_def point_of_def fun_eq_iff split: option.splits)
  show "db_abs (s\<lparr>io := i\<rparr>) = db_abs s" by (simp add: db_abs_def db_view_def eqs)
  have "metric_shape (s\<lparr>io := i\<rparr>) m ps = metric_shape s m ps" for m ps
    by (simp add: metric_shape_def split: option.splits)
  then show "db_inv (s\<lparr>io := i\<rparr>) = db_inv s"
    by (simp add: db_inv_def db_shape_def eqs)
qed

lemma monitoring_refines:
  assumes "db_inv s"
  shows "\<exists>s'. update_monitoring_metrics now s = Inr ((), s') \<and> db_inv s' \<and>
    db_abs s' = record_point ''carbond.points'' (now, double_of_u32 (monitoring_points (io s))) (db_abs s) \<and>
    io s' = (io s)\<lparr>monitoring_points := 0\<rparr>"
proof -
  obtain s1 where "update_monitoring_metric ''carbond.points'' now (double_of_u32 (monitoring_points (io s))) s =
      Inr ((), s1)" "db_inv s1" "io s1 = io s"
    "db_abs s1 = record_point ''carbond.points'' (now, double_of_u32 (monitoring_points (io s))) (db_abs s)"
    using store_point_refines [OF assms] unfolding monitoring_is_store by metis
  then show ?thesis by (simp add: update_monitoring_metrics_def andthen_def db_abs_io)
qed

section \<open>The rounds of the worker\<close>

text \<open>
  The clock counts nanoseconds. \<open>nanosleep\<close> fails at once, without a delay, when the
  nanoseconds it is given are not below a full second, and its result is not looked at.
\<close>

abbreviation (input) SECOND :: int where "SECOND \<equiv> 1000000000"

definition nanosleep_delay :: "int \<Rightarrow> int" where
  "nanosleep_delay tv_nsec = (if 0 \<le> tv_nsec \<and> tv_nsec < SECOND then tv_nsec else 0)"

text \<open>When the next round starts, for a round that ends at the time \<open>end_time\<close>.\<close>

definition next_round :: "int \<Rightarrow> int" where
  "next_round end_time = end_time + nanosleep_delay (monitoring_wait (end_time mod SECOND))"

text \<open>The rounds from the time \<open>clock\<close> on, for the times that each of them takes.\<close>

fun monitoring_rounds :: "int \<Rightarrow> int list \<Rightarrow> (daemon, unit) prog" where
  "monitoring_rounds clock [] = ret ()"
| "monitoring_rounds clock (d # ds) =
     andthen (update_monitoring_metrics (word_of_int (clock div SECOND))) (\<lambda>_.
     monitoring_rounds (next_round (clock + d)) ds)"

lemma next_round_second:
  assumes "0 < d" "d < SECOND"
  shows "next_round (k * SECOND + d) = (k + 1) * SECOND"
  using assms by (simp add: next_round_def nanosleep_delay_def monitoring_wait_def)

text \<open>A round that ends on a full second is followed by the next one without a wait.\<close>

lemma next_round_missed: "next_round (k * SECOND) = k * SECOND"
  by (simp add: next_round_def nanosleep_delay_def monitoring_wait_def)

text \<open>The samples of rounds in consecutive seconds, when nothing is written in between.\<close>

definition round_samples :: "int \<Rightarrow> nat \<Rightarrow> u32 \<Rightarrow> sample list" where
  "round_samples k n count = map (\<lambda>i. (''carbond.points'', word_of_int (k + int i),
     double_of_u32 (if i = 0 then count else 0))) [0..<n]"

lemma round_samples_Suc:
  "round_samples k (Suc n) count =
     (''carbond.points'', word_of_int k, double_of_u32 count) # round_samples (k + 1) n 0"
  unfolding round_samples_def
  by (subst upt_conv_Cons) (simp_all add: map_Suc_upt [symmetric] add.assoc del: upt_Suc)

lemma monitoring_rounds_refine:
  "db_inv s \<Longrightarrow> \<forall>d\<in>set ds. 0 < d \<and> d < SECOND \<Longrightarrow>
   \<exists>s'. monitoring_rounds (k * SECOND) ds s = Inr ((), s') \<and> db_inv s' \<and>
     db_abs s' = record_all (round_samples k (length ds) (monitoring_points (io s))) (db_abs s) \<and>
     io s' = (if ds = [] then io s else (io s)\<lparr>monitoring_points := 0\<rparr>)"
proof (induction ds arbitrary: k s)
  case Nil
  then show ?case by (simp add: round_samples_def record_all_def)
next
  case (Cons d ds)
  obtain s1 where s1: "update_monitoring_metrics (word_of_int k) s = Inr ((), s1)" "db_inv s1"
    "db_abs s1 = record_point ''carbond.points'' (word_of_int k, double_of_u32 (monitoring_points (io s))) (db_abs s)"
    "io s1 = (io s)\<lparr>monitoring_points := 0\<rparr>"
    using monitoring_refines [OF Cons.prems(1)] by blast
  have nr: "next_round (k * SECOND + d) = (k + 1) * SECOND" using Cons.prems(2) by (intro next_round_second) simp_all
  obtain s' where "monitoring_rounds ((k + 1) * SECOND) ds s1 = Inr ((), s')" "db_inv s'"
    "db_abs s' = record_all (round_samples (k + 1) (length ds) 0) (db_abs s1)"
    "io s' = (io s)\<lparr>monitoring_points := 0\<rparr>"
    using Cons.IH [OF s1(2), of "k + 1"] Cons.prems(2) s1(4) by (auto split: if_splits)
  then show ?case
    by (simp add: andthen_def s1 nr round_samples_Suc) (simp add: record_all_def)
qed

end
