(* ===== verification/Conf.thy ===== *)
theory Conf
  imports C_String Posix_Files Common
begin

text \<open>
  The configuration files of \<open>conf.c\<close>: \<open>carbon.conf\<close>, \<open>storage-schemas.conf\<close> and
  \<open>storage-aggregation.conf\<close>. A parser takes the text of a file and the configuration
  that is being built, and returns the status with the configuration as far as it got.
\<close>

abbreviation (input) READ_BUF_MAX :: nat where "READ_BUF_MAX \<equiv> 300"
abbreviation (input) PATTERN_MAX :: nat where "PATTERN_MAX \<equiv> 100"
abbreviation (input) RETENTION_MAX :: nat where "RETENTION_MAX \<equiv> 100"

section \<open>Strings\<close>

definition blank :: "char \<Rightarrow> bool" where
  "blank c \<longleftrightarrow> c = CHR '' '' \<or> c = CHR 0x09 \<or> c = CHR 0x0A \<or> c = CHR 0x0D"

text \<open>The loop of \<open>trim_string\<close> on the buffer, with \<open>n\<close> characters left to look at.\<close>

fun trim_loop :: "string \<Rightarrow> nat \<Rightarrow> nat \<Rightarrow> nat \<Rightarrow> string" where
  "trim_loop buf s_res s_cur 0 = buf[s_res := CHR 0x00]"
| "trim_loop buf s_res s_cur (Suc n) =
     (if \<not> blank (buf ! s_cur)
      then trim_loop (buf[s_res := buf ! s_cur]) (Suc s_res) (Suc s_cur) n
      else trim_loop buf s_res (Suc s_cur) n)"

definition trim_string :: "string \<Rightarrow> string" where
  "trim_string s = cstr (trim_loop (s @ [CHR 0x00]) 0 0 (length s))"

definition string_starts_with :: "string \<Rightarrow> string \<Rightarrow> bool" where
  "string_starts_with s beginning \<longleftrightarrow>
     length beginning < length s \<and> strncmp_eq s beginning (length beginning)"

definition str_to_seconds :: "string \<Rightarrow> stop + u32" where
  "str_to_seconds str_duration =
     (if str_duration = [] then Inl OutOfBounds
      else let c = last str_duration;
               unit_found = (c = CHR ''w'' \<or> c = CHR ''d'' \<or> c = CHR ''h'' \<or> c = CHR ''s'');
               multiplier = (if c = CHR ''w'' then 86400 * 7 else if c = CHR ''d'' then 86400
                             else if c = CHR ''h'' then 3600 else 1);
               digits = (if unit_found then butlast str_duration else str_duration)
           in Inr (ucast (strtoul10 digits) * multiplier))"

section \<open>Retentions\<close>

definition parse_retention_item_str :: "string \<Rightarrow> stop + retention" where
  "parse_retention_item_str str_retention_item =
     (case strtok_r '':'' str_retention_item of
        None \<Rightarrow> Inl NullDeref
      | Some (time_per_point_str, saveptr) \<Rightarrow>
          bind_sum (str_to_seconds time_per_point_str) (\<lambda>tpp.
          case strtok_r '':'' saveptr of
            None \<Rightarrow> Inl NullDeref
          | Some (time_to_store_str, _) \<Rightarrow>
              bind_sum (str_to_seconds time_to_store_str) (\<lambda>tts.
              Inr \<lparr>time_per_point = tpp, time_to_store = tts\<rparr>)))"

function parse_retention_list_str :: "string \<Rightarrow> stop + retention list" where
  "parse_retention_list_str str_retention_list =
     (case strtok_r '','' str_retention_list of
        None \<Rightarrow> Inr []
      | Some (str_retention_item, pair_list) \<Rightarrow>
          bind_sum (parse_retention_item_str str_retention_item) (\<lambda>r.
          bind_sum (parse_retention_list_str pair_list) (\<lambda>rs. Inr (r # rs))))"
  by pat_completeness auto
termination
  by (relation "measure length") (auto simp: strtok_r_shorter)

declare parse_retention_list_str.simps [simp del]

section \<open>Reading a file line by line\<close>

text \<open>
  \<open>fopen(name, "r")\<close> and the characters that reading gives; a directory opens and
  gives none.
\<close>

definition fopen_read :: "'a fsys_scheme \<Rightarrow> string \<Rightarrow> string option" where
  "fopen_read s name =
     (let p = components name
      in if name = [] then None
         else if fs_dirs s p then Some []
         else map_option (map (\<lambda>b. char_of (unat b))) (fs_files s p))"

text \<open>What a line leads to: the next line, or the end of the parser with a status.\<close>

datatype 's flow = Go 's | Leave int 's

text \<open>The loop over the lines of a file; \<open>f\<close> handles a trimmed line.\<close>

function read_lines :: "(string \<Rightarrow> 's \<Rightarrow> stop + 's flow) \<Rightarrow> string \<Rightarrow> 's \<Rightarrow> stop + int \<times> 's" where
  "read_lines f text s =
     (case fgets (READ_BUF_MAX - 2) text of
        None \<Rightarrow> Inr (0, s)
      | Some (buffer, rest) \<Rightarrow>
          (case f (trim_string (cstr buffer)) s of
             Inl e \<Rightarrow> Inl e
           | Inr (Leave status s') \<Rightarrow> Inr (status, s')
           | Inr (Go s') \<Rightarrow> read_lines f rest s'))"
  by pat_completeness auto
termination
  by (relation "measure (\<lambda>(f, text, s). length text)") (auto dest: fgets_shorter [rotated])

declare read_lines.simps [simp del]

text \<open>
  The path of a file below the configuration directory. The test for a trailing slash
  looks at the terminating NUL, so a slash is always added.
\<close>

definition conf_filepath :: "string \<Rightarrow> string \<Rightarrow> stop + string" where
  "conf_filepath dir filename =
     (if PATH_MAX < length dir + 1 + length filename + 1 then Inl StackOverflow
      else Inr (dir @ ''/'' @ filename))"

text \<open>
  \<open>sscanf(buffer, "key=%s", dst)\<close> for a line that starts with the key: the word that is
  stored, or what was in the destination before.
\<close>

definition scan_value :: "string \<Rightarrow> string \<Rightarrow> string option \<Rightarrow> string option" where
  "scan_value key buffer old =
     (case scan_s (drop (length key) buffer) of None \<Rightarrow> old | Some (w, _) \<Rightarrow> Some w)"

section \<open>Storage aggregation\<close>

text \<open>
  Appending a pattern: the copy is allocated with \<open>strlen(pattern + 1)\<close> bytes and
  filled with \<open>strlen(pattern) + 1\<close>.
\<close>

definition conf_add_pattern_aggregation ::
    "platform \<Rightarrow> carbon_conf \<Rightarrow> string \<Rightarrow> cfloat \<Rightarrow> aggregation_type \<Rightarrow> stop + carbon_conf" where
  "conf_add_pattern_aggregation P new_conf pattern xff method =
     (if pattern = [] then Inl OutOfBounds
      else if usable P (length pattern - 1) < length pattern + 1 then Inl HeapOverflow
      else Inr (new_conf\<lparr>aggregation := aggregation new_conf
             @ [\<lparr>agg_pattern = pattern, agg_xff = xff, agg_method = method\<rparr>]\<rparr>))"

definition conf_get_aggregation_method :: "string \<Rightarrow> aggregation_type" where
  "conf_get_aggregation_method method_s =
     (if strncmp_eq method_s ''average'' 7 then AGG_TYPE_AVERAGE
      else if strncmp_eq method_s ''sum'' 3 then AGG_TYPE_SUM
      else if strncmp_eq method_s ''last'' 4 then AGG_TYPE_LAST
      else if strncmp_eq method_s ''max'' 3 then AGG_TYPE_MAX
      else if strncmp_eq method_s ''min'' 3 then AGG_TYPE_MIN
      else AGG_TYPE_UNDEF)"

text \<open>The local variables of the parser; an array that was never written is \<open>None\<close>.\<close>

record agg_parser =
  ap_conf :: carbon_conf
  ap_found :: bool
  ap_pattern :: "string option"
  ap_xff_s :: "string option"
  ap_method_s :: "string option"
  ap_xff :: cfloat

definition aggregation_line :: "platform \<Rightarrow> string \<Rightarrow> agg_parser \<Rightarrow> stop + agg_parser flow" where
  "aggregation_line P buffer s =
     (if \<not> ap_found s
      then (if string_starts_with buffer ''pattern=''
            then Inr (Go (s\<lparr>ap_found := True, ap_pattern := scan_value ''pattern='' buffer (ap_pattern s)\<rparr>))
            else Inr (Go s))
      else if string_starts_with buffer ''xFilesFactor=''
      then (case scan_value ''xFilesFactor='' buffer (ap_xff_s s) of
              None \<Rightarrow> Inl UninitRead
            | Some x \<Rightarrow> Inr (Go (s\<lparr>ap_xff_s := Some x, ap_xff := strtof x\<rparr>)))
      else if string_starts_with buffer ''aggregationMethod=''
      then (case scan_value ''aggregationMethod='' buffer (ap_method_s s) of
              None \<Rightarrow> Inl UninitRead
            | Some m \<Rightarrow>
                (case ap_pattern s of
                   None \<Rightarrow> Inl UninitRead
                 | Some pattern \<Rightarrow>
                     bind_sum (conf_add_pattern_aggregation P (ap_conf s) pattern (ap_xff s)
                         (conf_get_aggregation_method m)) (\<lambda>c.
                     Inr (Go (s\<lparr>ap_conf := c, ap_found := False, ap_method_s := Some m\<rparr>)))))
      else Inr (Go s))"

definition conf_parse_storage_aggregation_file ::
    "platform \<Rightarrow> 'a fsys_scheme \<Rightarrow> carbon_conf \<Rightarrow> stop + int \<times> carbon_conf" where
  "conf_parse_storage_aggregation_file P fs new_conf =
     bind_sum (conf_filepath (conf_dir new_conf) ''storage-aggregation.conf'') (\<lambda>filepath.
     case fopen_read fs filepath of
       None \<Rightarrow> Inr (1, new_conf)
     | Some text \<Rightarrow>
         bind_sum (read_lines (aggregation_line P) text
             \<lparr>ap_conf = new_conf, ap_found = False, ap_pattern = None, ap_xff_s = None,
              ap_method_s = None, ap_xff = 0\<rparr>) (\<lambda>(status, s).
         Inr (status, ap_conf s)))"

section \<open>Storage schemas\<close>

text \<open>
  The local variables: the entries made so far, the last of which is
  \<open>cur_pattern_retention\<close>. An entry without a retention line has no retentions.
\<close>

record schema_parser =
  sp_conf :: carbon_conf
  sp_found :: bool
  sp_entries :: "pattern_retention list"

text \<open>Storing a scanned word in a block of \<open>n\<close> bytes that was never written before.\<close>

definition store_word :: "platform \<Rightarrow> nat \<Rightarrow> string option \<Rightarrow> stop + string" where
  "store_word P n w =
     (case w of None \<Rightarrow> Inl UninitRead
      | Some w \<Rightarrow> if usable P n < length w + 1 then Inl HeapOverflow else Inr w)"

definition set_entries :: "pattern_retention list \<Rightarrow> schema_parser \<Rightarrow> schema_parser" where
  "set_entries es s = s\<lparr>sp_entries := es, sp_conf := (sp_conf s)\<lparr>schema := es\<rparr>\<rparr>"

definition schema_line :: "platform \<Rightarrow> string \<Rightarrow> schema_parser \<Rightarrow> stop + schema_parser flow" where
  "schema_line P buffer s =
     (if \<not> sp_found s
      then (if string_starts_with buffer ''pattern=''
            then bind_sum (store_word P PATTERN_MAX (scan_value ''pattern='' buffer None)) (\<lambda>p.
                 Inr (Go (set_entries (sp_entries s
                        @ [\<lparr>str_pattern = p, str_retention = [], retention_list = []\<rparr>])
                      (s\<lparr>sp_found := True\<rparr>))))
            else Inr (Go s))
      else if string_starts_with buffer ''retentions=''
      then bind_sum (store_word P RETENTION_MAX (scan_value ''retentions='' buffer None)) (\<lambda>r.
           bind_sum (parse_retention_list_str r) (\<lambda>rets.
           Inr (Go (set_entries (butlast (sp_entries s)
                  @ [(last (sp_entries s))\<lparr>str_retention := r, retention_list := rets\<rparr>])
                (s\<lparr>sp_found := False\<rparr>)))))
      else Inr (Go s))"

definition conf_parse_storage_schema_file ::
    "platform \<Rightarrow> 'a fsys_scheme \<Rightarrow> carbon_conf \<Rightarrow> stop + int \<times> carbon_conf" where
  "conf_parse_storage_schema_file P fs new_conf =
     bind_sum (conf_filepath (conf_dir new_conf) ''storage-schemas.conf'') (\<lambda>filepath.
     case fopen_read fs filepath of
       None \<Rightarrow> Inr (1, new_conf)
     | Some text \<Rightarrow>
         bind_sum (read_lines (schema_line P) text
             \<lparr>sp_conf = new_conf, sp_found = False, sp_entries = []\<rparr>) (\<lambda>(status, s).
         Inr (status, sp_conf s)))"

section \<open>The main configuration file\<close>

definition carbon_line :: "string \<Rightarrow> carbon_conf \<Rightarrow> stop + carbon_conf flow" where
  "carbon_line read_buffer new_conf =
     (case strtok_r ''='' read_buffer of
        None \<Rightarrow> Inr (Go new_conf)
      | Some (cnf_key, saveptr) \<Rightarrow>
          (case strtok_r ''='' saveptr of
             None \<Rightarrow> Inr (Go new_conf)
           | Some (cnf_val, _) \<Rightarrow>
               if strncmp_eq cnf_key ''CONF_DIR'' 8 then Inr (Go (new_conf\<lparr>conf_dir := cnf_val\<rparr>))
               else if strncmp_eq cnf_key ''STORAGE_DIR'' 11 then Inr (Go (new_conf\<lparr>storage_dir := cnf_val\<rparr>))
               else if strncmp_eq cnf_key ''LINE_RECEIVER_PORT'' 18
               then (case strtol10 cnf_val of (n, erange) \<Rightarrow>
                       let c = new_conf\<lparr>line_receiver_port := int32 n\<rparr>
                       in Inr (if erange then Leave 1 c else Go c))
               else if strncmp_eq cnf_key ''UDP_RECEIVER_PORT'' 17
               then (case strtol10 cnf_val of (n, erange) \<Rightarrow>
                       let c = new_conf\<lparr>udp_receiver_port := int32 n\<rparr>
                       in Inr (if erange then Leave 1 c else Go c))
               else Inr (Leave 1 new_conf)))"

definition conf_parse_carbon_file :: "'a fsys_scheme \<Rightarrow> carbon_conf \<Rightarrow> stop + int \<times> carbon_conf" where
  "conf_parse_carbon_file fs new_conf =
     (case fopen_read fs (conf_file new_conf) of
        None \<Rightarrow> Inr (1, new_conf)
      | Some text \<Rightarrow> read_lines carbon_line text new_conf)"

definition conf_parse :: "platform \<Rightarrow> 'a fsys_scheme \<Rightarrow> carbon_conf \<Rightarrow> stop + int \<times> carbon_conf" where
  "conf_parse P fs new_conf =
     bind_sum (conf_parse_carbon_file fs new_conf) (\<lambda>(status, c).
     if status \<noteq> 0 then Inr (status, c)
     else bind_sum (conf_parse_storage_schema_file P fs c) (\<lambda>(status, c).
     if status \<noteq> 0 then Inr (status, c)
     else conf_parse_storage_aggregation_file P fs c))"

end
