(* ===== verification/Conf_Text.thy ===== *)
theory Conf_Text
  imports Conf
begin

text \<open>
  What the configuration parsers compute: trimming in place is filtering, durations
  and retention lists that are printed are read back, and files made of lines are
  read line by line.
\<close>

section \<open>Trimming\<close>

lemma cstr_cut: "CHR 0x00 \<notin> set xs \<Longrightarrow> cstr (xs @ CHR 0x00 # ys) = xs"
  by (induction xs) (auto simp: cstr_def)

lemma cstr_id: "CHR 0x00 \<notin> set xs \<Longrightarrow> cstr xs = xs"
  by (induction xs) (auto simp: cstr_def)

lemma cstr_no_nul: "CHR 0x00 \<notin> set (cstr xs)"
  by (auto simp: cstr_def dest: set_takeWhileD)

lemma trim_loop_spec:
  "s_res \<le> s_cur \<Longrightarrow> s_cur + n < length buf \<Longrightarrow> CHR 0x00 \<notin> set (take s_res buf) \<Longrightarrow>
   CHR 0x00 \<notin> set (take n (drop s_cur buf)) \<Longrightarrow>
   cstr (trim_loop buf s_res s_cur n) = take s_res buf @ filter (\<lambda>c. \<not> blank c) (take n (drop s_cur buf))"
proof (induction n arbitrary: buf s_res s_cur)
  case 0
  then have "buf[s_res := CHR 0x00] = take s_res buf @ CHR 0x00 # drop (Suc s_res) buf"
    by (intro upd_conv_take_nth_drop) simp
  with 0 show ?case by (simp add: cstr_cut)
next
  case (Suc n)
  let ?c = "buf ! s_cur"
  have tk: "take (Suc n) (drop s_cur buf) = ?c # take n (drop (Suc s_cur) buf)"
    using Suc.prems(2) by (simp add: Cons_nth_drop_Suc [symmetric])
  show ?case
  proof (cases "blank ?c")
    case True
    have "cstr (trim_loop buf s_res (Suc s_cur) n) =
        take s_res buf @ filter (\<lambda>c. \<not> blank c) (take n (drop (Suc s_cur) buf))"
      using Suc.prems tk by (intro Suc.IH) simp_all
    then show ?thesis using True tk by simp
  next
    case False
    let ?buf = "buf[s_res := ?c]"
    have t: "take (Suc s_res) ?buf = take s_res buf @ [?c]"
      using Suc.prems(1,2) by (simp add: take_Suc_conv_app_nth)
    have d: "drop (Suc s_cur) ?buf = drop (Suc s_cur) buf" using Suc.prems(1) by simp
    have "cstr (trim_loop ?buf (Suc s_res) (Suc s_cur) n) =
        take (Suc s_res) ?buf @ filter (\<lambda>c. \<not> blank c) (take n (drop (Suc s_cur) ?buf))"
      using Suc.prems tk by (intro Suc.IH) (simp_all add: t d)
    then show ?thesis using False tk t d by simp
  qed
qed

lemma trim_filter: "CHR 0x00 \<notin> set s \<Longrightarrow> trim_string s = filter (\<lambda>c. \<not> blank c) s"
  using trim_loop_spec [of 0 0 "length s" "s @ [CHR 0x00]"] by (simp add: trim_string_def)

section \<open>Numbers\<close>

text \<open>The decimal digits of a number.\<close>

fun decimal :: "nat \<Rightarrow> string" where
  "decimal n = (if n < 10 then [char_of (48 + n)] else decimal (n div 10) @ [char_of (48 + n mod 10)])"

declare decimal.simps [simp del]

lemma digit_char:
  "d < 10 \<Longrightarrow> isdigit (char_of (48 + d)) \<and> digit_value (char_of (48 + d)) = d"
  by (simp add: isdigit_def digit_value_def char_code_def)

lemma decimal_digits: "c \<in> set (decimal n) \<Longrightarrow> isdigit c"
  by (induction n rule: decimal.induct) (subst (asm) (2) decimal.simps, auto simp: digit_char split: if_splits)

lemma decimal_nonempty [simp]: "decimal n \<noteq> []"
  by (subst decimal.simps) simp

lemma base_value_snoc: "base_value b (xs @ [c]) = b * base_value b xs + digit_value c"
  by (simp add: base_value_def)

lemma base_value_decimal: "base_value 10 (decimal n) = n"
proof (induction n rule: decimal.induct)
  case (1 n)
  then show ?case
    by (subst decimal.simps) (auto simp: base_value_snoc digit_char, simp add: base_value_def digit_char)
qed

lemma isdigit_not: "isdigit c \<Longrightarrow> \<not> isspace c \<and> c \<noteq> CHR 0x00 \<and> c \<noteq> CHR ''-'' \<and> c \<noteq> CHR ''+'' \<and> c \<noteq> CHR '':'' \<and> c \<noteq> CHR '','' \<and>
   c \<notin> {CHR ''w'', CHR ''d'', CHR ''h'', CHR ''s''}"
  by (auto simp: isdigit_def char_code_def isspace_def)

lemma strtoul10_digits:
  assumes "\<forall>c\<in>set ds. isdigit c" "ds \<noteq> []" "base_value 10 ds < 2 ^ 64"
  shows "strtoul10 ds = word_of_nat (base_value 10 ds)"
proof -
  obtain c cs where ds: "ds = c # cs" using assms(2) by (cases ds) auto
  have c: "\<not> isspace c" "c \<noteq> CHR ''-''" "c \<noteq> CHR ''+''" using assms(1) ds isdigit_not by auto
  have "takeWhile isdigit ds = ds" using assms(1) by (simp add: takeWhile_eq_all_conv)
  then show ?thesis using assms(3) c ds by (simp add: strtoul10_def strip_sign_def Let_def)
qed

lemma strtoul10_prefix:
  assumes "n < 2 ^ 64" "\<not> isdigit c"
  shows "strtoul10 (decimal n @ c # r) = word_of_nat n"
proof -
  obtain d ds where ds: "decimal n = d # ds" by (cases "decimal n") auto
  have "isdigit d" using decimal_digits [of d n] ds by simp
  then have d: "\<not> isspace d" "d \<noteq> CHR ''-''" "d \<noteq> CHR ''+''" using isdigit_not by auto
  have "takeWhile isdigit (decimal n @ c # r) = decimal n"
    using assms(2) decimal_digits by (simp add: takeWhile_tail takeWhile_append)
  then show ?thesis
    using assms(1) d base_value_decimal [of n] ds by (simp add: strtoul10_def strip_sign_def Let_def)
qed

lemma ucast_of_nat_u64: "(ucast (word_of_nat n :: u64) :: u32) = word_of_nat n"
proof -
  have "unat (ucast (word_of_nat n :: u64) :: u32) = n mod 2 ^ 64 mod 2 ^ 32"
    by (simp add: unat_ucast_u32 unat_of_nat take_bit_eq_mod)
  also have "\<dots> = n mod 2 ^ 32" by (rule mod_mod_cancel) simp
  also have "\<dots> = unat (word_of_nat n :: u32)" by (simp add: unat_of_nat take_bit_eq_mod)
  finally show ?thesis by (simp only: word_unat_eq_iff)
qed

text \<open>Units and their seconds.\<close>

definition unit_seconds :: "char \<Rightarrow> nat" where
  "unit_seconds u = (if u = CHR ''w'' then 604800 else if u = CHR ''d'' then 86400
     else if u = CHR ''h'' then 3600 else 1)"

lemma seconds_with_unit:
  assumes "u \<in> {CHR ''w'', CHR ''d'', CHR ''h'', CHR ''s''}" "n < 2 ^ 64"
  shows "str_to_seconds (decimal n @ [u]) = Inr (word_of_nat (n * unit_seconds u))"
proof -
  have "strtoul10 (decimal n) = word_of_nat n"
    using strtoul10_digits [of "decimal n"] decimal_digits assms(2) by (simp add: base_value_decimal)
  then have "(ucast (strtoul10 (decimal n)) :: u32) = word_of_nat n"
    by (simp only: ucast_of_nat_u64)
  then show ?thesis
    using assms(1) by (auto simp: str_to_seconds_def unit_seconds_def Let_def)
qed

lemma seconds_without_unit:
  assumes "n < 2 ^ 64"
  shows "str_to_seconds (decimal n) = Inr (word_of_nat n)"
proof -
  have "last (decimal n) \<in> set (decimal n)" by simp
  then have "last (decimal n) \<notin> {CHR ''w'', CHR ''d'', CHR ''h'', CHR ''s''}"
    using decimal_digits isdigit_not by blast
  moreover have "strtoul10 (decimal n) = word_of_nat n"
    using strtoul10_digits [of "decimal n"] decimal_digits assms by (simp add: base_value_decimal)
  ultimately show ?thesis
    by (simp add: str_to_seconds_def Let_def ucast_of_nat_u64)
qed

section \<open>Retention lists\<close>

definition print_retention :: "retention \<Rightarrow> string" where
  "print_retention r = decimal (unat (time_per_point r)) @ CHR '':'' # decimal (unat (time_to_store r))"

definition print_retentions :: "retention list \<Rightarrow> string" where
  "print_retentions rs = join CHR '','' (map print_retention rs)"

lemma decimal_no: "c \<in> {CHR '':'', CHR '',''} \<Longrightarrow> c \<notin> set (decimal n)"
  using decimal_digits isdigit_not by blast

lemma seconds_u32: "str_to_seconds (decimal (unat (w :: u32))) = Inr w"
proof -
  have "unat w < 2 ^ 64" by (rule less_trans [OF unat_u32_less]) simp
  then show ?thesis by (simp add: seconds_without_unit)
qed

lemma parse_print_retention: "parse_retention_item_str (print_retention r) = Inr r"
proof -
  have "strtok_r '':'' (print_retention r) =
      Some (decimal (unat (time_per_point r)), decimal (unat (time_to_store r)))"
    unfolding print_retention_def using decimal_no by (intro strtok_r_next(1)) auto
  moreover have "strtok_r '':'' (decimal (unat (time_to_store r))) = Some (decimal (unat (time_to_store r)), [])"
    using decimal_no by (intro strtok_r_next(2) [of _ _ "CHR '':''"]) auto
  ultimately show ?thesis
    by (simp add: parse_retention_item_str_def bind_sum_def seconds_u32)
qed

lemma parse_retention_tokens:
  "tokens '','' s = map print_retention rs \<Longrightarrow> parse_retention_list_str s = Inr rs"
proof (induction "'',''" s arbitrary: rs rule: tokens.induct)
  case (1 s)
  show ?case
  proof (cases "strtok_r '','' s")
    case None
    then show ?thesis using 1(2) by (simp add: parse_retention_list_str.simps)
  next
    case (Some tr)
    obtain t r where tr: "tr = (t, r)" by (cases tr)
    then obtain x xs where x: "rs = x # xs" "t = print_retention x" "tokens '','' r = map print_retention xs"
      using 1(2) Some by (cases rs) auto
    then have "parse_retention_list_str r = Inr xs" using 1(1) [OF Some tr [symmetric]] by simp
    then show ?thesis
      using Some tr x(1,2) by (subst parse_retention_list_str.simps) (simp add: bind_sum_def parse_print_retention)
  qed
qed

lemma parse_print_retentions: "parse_retention_list_str (print_retentions rs) = Inr rs"
proof (rule parse_retention_tokens)
  have "\<forall>t\<in>set (map print_retention rs). t \<noteq> [] \<and> set t \<inter> set '','' = {}"
    using decimal_no by (auto simp: print_retention_def)
  then show "tokens '','' (print_retentions rs) = map print_retention rs"
    unfolding print_retentions_def by (intro tokens_join) simp_all
qed

section \<open>Files made of lines\<close>

fun run_lines :: "(string \<Rightarrow> 's \<Rightarrow> stop + 's flow) \<Rightarrow> string list \<Rightarrow> 's \<Rightarrow> stop + int \<times> 's" where
  "run_lines f [] s = Inr (0, s)"
| "run_lines f (l # ls) s =
     (case f (filter (\<lambda>c. \<not> blank c) l) s of
        Inl e \<Rightarrow> Inl e
      | Inr (Leave status s') \<Rightarrow> Inr (status, s')
      | Inr (Go s') \<Rightarrow> run_lines f ls s')"

definition unlines :: "string list \<Rightarrow> string" where
  "unlines ls = concat (map (\<lambda>l. l @ [CHR 0x0A]) ls)"

text \<open>A line that fits the read buffer of the parsers.\<close>

definition plain_line :: "string \<Rightarrow> bool" where
  "plain_line l \<longleftrightarrow> CHR 0x0A \<notin> set l \<and> CHR 0x00 \<notin> set l \<and> length l < READ_BUF_MAX - 3"

lemma line_take_line:
  "CHR 0x0A \<notin> set l \<Longrightarrow> length l < n \<Longrightarrow> line_take n (l @ CHR 0x0A # r) = l @ [CHR 0x0A]"
proof (induction l arbitrary: n)
  case Nil
  then show ?case by (cases n) auto
next
  case (Cons c l)
  then show ?case by (cases n) auto
qed

lemma fgets_line:
  assumes "CHR 0x0A \<notin> set l" "length l < n - 1"
  shows "fgets n (l @ CHR 0x0A # r) = Some (l @ [CHR 0x0A], r)"
proof -
  have "l @ CHR 0x0A # r \<noteq> []" by simp
  then obtain c t where "l @ CHR 0x0A # r = c # t" by (cases "l @ CHR 0x0A # r") auto
  then have "fgets n (l @ CHR 0x0A # r) =
      (let k = line_take (n - 1) (l @ CHR 0x0A # r) in Some (k, drop (length k) (l @ CHR 0x0A # r)))"
    by (simp add: fgets_def)
  then show ?thesis unfolding line_take_line [OF assms] Let_def by simp
qed

lemma read_lines_unlines:
  "\<forall>l\<in>set ls. plain_line l \<Longrightarrow> read_lines f (unlines ls) s = run_lines f ls s"
proof (induction ls arbitrary: s)
  case Nil
  then show ?case by (simp add: unlines_def read_lines.simps fgets_def)
next
  case (Cons l ls)
  have l: "CHR 0x0A \<notin> set l" "CHR 0x00 \<notin> set l" "length l < (READ_BUF_MAX - 2) - 1"
    using Cons.prems by (simp_all add: plain_line_def)
  have body: "unlines (l # ls) = l @ CHR 0x0A # unlines ls" by (simp add: unlines_def)
  have "cstr (l @ [CHR 0x0A]) = l @ [CHR 0x0A]" using l(2) by (intro cstr_id) simp
  then have trim: "trim_string (cstr (l @ [CHR 0x0A])) = filter (\<lambda>c. \<not> blank c) l"
    using l(2) by (simp add: trim_filter) (simp add: blank_def)
  show ?case
    unfolding body
    by (subst read_lines.simps, subst fgets_line [OF l(1,3)])
      (use Cons in \<open>simp add: trim split: sum.splits flow.splits\<close>)
qed

section \<open>Key and value\<close>

definition plain_word :: "string \<Rightarrow> bool" where
  "plain_word w \<longleftrightarrow> w \<noteq> [] \<and> (\<forall>c\<in>set w. \<not> isspace c \<and> c \<noteq> CHR 0x00)"

lemma plain_word_trim: "plain_word w \<Longrightarrow> filter (\<lambda>c. \<not> blank c) w = w"
  by (auto simp: plain_word_def filter_id_conv blank_def isspace_def)

lemma scan_s_word:
  assumes "plain_word w"
  shows "scan_s w = Some (w, [])"
proof -
  obtain c cs where w: "w = c # cs" using assms by (cases w) (auto simp: plain_word_def)
  have "\<forall>c\<in>set w. \<not> isspace c" using assms by (simp add: plain_word_def)
  then have "dropWhile isspace w = w" "takeWhile (\<lambda>c. \<not> isspace c) w = w" "dropWhile (\<lambda>c. \<not> isspace c) w = []"
    using w by (auto simp: takeWhile_eq_all_conv dropWhile_eq_Nil_conv)
  then show ?thesis using w by (simp add: scan_s_def)
qed

lemma scan_value_word [simp]: "plain_word w \<Longrightarrow> scan_value key (key @ w) old = Some w"
  by (simp add: scan_value_def scan_s_word)

lemma starts_with_key [simp]: "w \<noteq> [] \<Longrightarrow> string_starts_with (key @ w) key"
  by (simp add: string_starts_with_def strncmp_eq_take)

lemma plain_word_nonempty [simp]: "plain_word w \<Longrightarrow> w \<noteq> []"
  by (simp add: plain_word_def)

lemma plain_word_line:
  assumes "plain_word w" "\<forall>c\<in>set key. \<not> isspace c \<and> c \<noteq> CHR 0x00" "length key + length w < READ_BUF_MAX - 3"
  shows "plain_line (key @ w)" "filter (\<lambda>c. \<not> blank c) (key @ w) = key @ w"
  using assms by (auto simp: plain_line_def plain_word_def isspace_def filter_id_conv blank_def)

section \<open>A schema file\<close>

definition schema_lines :: "string \<times> retention list \<Rightarrow> string list" where
  "schema_lines e = [''pattern='' @ fst e, ''retentions='' @ print_retentions (snd e)]"

definition schema_entry :: "string \<times> retention list \<Rightarrow> pattern_retention" where
  "schema_entry e = \<lparr>str_pattern = fst e, str_retention = print_retentions (snd e), retention_list = snd e\<rparr>"

definition schema_entry_ok :: "string \<times> retention list \<Rightarrow> bool" where
  "schema_entry_ok e \<longleftrightarrow> plain_word (fst e) \<and> length (fst e) < PATTERN_MAX \<and> snd e \<noteq> [] \<and>
     length (print_retentions (snd e)) < RETENTION_MAX"

lemma print_retention_word: "plain_word (print_retention r)"
proof -
  have "\<not> isspace c \<and> c \<noteq> CHR 0x00" if "c \<in> set (decimal n)" for c n
    using decimal_digits [OF that] isdigit_not by blast
  moreover have "\<not> isspace CHR '':''" by (simp add: isspace_def)
  ultimately show ?thesis by (auto simp: plain_word_def print_retention_def)
qed

lemma print_retentions_word: "rs \<noteq> [] \<Longrightarrow> plain_word (print_retentions rs)"
proof (induction rs)
  case (Cons r rs)
  show ?case
  proof (cases rs)
    case Nil
    then show ?thesis by (simp add: print_retentions_def print_retention_word)
  next
    case (Cons x xs)
    then have "print_retentions (r # rs) = print_retention r @ CHR '','' # print_retentions rs"
      by (simp add: print_retentions_def)
    then show ?thesis
      using Cons.IH \<open>rs = x # xs\<close> print_retention_word [of r] by (auto simp: plain_word_def isspace_def)
  qed
qed simp

lemma schema_entry_lines:
  assumes "schema_entry_ok e" "allocator_ok P" "\<not> sp_found s"
  shows "\<forall>l\<in>set (schema_lines e). plain_line l"
    and "run_lines (schema_line P) (schema_lines e @ ls) s =
      run_lines (schema_line P) ls (set_entries (sp_entries s @ [schema_entry e]) s)"
proof -
  have p: "plain_word (fst e)" "length (fst e) < 100" and r: "plain_word (print_retentions (snd e))"
    "length (print_retentions (snd e)) < 100"
    using assms(1) by (auto simp: schema_entry_ok_def print_retentions_word)
  have us: "100 \<le> usable P 100" using assms(2) by (simp add: allocator_ok_def)
  have lp: "plain_line (''pattern='' @ fst e)" "filter (\<lambda>c. \<not> blank c) (''pattern='' @ fst e) = ''pattern='' @ fst e"
    using p by (intro plain_word_line; simp add: isspace_def)+
  have lr: "plain_line (''retentions='' @ print_retentions (snd e))"
    "filter (\<lambda>c. \<not> blank c) (''retentions='' @ print_retentions (snd e)) = ''retentions='' @ print_retentions (snd e)"
    using r by (intro plain_word_line; simp add: isspace_def)+
  show "\<forall>l\<in>set (schema_lines e). plain_line l" using lp(1) lr(1) unfolding schema_lines_def by simp
  have w: "store_word P 100 (Some (fst e)) = Inr (fst e)"
    "store_word P 100 (Some (print_retentions (snd e))) = Inr (print_retentions (snd e))"
    using p r us by (simp_all add: store_word_def)
  let ?s1 = "set_entries (sp_entries s @ [\<lparr>str_pattern = fst e, str_retention = [], retention_list = []\<rparr>])
    (s\<lparr>sp_found := True\<rparr>)"
  have 1: "schema_line P (''pattern='' @ fst e) s = Inr (Go ?s1)"
    unfolding schema_line_def using assms(3) starts_with_key [of "fst e"] scan_value_word [OF p(1)] w(1) p(1)
    by (simp only: plain_word_nonempty bind_sum_def sum.case if_True not_False_eq_True)
  have 2: "schema_line P (''retentions='' @ print_retentions (snd e)) ?s1 =
      Inr (Go (set_entries (sp_entries s @ [schema_entry e]) s))"
    unfolding schema_line_def using assms(3) starts_with_key [of "print_retentions (snd e)"] scan_value_word [OF r(1)] w(2)
      plain_word_nonempty [OF r(1)]
    by (simp add: bind_sum_def set_entries_def parse_print_retentions schema_entry_def del: append_Cons append.simps)
  show "run_lines (schema_line P) (schema_lines e @ ls) s =
      run_lines (schema_line P) ls (set_entries (sp_entries s @ [schema_entry e]) s)"
    unfolding schema_lines_def append_Cons append_Nil run_lines.simps
    using 1 2 lp(2) lr(2) by simp
qed

text \<open>The text of a schema file with the given patterns and retentions is read back.\<close>

lemma schema_run:
  assumes "\<forall>e\<in>set es. schema_entry_ok e" "allocator_ok P" "\<not> sp_found s" "es \<noteq> []"
  shows "run_lines (schema_line P) (concat (map schema_lines es)) s =
    Inr (0, set_entries (sp_entries s @ map schema_entry es) s)"
  using assms
proof (induction es arbitrary: s)
  case (Cons e es)
  have e: "schema_entry_ok e" using Cons.prems(1) by simp
  let ?s = "set_entries (sp_entries s @ [schema_entry e]) s"
  have s: "\<not> sp_found ?s" "sp_entries ?s = sp_entries s @ [schema_entry e]"
    "set_entries xs ?s = set_entries xs s" for xs
    using Cons.prems(3) by (simp_all add: set_entries_def)
  have "run_lines (schema_line P) (concat (map schema_lines (e # es))) s =
      run_lines (schema_line P) (concat (map schema_lines es)) ?s"
    using schema_entry_lines(2) [OF e Cons.prems(2,3)] by simp
  also have "\<dots> = Inr (0, set_entries (sp_entries s @ map schema_entry (e # es)) s)"
  proof (cases "es = []")
    case False
    then show ?thesis using Cons.IH [of ?s] Cons.prems s by simp
  qed simp
  finally show ?case .
qed simp

lemma schema_file_read_back:
  assumes ok: "\<forall>e\<in>set es. schema_entry_ok e" "es \<noteq> []" and alloc: "allocator_ok P"
    and dir: "length (conf_dir cf) \<le> 4000"
    and there: "fopen_read fs (conf_dir cf @ ''/storage-schemas.conf'') = Some (unlines (concat (map schema_lines es)))"
  shows "conf_parse_storage_schema_file P fs cf = Inr (0, cf\<lparr>schema := map schema_entry es\<rparr>)"
proof -
  let ?s = "\<lparr>sp_conf = cf, sp_found = False, sp_entries = []\<rparr>"
  have "\<forall>l\<in>set (concat (map schema_lines es)). plain_line l"
    using ok(1) schema_entry_lines(1) [OF _ alloc, of _ ?s] by auto
  then have "read_lines (schema_line P) (unlines (concat (map schema_lines es))) ?s =
      Inr (0, set_entries (map schema_entry es) ?s)"
    using schema_run [OF ok(1) alloc _ ok(2), of ?s] by (simp add: read_lines_unlines)
  then show ?thesis
    using dir there
    by (simp add: conf_parse_storage_schema_file_def conf_filepath_def bind_sum_def set_entries_def)
qed

end
