(* ===== verification/Protocol_Text.thy ===== *)
theory Protocol_Text
  imports Protocol Conf_Text
begin

text \<open>
  Printing a sample in the line protocol: a name, a decimal value with an optional sign
  and fraction, and a timestamp. The scanner of \<open>protocol.c\<close> reads such a line back, with
  the value rounded to the nearest double.
\<close>

section \<open>Printing\<close>

definition fraction :: "string \<Rightarrow> string" where
  "fraction ds = (if ds = [] then [] else CHR ''.'' # ds)"

definition print_value :: "bool \<Rightarrow> nat \<Rightarrow> string \<Rightarrow> string" where
  "print_value neg n ds = (if neg then ''-'' else []) @ decimal n @ fraction ds"

definition value_of :: "bool \<Rightarrow> nat \<Rightarrow> string \<Rightarrow> cdouble" where
  "value_of neg n ds = double_make neg (base_value 10 (decimal n @ ds)) (10 ^ length ds) 0"

definition print_line :: "string \<Rightarrow> bool \<Rightarrow> nat \<Rightarrow> string \<Rightarrow> u32 \<Rightarrow> string" where
  "print_line name neg n ds t = name @ CHR '' '' # print_value neg n ds @ CHR '' '' # decimal (unat t)"

section \<open>The characters of a number\<close>

lemma tolower_other: "isdigit c \<or> c = CHR ''.'' \<or> c = CHR '' '' \<Longrightarrow> tolower c = c"
  by (auto simp: tolower_def isdigit_def char_code_def)

lemma digit_no_letter: "isdigit c \<or> c = CHR ''.'' \<or> c = CHR '' '' \<Longrightarrow> c \<notin> {CHR ''n'', CHR ''i'', CHR ''x'', CHR ''e''}"
  by (auto simp: isdigit_def char_code_def)

lemma float_chars_digits:
  "\<forall>c\<in>set ds. isdigit c \<Longrightarrow>
   float_chars False dig dot False False (ds @ r) = ds @ float_chars False (dig \<or> ds \<noteq> []) dot False False r"
  by (induction ds arbitrary: dig) auto

lemma float_chars_space: "float_chars False dig dot False False (CHR '' '' # r) = []"
  by (simp add: isdigit_def char_code_def tolower_def)

lemma float_chars_number:
  assumes "\<forall>c\<in>set ds. isdigit c"
  shows "float_chars False False False False False (decimal n @ fraction ds @ CHR '' '' # r) = decimal n @ fraction ds"
proof -
  have dec: "\<forall>c\<in>set (decimal n). isdigit c" using decimal_digits by blast
  have "float_chars False True False False False (fraction ds @ CHR '' '' # r) = fraction ds"
    using float_chars_digits [OF assms, of True True "CHR '' '' # r"] float_chars_space
    by (auto simp: fraction_def isdigit_def char_code_def tolower_def)
  then show ?thesis using float_chars_digits [OF dec] by simp
qed

lemma number_start:
  assumes "\<forall>c\<in>set ds. isdigit c"
  obtains d e u where "decimal n @ fraction ds @ CHR '' '' # r = d # e # u" "isdigit d"
    "isdigit e \<or> e = CHR ''.'' \<or> e = CHR '' ''"
proof -
  obtain d xs where d: "decimal n = d # xs" by (cases "decimal n") auto
  have dig: "isdigit d" "\<forall>c\<in>set xs. isdigit c" using decimal_digits [of _ n] d by auto
  obtain e u where e: "xs @ fraction ds @ CHR '' '' # r = e # u"
    by (cases "xs @ fraction ds @ CHR '' '' # r") auto
  moreover have "isdigit e \<or> e = CHR ''.'' \<or> e = CHR '' ''"
    using e dig(2) by (cases xs) (auto simp: fraction_def split: if_splits)
  ultimately show ?thesis using that d dig(1) by simp
qed

lemma starts_ci_letter:
  "c \<in> {CHR ''n'', CHR ''i''} \<Longrightarrow> isdigit d \<Longrightarrow> \<not> starts_ci (c # cs) (d # u)"
  using tolower_other [of d] digit_no_letter [of d] by (auto simp: starts_ci_def)

lemma starts_ci_hex:
  "isdigit e \<or> e = CHR ''.'' \<or> e = CHR '' '' \<Longrightarrow> \<not> starts_ci ''0x'' (d # e # u)"
  using tolower_other [of e] digit_no_letter [of e] by (auto simp: starts_ci_def)

lemma float_item_number:
  assumes "\<forall>c\<in>set ds. isdigit c"
  shows "float_item (decimal n @ fraction ds @ CHR '' '' # r) = Some (decimal n @ fraction ds)"
proof -
  obtain d e u where t: "decimal n @ fraction ds @ CHR '' '' # r = d # e # u" "isdigit d"
    "isdigit e \<or> e = CHR ''.'' \<or> e = CHR '' ''"
    by (rule number_start [OF assms])
  have "tolower d \<noteq> CHR ''n''" "tolower d \<noteq> CHR ''i''"
    using t(2) tolower_other [of d] digit_no_letter [of d] by auto
  moreover have "\<not> starts_ci ''0x'' (d # e # u)" using t(3) by (rule starts_ci_hex)
  moreover have "float_chars False False False False False (d # e # u) = decimal n @ fraction ds"
    using float_chars_number [OF assms, of n r] unfolding t(1) .
  ultimately show ?thesis unfolding t(1) float_item_def by (simp only: Let_def) simp
qed

text \<open>What \<open>strtod\<close> makes of it.\<close>

lemma decimal_body_number:
  assumes "\<forall>c\<in>set ds. isdigit c"
  shows "decimal_body (decimal n @ fraction ds) = Some (FRat (base_value 10 (decimal n @ ds)) (10 ^ length ds) 0)"
proof -
  have dec: "\<forall>c\<in>set (decimal n). isdigit c" using decimal_digits by blast
  have dot: "\<not> isdigit CHR ''.''" by (simp add: isdigit_def char_code_def)
  have "mantissa isdigit (decimal n @ fraction ds) = (decimal n, ds, [])"
    using dec assms dot
    by (auto simp: mantissa_def fraction_def takeWhile_append dropWhile_append takeWhile_eq_all_conv
        dropWhile_eq_Nil_conv Let_def)
  then show ?thesis
    by (cases "ds = []") (simp_all add: decimal_body_def exponent_part_def Let_def)
qed

lemma float_body_number:
  assumes "\<forall>c\<in>set ds. isdigit c"
  shows "float_body (decimal n @ fraction ds) = Some (FRat (base_value 10 (decimal n @ ds)) (10 ^ length ds) 0)"
proof -
  obtain d xs where d: "decimal n = d # xs" by (cases "decimal n") auto
  have dig: "isdigit d" "\<forall>c\<in>set xs. isdigit c" using decimal_digits [of _ n] d by auto
  have "\<not> starts_ci ''0x'' (decimal n @ fraction ds)"
  proof (cases "xs @ fraction ds")
    case Nil
    then show ?thesis using d by (simp add: starts_ci_def)
  next
    case (Cons e u)
    then have "isdigit e \<or> e = CHR ''.'' \<or> e = CHR '' ''"
      using dig(2) by (cases xs) (auto simp: fraction_def split: if_splits)
    then show ?thesis using starts_ci_hex [of e d u] d Cons by simp
  qed
  moreover have "\<not> starts_ci ''inf'' (decimal n @ fraction ds)" "\<not> starts_ci ''nan'' (decimal n @ fraction ds)"
    using d dig(1) by (simp_all add: starts_ci_letter)
  ultimately show ?thesis by (simp add: float_body_def decimal_body_number [OF assms])
qed

section \<open>The conversions\<close>

lemma strip_sign_digit:
  "isdigit d \<Longrightarrow> strip_sign ((if neg then ''-'' else []) @ d # u) = (neg, d # u)"
  "isdigit d \<Longrightarrow> dropWhile isspace ((if neg then ''-'' else []) @ d # u) = (if neg then ''-'' else []) @ d # u"
  using isdigit_not [of d] by (auto simp: strip_sign_def isspace_def)

lemma strtod_number:
  assumes "\<forall>c\<in>set ds. isdigit c"
  shows "strtod_opt (print_value neg n ds) = Some (value_of neg n ds)"
proof -
  obtain d xs where d: "decimal n = d # xs" by (cases "decimal n") auto
  then have "isdigit d" using decimal_digits [of d n] by simp
  then have "strip_sign (dropWhile isspace (print_value neg n ds)) = (neg, decimal n @ fraction ds)"
    using strip_sign_digit [of d neg "xs @ fraction ds"] d by (simp add: print_value_def)
  then show ?thesis using float_body_number [OF assms, of n] by (simp add: strtod_opt_def value_of_def)
qed

lemma scan_lf_number:
  assumes "\<forall>c\<in>set ds. isdigit c"
  shows "scan_lf (CHR '' '' # print_value neg n ds @ CHR '' '' # r) = Some (value_of neg n ds, CHR '' '' # r)"
proof -
  obtain d xs where d: "decimal n = d # xs" by (cases "decimal n") auto
  then have "isdigit d" using decimal_digits [of d n] by simp
  note strip = strip_sign_digit [OF this, of neg "xs @ fraction ds @ CHR '' '' # r"]
  let ?s = "(if neg then ''-'' else []) @ decimal n @ fraction ds @ CHR '' '' # r"
  have drop: "dropWhile isspace (CHR '' '' # print_value neg n ds @ CHR '' '' # r) = ?s"
    using strip(2) d by (simp add: print_value_def isspace_def)
  have sign: "strip_sign ?s = (neg, decimal n @ fraction ds @ CHR '' '' # r)" using strip(1) d by simp
  have "strtod_opt ((if neg then ''-'' else []) @ decimal n @ fraction ds) = Some (value_of neg n ds)"
    using strtod_number [OF assms, of neg n] by (simp add: print_value_def)
  then show ?thesis
    unfolding scan_lf_def drop Let_def sign prod.case float_item_number [OF assms] option.case by simp
qed

lemma scan_u_decimal: "scan_u (CHR '' '' # decimal (unat t)) = Some t"
proof -
  obtain d xs where d: "decimal (unat t) = d # xs" by (cases "decimal (unat t)") auto
  then have dig: "isdigit d" using decimal_digits [of d "unat t"] by simp
  note strip = strip_sign_digit [OF dig, of False xs]
  have "unat t < 2 ^ 64" using unat_u32_less [of t] by simp
  then have "strtoul10 (decimal (unat t)) = word_of_nat (unat t)"
    using strtoul10_digits [of "decimal (unat t)"] decimal_digits by (simp add: base_value_decimal)
  then have "ucast (strtoul10 (d # xs)) = (word_of_nat (unat t) :: u32)" unfolding d by (simp only: ucast_of_nat_u64)
  then have "ucast (strtoul10 (d # xs)) = t" by simp
  moreover have "dropWhile isspace (CHR '' '' # d # xs) = d # xs" using strip(2) by (simp add: isspace_def)
  moreover have "strip_sign (d # xs) = (False, d # xs)" using strip(1) by simp
  ultimately show ?thesis unfolding scan_u_def d Let_def using dig by simp
qed

lemma scan_name:
  assumes "plain_word name"
  shows "scan_s (name @ CHR '' '' # r) = Some (name, CHR '' '' # r)"
proof -
  obtain c cs where c: "name = c # cs" using assms by (cases name) (auto simp: plain_word_def)
  have word: "\<forall>c\<in>set name. \<not> isspace c" using assms by (simp add: plain_word_def)
  have "dropWhile isspace (name @ CHR '' '' # r) = name @ CHR '' '' # r" using word c by simp
  moreover have "takeWhile (\<lambda>c. \<not> isspace c) (name @ CHR '' '' # r) = name"
    "dropWhile (\<lambda>c. \<not> isspace c) (name @ CHR '' '' # r) = CHR '' '' # r"
    using word by (simp_all add: takeWhile_append dropWhile_append isspace_def)
  ultimately show ?thesis using c by (simp add: scan_s_def)
qed

section \<open>Lines and messages\<close>

lemma line_read_back:
  assumes "plain_word name" "length name < usable P METRIC_NAME_MAX_LEN" "\<forall>c\<in>set ds. isdigit c"
  shows "scan_metric_line P (print_line name neg n ds t) = Inr (name, value_of neg n ds, t)"
  unfolding scan_metric_line_def print_line_def scan_name [OF assms(1)] option.case prod.case
    scan_lf_number [OF assms(3)] scan_u_decimal
  using assms(2) by simp

lemma print_value_chars:
  assumes "\<forall>c\<in>set ds. isdigit c" "c \<in> set (print_value neg n ds)"
  shows "c \<noteq> CHR 0x0A \<and> c \<noteq> CHR 0x00"
proof -
  have "isdigit c \<or> c = CHR ''-'' \<or> c = CHR ''.''"
    using assms decimal_digits [of c n] by (auto simp: print_value_def fraction_def split: if_splits)
  then show ?thesis by (auto simp: isdigit_def char_code_def)
qed

lemma print_line_chars:
  assumes "plain_word name" "\<forall>c\<in>set ds. isdigit c"
  shows "CHR 0x0A \<notin> set (print_line name neg n ds t)" "CHR 0x00 \<notin> set (print_line name neg n ds t)"
    "print_line name neg n ds t \<noteq> []"
proof -
  have t: "CHR 0x0A \<notin> set (decimal (unat t))" "CHR 0x00 \<notin> set (decimal (unat t))"
    using decimal_digits [of "CHR 0x0A" "unat t"] decimal_digits [of "CHR 0x00" "unat t"]
    by (auto simp: isdigit_def char_code_def)
  have v: "CHR 0x0A \<notin> set (print_value neg n ds)" "CHR 0x00 \<notin> set (print_value neg n ds)"
    using print_value_chars [OF assms(2)] by blast+
  have w: "CHR 0x0A \<notin> set name" "CHR 0x00 \<notin> set name" using assms(1) by (auto simp: plain_word_def isspace_def)
  show "CHR 0x0A \<notin> set (print_line name neg n ds t)" "CHR 0x00 \<notin> set (print_line name neg n ds t)"
    "print_line name neg n ds t \<noteq> []"
    using t v w by (simp_all add: print_line_def)
qed

text \<open>A message of printed samples.\<close>

type_synonym printable = "string \<times> bool \<times> nat \<times> string \<times> u32"

fun printable_ok :: "printable \<Rightarrow> bool" where
  "printable_ok (name, neg, n, ds, t) \<longleftrightarrow> plain_word name \<and> length name < METRIC_NAME_MAX_LEN \<and> (\<forall>c\<in>set ds. isdigit c)"

fun printable_line :: "printable \<Rightarrow> string" where
  "printable_line (name, neg, n, ds, t) = print_line name neg n ds t"

fun printable_sample :: "printable \<Rightarrow> sample" where
  "printable_sample (name, neg, n, ds, t) = (name, t, value_of neg n ds)"

definition print_message :: "printable list \<Rightarrow> string" where
  "print_message xs = join CHR 0x0A (map printable_line xs)"

lemma printable_read_back:
  assumes "printable_ok x" "allocator_ok P"
  shows "line_ok P (printable_line x)" "sample_of P (printable_line x) = printable_sample x"
    "CHR 0x0A \<notin> set (printable_line x)" "CHR 0x00 \<notin> set (printable_line x)" "printable_line x \<noteq> []"
proof -
  obtain name neg n ds t where x: "x = (name, neg, n, ds, t)" by (metis prod_cases5)
  have ok: "plain_word name" "\<forall>c\<in>set ds. isdigit c" "length name < 100" using assms(1) x by simp_all
  have "100 \<le> usable P 100" using assms(2) by (simp add: allocator_ok_def)
  then have us: "length name < usable P 100" using ok(3) by simp
  show "line_ok P (printable_line x)" "sample_of P (printable_line x) = printable_sample x"
    using line_read_back [OF ok(1) us ok(2)] by (simp_all add: x line_ok_def sample_of_def)
  show "CHR 0x0A \<notin> set (printable_line x)" "CHR 0x00 \<notin> set (printable_line x)" "printable_line x \<noteq> []"
    using print_line_chars [OF ok(1,2)] by (simp_all add: x)
qed

lemma join_no_nul: "\<forall>l\<in>set ls. CHR 0x00 \<notin> set l \<Longrightarrow> c \<noteq> CHR 0x00 \<Longrightarrow> CHR 0x00 \<notin> set (join c ls)"
  by (induction c ls rule: join.induct) auto

lemma message_tokens:
  assumes "\<forall>x\<in>set xs. printable_ok x" "allocator_ok P"
  shows "tokens [CHR 0x0A] (cstr (print_message xs)) = map printable_line xs"
proof -
  note rb = printable_read_back [OF _ assms(2)]
  have "CHR 0x00 \<notin> set (print_message xs)"
    unfolding print_message_def using assms(1) rb(4) by (intro join_no_nul) auto
  then have "cstr (print_message xs) = print_message xs" by (rule cstr_id)
  moreover have "tokens [CHR 0x0A] (print_message xs) = map printable_line xs"
    unfolding print_message_def using assms(1) rb(3,5) by (intro tokens_join) auto
  ultimately show ?thesis by simp
qed

end
