(* ===== verification/Store_Properties.thy ===== *)
theory Store_Properties
  imports Writer_Race Receivers Monitoring Whisper_Sample Protocol_Text
begin

text \<open>
  The properties of the database and of the threads that fill and empty it: receivers,
  monitoring and writer.
\<close>

section \<open>A concrete daemon\<close>

definition plain_platform :: platform where
  "plain_platform = \<lparr>host = LittleEndian, usable = glibc_usable, pcre_compiles = (\<lambda>_. True),
     pcre_exec = (\<lambda>_ _. 1)\<rparr>"

definition plain_conf :: carbon_conf where
  "plain_conf = \<lparr>schema = [], aggregation = [], conf_dir = ''/etc'', conf_file = ''/etc/carbon.conf'',
     storage_dir = ''/s'', line_receiver_port = 2003, udp_receiver_port = 2003, run = True,
     tracing = False, conf_log_level = LOG_LEVEL_INFO\<rparr>"

definition empty_daemon :: daemon where
  "empty_daemon = \<lparr>io = \<lparr>fs_files = (\<lambda>_. None), fs_dirs = (\<lambda>p. p = []), fs_fds = [], fs_faults = [],
       fs_errno = ENOENT, monitoring_points = 5\<rparr>,
     h_metrics = (\<lambda>_. None), h_points = (\<lambda>_. None), h_fresh = 0, db_first = None, db_last = None\<rparr>"

lemma empty_daemon_inv: "db_inv empty_daemon" "db_abs empty_daemon = []"
  using database_init_inv [of empty_daemon empty_daemon]
  by (simp_all add: database_init_def empty_daemon_def)

text \<open>A daemon with one metric of one point.\<close>

definition one_daemon :: daemon where
  "one_daemon = empty_daemon\<lparr>
     h_metrics := [0 \<mapsto> \<lparr>m_name = ''a'', m_nb_points = 1, m_points = Some 1, m_last = Some 1, m_next = None\<rparr>],
     h_points := [1 \<mapsto> \<lparr>mp_timestamp = 30, mp_value = 7, mp_next = None\<rparr>],
     h_fresh := 2, db_first := Some 0, db_last := Some 0\<rparr>"

lemma one_daemon_inv: "db_inv one_daemon" "db_abs one_daemon = [(''a'', [(30, 7)])]"
proof -
  have sh: "db_shape one_daemon [0] (\<lambda>_. [1])"
    by (simp add: db_shape_def queue_def metric_shape_def one_daemon_def)
  show "db_inv one_daemon" by (rule db_shape_inv(1) [OF sh])
  show "db_abs one_daemon = [(''a'', [(30, 7)])]"
    unfolding db_shape_inv(2) [OF sh]
    by (simp add: db_view_def name_of_def point_of_def one_daemon_def)
qed

section \<open>The database\<close>

text \<open>Looking a name up in the linked list finds the metric of that name, and only that one,
  or none when no metric has it; the walk always ends.\<close>

lemma get_metric_finds:
  assumes "db_inv s"
  shows "\<exists>r. get_metric name s = Inr (r, s) \<and>
    (case r of None \<Rightarrow> name \<notin> fst ` set (db_abs s)
     | Some m \<Rightarrow> m \<in> set (metric_addrs s) \<and> name_of s m = name \<and>
         (\<forall>m'\<in>set (metric_addrs s). name_of s m' = name \<longrightarrow> m' = m))"
proof -
  let ?ms = "metric_addrs s"
  have sh: "db_shape s ?ms (point_addrs s)" using assms by (simp add: db_inv_def)
  have "m' = m" if "find (\<lambda>m. name_of s m = name) ?ms = Some m" "m' \<in> set ?ms" "name_of s m' = name" for m m'
  proof -
    have "m \<in> set ?ms" "name_of s m = name" using that(1) by (auto simp: find_Some_iff)
    moreover have "inj_on (name_of s) (set ?ms)" using sh by (simp add: db_shape_def distinct_map)
    ultimately show ?thesis using that(2,3) by (simp add: inj_on_def)
  qed
  then show ?thesis
    using get_metric_shape [OF sh, of name]
    by (auto simp: db_abs_names find_None_iff find_Some_iff split: option.splits intro!: exI)
qed

text \<open>C3: storing a value under a name keeps the shape of the heap and appends the point to the
  metric of that name, which is created behind the others when it is new; files and
  counters are untouched.\<close>

theorem store_point_appends:
  assumes "db_inv s"
  shows "\<exists>s'. store_point name ts v s = Inr ((), s') \<and> db_inv s' \<and>
    db_abs s' = record_point name (ts, v) (db_abs s) \<and> io s' = io s"
  using store_point_refines [OF assms, of name ts v] by blast

theorem store_point_appends_witness:
  "\<exists>s'. store_point ''b'' 40 8 one_daemon = Inr ((), s') \<and> db_inv s' \<and>
    db_abs s' = record_point ''b'' (40, 8) (db_abs one_daemon) \<and> io s' = io one_daemon"
  by (rule store_point_appends [OF one_daemon_inv(1)])

section \<open>Receiving\<close>

text \<open>C8: a message that fits the buffer and whose lines all parse is stored completely and in
  order: every metric ends with the points that the message holds for it, and the number
  of points that wait grows by the number of lines; the files do not change.\<close>

theorem message_stored:
  assumes "db_inv s" "length mesg < 65535" "\<forall>l\<in>set (tokens [CHR 0x0A] (cstr mesg)). line_ok P l"
  shows "\<exists>s'. receiver_udp_turn P (Received mesg) s = Inr ((), s') \<and>
    receiver_tcp_turn P (Accepted (Received mesg)) s = Inr ((), s') \<and> db_inv s' \<and> io s' = io s \<and>
    pending (db_abs s') = pending (db_abs s) + length (tokens [CHR 0x0A] (cstr mesg)) \<and>
    (\<forall>n. points_of n (db_abs s') = points_of n (db_abs s) @
      map snd (filter (\<lambda>x. fst x = n) (map (sample_of P) (tokens [CHR 0x0A] (cstr mesg)))))"
proof -
  obtain s' where "process_mesg P 65535 mesg s = Inr ((), s')" "db_inv s'"
    "db_abs s' = record_all (map (sample_of P) (tokens [CHR 0x0A] (cstr mesg))) (db_abs s)" "io s' = io s"
    using process_mesg_refines [OF assms] by blast
  then show ?thesis
    by (intro exI [of _ s'])
      (simp add: receiver_udp_turn_def receiver_tcp_turn_def points_of_record_all pending_record_all)
qed

definition sample_line :: string where
  "sample_line = ''a.b 7 40''"

lemma sample_line_tokens: "tokens [CHR 0x0A] (cstr sample_line) = [sample_line]"
proof -
  have "cstr sample_line = sample_line" by (simp add: cstr_def sample_line_def)
  then show ?thesis using tokens_join [of "[sample_line]" "[CHR 0x0A]" "CHR 0x0A"] by (simp add: sample_line_def)
qed

lemma sample_line_ok: "line_ok plain_platform sample_line"
  by (simp add: line_ok_iff scan_s_def sample_line_def isspace_def plain_platform_def glibc_usable_def)

theorem message_stored_witness:
  "\<exists>s'. receiver_udp_turn plain_platform (Received sample_line) one_daemon = Inr ((), s') \<and>
    receiver_tcp_turn plain_platform (Accepted (Received sample_line)) one_daemon = Inr ((), s') \<and> db_inv s' \<and>
    io s' = io one_daemon \<and>
    pending (db_abs s') = pending (db_abs one_daemon) + length (tokens [CHR 0x0A] (cstr sample_line)) \<and>
    (\<forall>n. points_of n (db_abs s') = points_of n (db_abs one_daemon) @
      map snd (filter (\<lambda>x. fst x = n) (map (sample_of plain_platform) (tokens [CHR 0x0A] (cstr sample_line)))))"
  by (rule message_stored [OF one_daemon_inv(1)])
    (simp_all only: sample_line_tokens list.set ball_simps sample_line_ok, simp_all add: sample_line_def sample_line_ok)

text \<open>C17: a message of samples that are printed in the line protocol, with names, decimal values of
  any sign and fraction, and timestamps, is stored as these samples, in their order; each
  value is the double nearest to the decimal number.\<close>

theorem message_round_trip:
  assumes "db_inv s" "allocator_ok P" "\<forall>x\<in>set xs. printable_ok x" "length (print_message xs) < 65535"
  shows "\<exists>s'. receiver_udp_turn P (Received (print_message xs)) s = Inr ((), s') \<and> db_inv s' \<and>
    db_abs s' = record_all (map printable_sample xs) (db_abs s)"
proof -
  note rb = printable_read_back [OF _ assms(2)] and toks = message_tokens [OF assms(3,2)]
  have ok: "\<forall>l\<in>set (tokens [CHR 0x0A] (cstr (print_message xs))). line_ok P l"
    unfolding toks using assms(3) rb(1) by auto
  have smp: "map (sample_of P) (map printable_line xs) = map printable_sample xs"
    using assms(3) rb(2) by simp
  show ?thesis
    using process_mesg_refines [OF assms(1,4) ok] unfolding toks smp by (auto simp: receiver_udp_turn_def)
qed

theorem message_round_trip_witness:
  "\<exists>s'. receiver_udp_turn plain_platform (Received (print_message [(''a.b'', True, 12, ''5'', 40)])) one_daemon =
      Inr ((), s') \<and> db_inv s' \<and>
    db_abs s' = record_all [(''a.b'', 40, value_of True 12 ''5'')] (db_abs one_daemon)"
proof -
  have "\<forall>x\<in>set [(''a.b'', True, 12, ''5'', 40)]. printable_ok x"
    by (simp add: plain_word_def isspace_def isdigit_def char_code_def)
  moreover have "allocator_ok plain_platform"
    by (simp add: allocator_ok_def plain_platform_def glibc_usable_ge)
  moreover have "length (print_message [(''a.b'', True, 12, ''5'', 40)]) < 65535"
    by (simp add: print_message_def print_line_def print_value_def fraction_def decimal.simps)
  ultimately show ?thesis
    using message_round_trip [OF one_daemon_inv(1), of plain_platform "[(''a.b'', True, 12, ''5'', 40)]"] by simp
qed

text \<open>C37: a blank line between the lines of a message makes the parser read a name that was never
  written, and a name longer than its buffer overwrites the heap; the lines before it
  have been stored by then.\<close>

theorem message_bad_line:
  assumes "db_inv s" "tokens [CHR 0x0A] m = good @ bad # rest" "\<forall>l\<in>set good. line_ok P l"
  shows "(dropWhile isspace bad = [] \<longrightarrow> protocol_process_metrics_multiline P m s = Inl UninitRead) \<and>
    (\<forall>w r. scan_s bad = Some (w, r) \<longrightarrow> usable P 100 \<le> length w \<longrightarrow>
       protocol_process_metrics_multiline P m s = Inl HeapOverflow)"
proof (intro conjI allI impI)
  assume "dropWhile isspace bad = []"
  then have "scan_metric_line P bad = Inl UninitRead" by (simp only: scan_metric_line_def scan_s_def) simp
  then show "protocol_process_metrics_multiline P m s = Inl UninitRead" by (rule multiline_bad_line [OF assms])
next
  fix w r
  assume "scan_s bad = Some (w, r)" "usable P 100 \<le> length w"
  then have "scan_metric_line P bad = Inl HeapOverflow" by (simp add: scan_metric_line_def)
  then show "protocol_process_metrics_multiline P m s = Inl HeapOverflow" by (rule multiline_bad_line [OF assms])
qed

theorem message_bad_line_witness:
  "protocol_process_metrics_multiline plain_platform '' '' one_daemon = Inl UninitRead"
  using message_bad_line [OF one_daemon_inv(1), of "'' ''" "[]" "'' ''" "[]" plain_platform]
    tokens_join [of "['' '']" "[CHR 0x0A]" "CHR 0x0A"]
  by (simp add: isspace_def)

text \<open>A message of 65535 bytes, the most that the receivers ask for, puts the terminating NUL one
  byte behind the array.\<close>

lemma message_buffer_full:
  "length mesg = 65535 \<Longrightarrow> receiver_tcp_turn P (Accepted (Received mesg)) s = Inl StackOverflow"
  by (simp add: receiver_tcp_turn_def process_mesg_full)

section \<open>Monitoring\<close>

text \<open>C30: rounds of the monitoring that start on a full second and take less than a second each
  store one point per second under \<open>carbond.points\<close>: the number of points written since the
  round before, after which the counter starts again at 0. No other metric changes.\<close>

theorem monitoring_every_second:
  assumes "db_inv s" "\<forall>d\<in>set ds. 0 < d \<and> d < 1000000000" "ds \<noteq> []"
  shows "\<exists>s'. monitoring_rounds (k * 1000000000) ds s = Inr ((), s') \<and> db_inv s' \<and>
    io s' = (io s)\<lparr>monitoring_points := 0\<rparr> \<and>
    points_of ''carbond.points'' (db_abs s') = points_of ''carbond.points'' (db_abs s) @
      map (\<lambda>i. (word_of_int (k + int i), double_of_u32 (if i = 0 then monitoring_points (io s) else 0))) [0..<length ds] \<and>
    (\<forall>n. n \<noteq> ''carbond.points'' \<longrightarrow> points_of n (db_abs s') = points_of n (db_abs s))"
proof -
  obtain s' where "monitoring_rounds (k * 1000000000) ds s = Inr ((), s')" "db_inv s'"
    "db_abs s' = record_all (round_samples k (length ds) (monitoring_points (io s))) (db_abs s)"
    "io s' = (io s)\<lparr>monitoring_points := 0\<rparr>"
    using monitoring_rounds_refine [OF assms(1,2)] assms(3) by auto
  then show ?thesis
    by (simp add: points_of_record_all round_samples_def filter_map comp_def)
qed

theorem monitoring_every_second_witness:
  "\<exists>s'. monitoring_rounds (7 * 1000000000) [5, 250000] empty_daemon = Inr ((), s') \<and> db_inv s' \<and>
    map fst (points_of ''carbond.points'' (db_abs s')) = [7, 8]"
proof -
  have "map fst (points_of ''carbond.points'' (db_abs empty_daemon)) = []"
    using empty_daemon_inv(2) by (simp add: points_of_def)
  then show ?thesis
    using monitoring_every_second [OF empty_daemon_inv(1), of "[5, 250000]" 7] by (auto simp: upt_rec)
qed

section \<open>The writer\<close>

text \<open>C7: a turn of the writer does nothing when no point waits; otherwise it takes a metric with
  the most points, passes them to the storage in their order and empties the metric, and
  it stops the process only when a write does.\<close>

theorem writer_turn_writes:
  assumes "db_inv s" "counts_fit (db_abs s)"
  shows "pending (db_abs s) = 0 \<and> writer_turn P cf s = Inr (False, s) \<or>
    (\<exists>n\<in>fst ` set (db_abs s). points_of n (db_abs s) \<noteq> [] \<and>
       (\<forall>k\<in>fst ` set (db_abs s). length (points_of k (db_abs s)) \<le> length (points_of n (db_abs s))) \<and>
       (case write_all P cf n (points_of n (db_abs s)) (io s) of
          Inl e \<Rightarrow> writer_turn P cf s = Inl e
        | Inr (_, i) \<Rightarrow> \<exists>s'. writer_turn P cf s = Inr (True, s') \<and> db_inv s' \<and>
            db_abs s' = drain n (db_abs s) \<and> io s' = i))"
  by (rule writer_turn_refines [OF assms])

theorem writer_turn_writes_witness:
  "pending (db_abs one_daemon) = 0 \<and> writer_turn plain_platform plain_conf one_daemon = Inr (False, one_daemon) \<or>
    (\<exists>n\<in>fst ` set (db_abs one_daemon). points_of n (db_abs one_daemon) \<noteq> [] \<and>
       (\<forall>k\<in>fst ` set (db_abs one_daemon).
          length (points_of k (db_abs one_daemon)) \<le> length (points_of n (db_abs one_daemon))) \<and>
       (case write_all plain_platform plain_conf n (points_of n (db_abs one_daemon)) (io one_daemon) of
          Inl e \<Rightarrow> writer_turn plain_platform plain_conf one_daemon = Inl e
        | Inr (_, i) \<Rightarrow> \<exists>s'. writer_turn plain_platform plain_conf one_daemon = Inr (True, s') \<and> db_inv s' \<and>
            db_abs s' = drain n (db_abs one_daemon) \<and> io s' = i))"
  by (rule writer_turn_writes [OF one_daemon_inv(1)]) (simp add: one_daemon_inv counts_fit_def)

section \<open>Writer and receivers together\<close>

text \<open>C16: the steps of the writer, run without a receiver in between, make a turn: they pass exactly
  the points of one metric to the storage, in their order, and leave the daemon as the
  sequential turn does.\<close>

theorem writer_alone:
  assumes "db_inv d" "writer_turn P cf d = Inr (True, d')"
  shows "\<exists>k n. schedule P cf (replicate k Step) \<lparr>sh_daemon = d, sh_pos = Resting, sh_written = w\<rparr> =
      Inr \<lparr>sh_daemon = d', sh_pos = Resting, sh_written = w @ map (Pair n) (points_of n (db_abs d))\<rparr>"
  by (rule turn_alone [OF assms])

definition race_daemon :: daemon where
  "race_daemon = one_daemon\<lparr>io := sample_stored,
     h_metrics := [0 \<mapsto> \<lparr>m_name = ''a.b'', m_nb_points = 1, m_points = Some 1, m_last = Some 1, m_next = None\<rparr>],
     h_points := [1 \<mapsto> \<lparr>mp_timestamp = 35, mp_value = 7, mp_next = None\<rparr>]\<rparr>"

lemma race_daemon_inv: "db_inv race_daemon" "db_abs race_daemon = [(''a.b'', [(35, 7)])]"
proof -
  have sh: "db_shape race_daemon [0] (\<lambda>_. [1])"
    by (simp add: db_shape_def queue_def metric_shape_def race_daemon_def one_daemon_def)
  show "db_inv race_daemon" by (rule db_shape_inv(1) [OF sh])
  show "db_abs race_daemon = [(''a.b'', [(35, 7)])]"
    unfolding db_shape_inv(2) [OF sh]
    by (simp add: db_view_def name_of_def point_of_def race_daemon_def one_daemon_def)
qed

lemma race_io: "io race_daemon = sample_stored"
  by (simp add: race_daemon_def)

lemma race_turn: "\<exists>d'. writer_turn sample_platform sample_conf race_daemon = Inr (True, d')"
proof -
  obtain i where "whisper_write_value sample_platform sample_conf ''a.b'' 35 7 sample_stored = Inr (0, i)"
    using sample_write by blast
  then have w: "write_all sample_platform sample_conf ''a.b'' [(35, 7)] sample_stored = Inr ((), i)"
    by (simp add: andthen_def ret_def)
  have "counts_fit (db_abs race_daemon)" by (simp add: race_daemon_inv counts_fit_def)
  from writer_turn_refines [OF race_daemon_inv(1) this, of sample_platform sample_conf] w show ?thesis
    by (auto simp: race_daemon_inv race_io pending_def points_of_def)
qed

theorem writer_alone_witness:
  "\<exists>k n d'. schedule sample_platform sample_conf (replicate k Step)
        \<lparr>sh_daemon = race_daemon, sh_pos = Resting, sh_written = []\<rparr> =
      Inr \<lparr>sh_daemon = d', sh_pos = Resting, sh_written = map (Pair n) (points_of n (db_abs race_daemon))\<rparr>"
proof -
  obtain d' where "writer_turn sample_platform sample_conf race_daemon = Inr (True, d')" using race_turn by blast
  from writer_alone [OF race_daemon_inv(1) this, of "[]"] show ?thesis by auto
qed

text \<open>C15: a receiver that stores a point for the metric that is being written can lose it: the
  point is neither passed to the storage nor waits any more. A little later the store
  writes into the point that was just freed.\<close>

theorem writer_race:
  assumes "db_inv d" "db_abs d = [(n, [(t0, v0)])]"
    and "whisper_write_value P cf n t0 v0 (io d) = Inr (r, i)"
  shows "(\<exists>s. schedule P cf [Step, Step, Store n t v, Step, Step, Step, Step, Step, Step]
        \<lparr>sh_daemon = d, sh_pos = Resting, sh_written = []\<rparr> = Inr s \<and>
      sh_pos s = Resting \<and> sh_written s = [(n, t0, v0)] \<and>
      db_inv (sh_daemon s) \<and> db_abs (sh_daemon s) = [(n, [])]) \<and>
    schedule P cf [Step, Step, Step, Step, Store n t v]
      \<lparr>sh_daemon = d, sh_pos = Resting, sh_written = []\<rparr> = Inl UseAfterFree"
  using store_lost [OF assms] store_after_free [OF assms] by blast

theorem writer_race_witness:
  "schedule sample_platform sample_conf [Step, Step, Step, Step, Store ''a.b'' 45 8]
      \<lparr>sh_daemon = race_daemon, sh_pos = Resting, sh_written = []\<rparr> = Inl UseAfterFree"
proof -
  obtain i where "whisper_write_value sample_platform sample_conf ''a.b'' 35 7 (io race_daemon) = Inr (0, i)"
    using sample_write race_io by auto
  from writer_race [OF race_daemon_inv this, of 45 8] show ?thesis by blast
qed

end
