(* ===== verification/Conf_Aggregation.thy ===== *)
theory Conf_Aggregation
  imports Conf_Text
begin

text \<open>
  The text of \<open>storage-aggregation.conf\<close> and what its parser makes of it. A stanza without
  the line \<open>xFilesFactor\<close> takes the factor of the stanza before it, because the variable
  of the parser keeps its value.
\<close>

section \<open>Stanzas\<close>

text \<open>A pattern, the text of its factor if it has one, and the name of a method.\<close>

type_synonym agg_stanza = "string \<times> string option \<times> string"

fun agg_lines :: "agg_stanza \<Rightarrow> string list" where
  "agg_lines (p, x, m) =
     (''pattern='' @ p) # (case x of None \<Rightarrow> [] | Some t \<Rightarrow> [''xFilesFactor='' @ t]) @ [''aggregationMethod='' @ m]"

text \<open>The entries of the configuration, from the factor that is current at the start.\<close>

fun agg_entries :: "cfloat \<Rightarrow> agg_stanza list \<Rightarrow> pattern_aggregation list" where
  "agg_entries x [] = []"
| "agg_entries x ((p, y, m) # es) =
     (let x' = (case y of None \<Rightarrow> x | Some t \<Rightarrow> strtof t)
      in \<lparr>agg_pattern = p, agg_xff = x', agg_method = conf_get_aggregation_method m\<rparr> # agg_entries x' es)"

fun agg_stanza_ok :: "platform \<Rightarrow> agg_stanza \<Rightarrow> bool" where
  "agg_stanza_ok P (p, x, m) \<longleftrightarrow>
     plain_word p \<and> plain_word m \<and> (case x of None \<Rightarrow> True | Some t \<Rightarrow> plain_word t \<and> length t < 250) \<and>
     length p < 250 \<and> length m < 250 \<and> length p < usable P (length p - 1)"

section \<open>Lines\<close>

lemma key_line:
  assumes "f (key @ w) s = Inr (Go s')" "plain_word w"
    and "\<forall>c\<in>set key. \<not> isspace c \<and> c \<noteq> CHR 0x00" "length key + length w < READ_BUF_MAX - 3"
  shows "run_lines f ((key @ w) # ls) s = run_lines f ls s'"
  unfolding run_lines.simps plain_word_line(2) [OF assms(2-4)] assms(1) by simp

lemma pattern_line:
  assumes "plain_word p" "\<not> ap_found s"
  shows "aggregation_line P (''pattern='' @ p) s = Inr (Go (s\<lparr>ap_found := True, ap_pattern := Some p\<rparr>))"
  unfolding aggregation_line_def
  using assms(2) starts_with_key [OF plain_word_nonempty [OF assms(1)]] scan_value_word [OF assms(1)]
  by (simp only: if_True not_False_eq_True)

lemma factor_line:
  assumes "plain_word t" "ap_found s"
  shows "aggregation_line P (''xFilesFactor='' @ t) s = Inr (Go (s\<lparr>ap_xff_s := Some t, ap_xff := strtof t\<rparr>))"
  unfolding aggregation_line_def
  using assms(2) starts_with_key [OF plain_word_nonempty [OF assms(1)]] scan_value_word [OF assms(1)]
  by (simp only: if_True if_False not_True_eq_False option.case)

lemma method_line:
  assumes m: "plain_word m" and s: "ap_found s" "ap_pattern s = Some p"
    and p: "p \<noteq> []" "length p < usable P (length p - 1)"
  shows "aggregation_line P (''aggregationMethod='' @ m) s =
    Inr (Go (s\<lparr>ap_conf := (ap_conf s)\<lparr>aggregation := aggregation (ap_conf s) @
        [\<lparr>agg_pattern = p, agg_xff = ap_xff s, agg_method = conf_get_aggregation_method m\<rparr>]\<rparr>,
      ap_found := False, ap_method_s := Some m\<rparr>))"
proof -
  have other: "\<not> string_starts_with (''aggregationMethod='' @ m) ''xFilesFactor=''"
    by (simp add: string_starts_with_def)
  have add: "conf_add_pattern_aggregation P cf p x a = Inr (cf\<lparr>aggregation := aggregation cf @
      [\<lparr>agg_pattern = p, agg_xff = x, agg_method = a\<rparr>]\<rparr>)" for cf x a
    using p by (simp add: conf_add_pattern_aggregation_def)
  show ?thesis
    unfolding aggregation_line_def
    using s other starts_with_key [OF plain_word_nonempty [OF m]] scan_value_word [OF m] add
    by (simp only: bind_sum_def sum.case if_True if_False not_True_eq_False option.case)
qed

lemma agg_lines_plain:
  assumes "agg_stanza_ok P e"
  shows "\<forall>l\<in>set (agg_lines e). plain_line l"
proof -
  obtain p x m where e: "e = (p, x, m)" by (cases e)
  have "plain_line (''pattern='' @ p)" "plain_line (''aggregationMethod='' @ m)"
    using assms e by (intro plain_word_line(1); simp add: isspace_def)+
  moreover have "plain_line (''xFilesFactor='' @ t)" if "x = Some t" for t
    using assms e that by (intro plain_word_line(1)) (simp_all add: isspace_def)
  ultimately show ?thesis unfolding e agg_lines.simps by (cases x) simp_all
qed

text \<open>A stanza adds its entry and leaves the parser ready for the next one.\<close>

lemma agg_stanza_run:
  assumes ok: "agg_stanza_ok P (p, x, m)" and s: "\<not> ap_found s"
  defines "y \<equiv> (case x of None \<Rightarrow> ap_xff s | Some t \<Rightarrow> strtof t)"
  shows "\<exists>s'. run_lines (aggregation_line P) (agg_lines (p, x, m) @ ls) s = run_lines (aggregation_line P) ls s' \<and>
    \<not> ap_found s' \<and> ap_xff s' = y \<and> ap_conf s' = (ap_conf s)\<lparr>aggregation := aggregation (ap_conf s) @
      [\<lparr>agg_pattern = p, agg_xff = y, agg_method = conf_get_aggregation_method m\<rparr>]\<rparr>"
proof -
  have w: "plain_word p" "plain_word m" "length p < 250" "length m < 250" "length p < usable P (length p - 1)"
    using ok by simp_all
  let ?s1 = "s\<lparr>ap_found := True, ap_pattern := Some p\<rparr>"
  let ?s2 = "case x of None \<Rightarrow> ?s1 | Some t \<Rightarrow> ?s1\<lparr>ap_xff_s := Some t, ap_xff := strtof t\<rparr>"
  have "run_lines (aggregation_line P) ((''pattern='' @ p) # rest) s = run_lines (aggregation_line P) rest ?s1" for rest
    by (rule key_line [where f = "aggregation_line P", OF pattern_line [OF w(1) s] w(1)]) (use w(3) in \<open>simp_all add: isspace_def\<close>)
  moreover have "run_lines (aggregation_line P) ((case x of None \<Rightarrow> [] | Some t \<Rightarrow> [''xFilesFactor='' @ t]) @ rest) ?s1 =
      run_lines (aggregation_line P) rest ?s2" for rest
  proof (cases x)
    case (Some t)
    then have t: "plain_word t" "length t < 250" using ok by simp_all
    have "run_lines (aggregation_line P) ((''xFilesFactor='' @ t) # rest) ?s1 =
        run_lines (aggregation_line P) rest (?s1\<lparr>ap_xff_s := Some t, ap_xff := strtof t\<rparr>)"
      by (rule key_line [where f = "aggregation_line P", OF factor_line [OF t(1)] t(1)]) (use t(2) in \<open>simp_all add: isspace_def\<close>)
    then show ?thesis unfolding Some option.case append_Cons [of _ "[]"] append_Nil .
  qed simp
  moreover have s2: "ap_found ?s2" "ap_pattern ?s2 = Some p" "ap_xff ?s2 = y" "ap_conf ?s2 = ap_conf s"
    by (simp_all add: y_def split: option.splits)
  moreover have "run_lines (aggregation_line P) ((''aggregationMethod='' @ m) # ls) ?s2 =
      run_lines (aggregation_line P) ls (?s2\<lparr>ap_conf := (ap_conf ?s2)\<lparr>aggregation := aggregation (ap_conf ?s2) @
        [\<lparr>agg_pattern = p, agg_xff = ap_xff ?s2, agg_method = conf_get_aggregation_method m\<rparr>]\<rparr>,
      ap_found := False, ap_method_s := Some m\<rparr>)"
    by (rule key_line [where f = "aggregation_line P", OF method_line [OF w(2) s2(1,2) plain_word_nonempty [OF w(1)] w(5)] w(2)])
      (use w(4) in \<open>simp_all add: isspace_def\<close>)
  ultimately have "run_lines (aggregation_line P) (agg_lines (p, x, m) @ ls) s =
      run_lines (aggregation_line P) ls (?s2\<lparr>ap_conf := (ap_conf s)\<lparr>aggregation := aggregation (ap_conf s) @
        [\<lparr>agg_pattern = p, agg_xff = y, agg_method = conf_get_aggregation_method m\<rparr>]\<rparr>,
      ap_found := False, ap_method_s := Some m\<rparr>)"
    by (simp only: agg_lines.simps append_Cons append_assoc append_Nil)
  then show ?thesis using s2(3) by (rule_tac exI) (auto simp: s2)
qed

section \<open>The file\<close>

lemma agg_run:
  "\<forall>e\<in>set es. agg_stanza_ok P e \<Longrightarrow> \<not> ap_found s \<Longrightarrow>
   \<exists>s'. run_lines (aggregation_line P) (concat (map agg_lines es)) s = Inr (0, s') \<and>
     ap_conf s' = (ap_conf s)\<lparr>aggregation := aggregation (ap_conf s) @ agg_entries (ap_xff s) es\<rparr>"
proof (induction es arbitrary: s)
  case Nil
  then show ?case by simp
next
  case (Cons e es)
  obtain p x m where e: "e = (p, x, m)" by (cases e)
  let ?y = "case x of None \<Rightarrow> ap_xff s | Some t \<Rightarrow> strtof t"
  have ok: "agg_stanza_ok P (p, x, m)" using Cons.prems(1) e by simp
  obtain s1 where s1: "run_lines (aggregation_line P) (agg_lines e @ concat (map agg_lines es)) s =
      run_lines (aggregation_line P) (concat (map agg_lines es)) s1"
    "\<not> ap_found s1" "ap_xff s1 = ?y"
    "ap_conf s1 = (ap_conf s)\<lparr>aggregation := aggregation (ap_conf s) @
      [\<lparr>agg_pattern = p, agg_xff = ?y, agg_method = conf_get_aggregation_method m\<rparr>]\<rparr>"
    using agg_stanza_run [OF ok Cons.prems(2)] unfolding e by blast
  obtain s2 where s2: "run_lines (aggregation_line P) (concat (map agg_lines es)) s1 = Inr (0, s2)"
    "ap_conf s2 = (ap_conf s1)\<lparr>aggregation := aggregation (ap_conf s1) @ agg_entries ?y es\<rparr>"
    using Cons.IH [OF _ s1(2)] Cons.prems(1) s1(3) by auto
  have "concat (map agg_lines (e # es)) = agg_lines e @ concat (map agg_lines es)" by simp
  then show ?case using s1 s2 by (simp add: e Let_def del: agg_lines.simps run_lines.simps)
qed

lemma aggregation_file_read_back:
  assumes ok: "\<forall>e\<in>set es. agg_stanza_ok P e" and dir: "length (conf_dir cf) \<le> 4000"
    and there: "fopen_read fs (conf_dir cf @ ''/storage-aggregation.conf'') = Some (unlines (concat (map agg_lines es)))"
  shows "conf_parse_storage_aggregation_file P fs cf =
    Inr (0, cf\<lparr>aggregation := aggregation cf @ agg_entries 0 es\<rparr>)"
proof -
  let ?s = "\<lparr>ap_conf = cf, ap_found = False, ap_pattern = None, ap_xff_s = None, ap_method_s = None, ap_xff = 0\<rparr>"
  have "\<forall>l\<in>set (concat (map agg_lines es)). plain_line l" using ok agg_lines_plain by fastforce
  moreover obtain s' where "run_lines (aggregation_line P) (concat (map agg_lines es)) ?s = Inr (0, s')"
    "ap_conf s' = cf\<lparr>aggregation := aggregation cf @ agg_entries 0 es\<rparr>"
    using agg_run [OF ok, of ?s] by auto
  ultimately show ?thesis
    using dir there
    by (simp add: conf_parse_storage_aggregation_file_def conf_filepath_def bind_sum_def read_lines_unlines)
qed

end
