(* ===== verification/Conf_Carbon.thy ===== *)
theory Conf_Carbon
  imports Conf_Aggregation
begin

text \<open>
  The text of \<open>carbon.conf\<close>, and what the three parsers together make of the three
  files: the settings of the first one decide where the other two are looked for.
\<close>

section \<open>Settings\<close>

datatype setting = ConfDir string | StorageDir string | LinePort nat | UdpPort nat

fun setting_line :: "setting \<Rightarrow> string" where
  "setting_line (ConfDir d) = ''CONF_DIR='' @ d"
| "setting_line (StorageDir d) = ''STORAGE_DIR='' @ d"
| "setting_line (LinePort n) = ''LINE_RECEIVER_PORT='' @ decimal n"
| "setting_line (UdpPort n) = ''UDP_RECEIVER_PORT='' @ decimal n"

text \<open>What a setting does to a configuration.\<close>

fun apply_setting :: "setting \<Rightarrow> carbon_conf \<Rightarrow> carbon_conf" where
  "apply_setting (ConfDir d) c = c\<lparr>conf_dir := d\<rparr>"
| "apply_setting (StorageDir d) c = c\<lparr>storage_dir := d\<rparr>"
| "apply_setting (LinePort n) c = c\<lparr>line_receiver_port := int n\<rparr>"
| "apply_setting (UdpPort n) c = c\<lparr>udp_receiver_port := int n\<rparr>"

definition settings :: "setting list \<Rightarrow> carbon_conf \<Rightarrow> carbon_conf" where
  "settings ss = fold apply_setting ss"

fun setting_ok :: "setting \<Rightarrow> bool" where
  "setting_ok (ConfDir d) \<longleftrightarrow> plain_word d \<and> CHR ''='' \<notin> set d \<and> length d < 250"
| "setting_ok (StorageDir d) \<longleftrightarrow> plain_word d \<and> CHR ''='' \<notin> set d \<and> length d < 250"
| "setting_ok (LinePort n) \<longleftrightarrow> n < 2 ^ 31"
| "setting_ok (UdpPort n) \<longleftrightarrow> n < 2 ^ 31"

section \<open>Lines\<close>

lemma strtol10_decimal:
  assumes "n < 2 ^ 31"
  shows "strtol10 (decimal n) = (int n, False)"
proof -
  obtain d ds where ds: "decimal n = d # ds" by (cases "decimal n") auto
  have "isdigit d" using decimal_digits [of d n] ds by simp
  then have d: "\<not> isspace d" "d \<noteq> CHR ''-''" "d \<noteq> CHR ''+''" using isdigit_not by auto
  have "takeWhile isdigit (decimal n) = decimal n"
    using decimal_digits by (simp add: takeWhile_eq_all_conv)
  moreover have "int n < 2 ^ 63"
    using assms by simp
  ultimately show ?thesis
    using d ds base_value_decimal [of n] by (simp add: strtol10_def strip_sign_def Let_def)
qed

lemma decimal_word: "plain_word (decimal n)" "CHR ''='' \<notin> set (decimal n)"
proof -
  have "c \<noteq> CHR ''=''" if "c \<in> set (decimal n)" for c
    using decimal_digits [OF that] by (auto simp: isdigit_def char_code_def)
  then show "CHR ''='' \<notin> set (decimal n)" by blast
  show "plain_word (decimal n)"
    using decimal_digits isdigit_not by (auto simp: plain_word_def)
qed

lemma decimal_length: "n < 10 ^ Suc k \<Longrightarrow> length (decimal n) \<le> Suc k"
proof (induction k arbitrary: n)
  case 0
  then show ?case by (simp add: decimal.simps)
next
  case (Suc k)
  have "n div 10 < 10 ^ Suc k" using Suc.prems by (simp add: less_mult_imp_div_less)
  from Suc.IH [OF this] show ?case by (subst decimal.simps) simp
qed

lemma split_key:
  assumes "key \<noteq> []" "CHR ''='' \<notin> set key" "v \<noteq> []" "CHR ''='' \<notin> set v"
  shows "strtok_r ''='' (key @ CHR ''='' # v) = Some (key, v)" "strtok_r ''='' v = Some (v, [])"
  using assms by (auto intro!: strtok_r_next [of _ _ "CHR ''=''"])

text \<open>Every line of a setting fits the buffer, is not changed by the trimming, and has its effect.\<close>

lemma setting_line_ok:
  assumes "setting_ok s"
  shows "plain_line (setting_line s)" "filter (\<lambda>c. \<not> blank c) (setting_line s) = setting_line s"
proof -
  obtain key v where kv: "setting_line s = key @ v" "plain_word v"
    "\<forall>c\<in>set key. \<not> isspace c \<and> c \<noteq> CHR 0x00" "length key + length v < READ_BUF_MAX - 3"
  proof (cases s)
    case (ConfDir d)
    then show ?thesis using assms by (intro that [of "''CONF_DIR=''" d]) (simp_all add: isspace_def)
  next
    case (StorageDir d)
    then show ?thesis using assms by (intro that [of "''STORAGE_DIR=''" d]) (simp_all add: isspace_def)
  next
    case (LinePort n)
    then have "length (decimal n) \<le> Suc 9" using assms by (intro decimal_length) simp
    then show ?thesis using LinePort
      by (intro that [of "''LINE_RECEIVER_PORT=''" "decimal n"]) (simp_all add: isspace_def decimal_word)
  next
    case (UdpPort n)
    then have "length (decimal n) \<le> Suc 9" using assms by (intro decimal_length) simp
    then show ?thesis using UdpPort
      by (intro that [of "''UDP_RECEIVER_PORT=''" "decimal n"]) (simp_all add: isspace_def decimal_word)
  qed
  show "plain_line (setting_line s)" "filter (\<lambda>c. \<not> blank c) (setting_line s) = setting_line s"
    unfolding kv(1) by (rule plain_word_line [OF kv(2-4)])+
qed

lemma carbon_line_setting:
  assumes "setting_ok s"
  shows "carbon_line (setting_line s) c = Inr (Go (apply_setting s c))"
proof (cases s)
  case (ConfDir d)
  then show ?thesis
    using split_key [of "''CONF_DIR''" d] assms by (simp add: carbon_line_def strncmp_eq_take)
next
  case (StorageDir d)
  then show ?thesis
    using split_key [of "''STORAGE_DIR''" d] assms by (simp add: carbon_line_def strncmp_eq_take)
next
  case (LinePort n)
  then have "int32 (int n) = int n" using assms by (intro int32_id) simp_all
  then show ?thesis
    using split_key [of "''LINE_RECEIVER_PORT''" "decimal n"] LinePort assms decimal_word(2) [of n]
    by (simp add: carbon_line_def strtol10_decimal strncmp_eq_take)
next
  case (UdpPort n)
  then have "int32 (int n) = int n" using assms by (intro int32_id) simp_all
  then show ?thesis
    using split_key [of "''UDP_RECEIVER_PORT''" "decimal n"] UdpPort assms decimal_word(2) [of n]
    by (simp add: carbon_line_def strtol10_decimal strncmp_eq_take)
qed

section \<open>The file\<close>

lemma settings_run:
  "\<forall>s\<in>set ss. setting_ok s \<Longrightarrow> run_lines carbon_line (map setting_line ss) c = Inr (0, settings ss c)"
  by (induction ss arbitrary: c)
    (simp_all add: settings_def setting_line_ok carbon_line_setting del: setting_line.simps)

lemma carbon_file_read_back:
  assumes "\<forall>s\<in>set ss. setting_ok s"
    and "fopen_read fs (conf_file c) = Some (unlines (map setting_line ss))"
  shows "conf_parse_carbon_file fs c = Inr (0, settings ss c)"
proof -
  have "\<forall>l\<in>set (map setting_line ss). plain_line l" using assms(1) setting_line_ok(1) by auto
  then show ?thesis
    using assms by (simp add: conf_parse_carbon_file_def read_lines_unlines settings_run)
qed

text \<open>
  The settings of a file keep a member or give it a value of their own, so reading the
  same file twice is reading it once.
\<close>

lemma settings_member:
  assumes step: "\<And>s. (\<forall>c. g (apply_setting s c) = g c) \<or> (\<exists>v. \<forall>c. g (apply_setting s c) = v)"
  shows "(\<forall>c. g (settings ss c) = g c) \<or> (\<exists>v. \<forall>c. g (settings ss c) = v)"
proof (induction ss)
  case Nil
  then show ?case by (simp add: settings_def)
next
  case (Cons s ss)
  then show ?case using step [of s] by (auto simp: settings_def)
qed

lemma apply_setting_other:
  "schema (apply_setting s c) = schema c" "aggregation (apply_setting s c) = aggregation c"
  "conf_file (apply_setting s c) = conf_file c" "run (apply_setting s c) = run c"
  "tracing (apply_setting s c) = tracing c" "conf_log_level (apply_setting s c) = conf_log_level c"
  by (cases s; simp)+

lemma settings_other [simp]:
  "schema (settings ss c) = schema c" "aggregation (settings ss c) = aggregation c"
  "conf_file (settings ss c) = conf_file c" "run (settings ss c) = run c"
  "tracing (settings ss c) = tracing c" "conf_log_level (settings ss c) = conf_log_level c"
  unfolding settings_def by (induction ss arbitrary: c; simp add: apply_setting_other)+

lemma settings_own:
  "conf_dir (settings ss (settings ss c)) = conf_dir (settings ss c)"
  "storage_dir (settings ss (settings ss c)) = storage_dir (settings ss c)"
  "line_receiver_port (settings ss (settings ss c)) = line_receiver_port (settings ss c)"
  "udp_receiver_port (settings ss (settings ss c)) = udp_receiver_port (settings ss c)"
proof -
  have "(\<forall>c. conf_dir (apply_setting s c) = conf_dir c) \<or> (\<exists>v. \<forall>c. conf_dir (apply_setting s c) = v)"
    "(\<forall>c. storage_dir (apply_setting s c) = storage_dir c) \<or> (\<exists>v. \<forall>c. storage_dir (apply_setting s c) = v)"
    "(\<forall>c. line_receiver_port (apply_setting s c) = line_receiver_port c) \<or>
      (\<exists>v. \<forall>c. line_receiver_port (apply_setting s c) = v)"
    "(\<forall>c. udp_receiver_port (apply_setting s c) = udp_receiver_port c) \<or>
      (\<exists>v. \<forall>c. udp_receiver_port (apply_setting s c) = v)" for s
    by (cases s; simp)+
  note m = this [THEN settings_member, of ss]
  show "conf_dir (settings ss (settings ss c)) = conf_dir (settings ss c)"
    using m(1) by metis
  show "storage_dir (settings ss (settings ss c)) = storage_dir (settings ss c)"
    using m(2) by metis
  show "line_receiver_port (settings ss (settings ss c)) = line_receiver_port (settings ss c)"
    using m(3) by metis
  show "udp_receiver_port (settings ss (settings ss c)) = udp_receiver_port (settings ss c)"
    using m(4) by metis
qed

lemma settings_twice: "settings ss (settings ss c) = settings ss c"
  by (rule carbon_conf.equality) (simp_all add: settings_own)

text \<open>The lists that the other files give do not matter to the settings.\<close>

lemma settings_lists:
  "settings ss (c\<lparr>schema := es, aggregation := as\<rparr>) = (settings ss c)\<lparr>schema := es, aggregation := as\<rparr>"
proof (induction ss arbitrary: c)
  case (Cons s ss)
  have "apply_setting s (c\<lparr>schema := es, aggregation := as\<rparr>) = (apply_setting s c)\<lparr>schema := es, aggregation := as\<rparr>"
    by (cases s) simp_all
  with Cons show ?case by (simp add: settings_def)
qed (simp add: settings_def)

section \<open>The three files\<close>

text \<open>The files of a configuration: the settings, the schemas and the aggregations.\<close>

definition conf_files ::
    "platform \<Rightarrow> 'a fsys_scheme \<Rightarrow> carbon_conf \<Rightarrow> setting list \<Rightarrow> (string \<times> retention list) list \<Rightarrow>
     agg_stanza list \<Rightarrow> bool" where
  "conf_files P fs c ss es as \<longleftrightarrow>
     (let dir = conf_dir (settings ss c)
      in (\<forall>s\<in>set ss. setting_ok s) \<and> (\<forall>e\<in>set es. schema_entry_ok e) \<and> es \<noteq> [] \<and>
         (\<forall>a\<in>set as. agg_stanza_ok P a) \<and> length dir \<le> 4000 \<and>
         fopen_read fs (conf_file c) = Some (unlines (map setting_line ss)) \<and>
         fopen_read fs (dir @ ''/storage-schemas.conf'') = Some (unlines (concat (map schema_lines es))) \<and>
         fopen_read fs (dir @ ''/storage-aggregation.conf'') = Some (unlines (concat (map agg_lines as))))"

lemma conf_parse_read_back:
  assumes files: "conf_files P fs c ss es as" and alloc: "allocator_ok P"
  shows "conf_parse P fs c = Inr (0, (settings ss c)\<lparr>schema := map schema_entry es,
    aggregation := aggregation c @ agg_entries 0 as\<rparr>)"
proof -
  note f = files [unfolded conf_files_def Let_def]
  let ?c = "settings ss c"
  have 1: "conf_parse_carbon_file fs c = Inr (0, ?c)"
    using f by (intro carbon_file_read_back) simp_all
  have 2: "conf_parse_storage_schema_file P fs ?c = Inr (0, ?c\<lparr>schema := map schema_entry es\<rparr>)"
    using f alloc by (intro schema_file_read_back) simp_all
  have "conf_parse_storage_aggregation_file P fs (?c\<lparr>schema := map schema_entry es\<rparr>) =
      Inr (0, (?c\<lparr>schema := map schema_entry es\<rparr>)\<lparr>aggregation :=
        aggregation (?c\<lparr>schema := map schema_entry es\<rparr>) @ agg_entries 0 as\<rparr>)"
    using f by (intro aggregation_file_read_back) simp_all
  then show ?thesis by (simp add: conf_parse_def bind_sum_def 1 2)
qed

end
