(* ===== verification/Threads.thy ===== *)
theory Threads
  imports Carbon_Prelude
begin

text \<open>
  The pause protocol of \<open>threads.c\<close>. Each worker holds its own \<open>run_lock\<close> while it runs
  and gives it up only inside \<open>pthread_cond_wait\<close>; a reload in the main thread orders a
  pause, takes the four locks, exchanges the configuration and resumes the workers.
  The steps of workers and main thread interleave in any order; a wait on a condition
  may also end spuriously.
\<close>

section \<open>State\<close>

datatype tid = Udp | Tcp | Writer | Monitor

text \<open>
  Where a worker is: before \<open>thread_run_lock\<close>, at the test of \<open>conf->run\<close>, at
  \<open>thread_must_pause\<close>, asleep in \<open>pthread_cond_wait\<close>, awake there but without the lock,
  in the body of its loop, and after its end.
\<close>

datatype wpc = Boot | Loop | Check | Waiting | Waking | Work | Stopped

text \<open>Who holds a \<open>run_lock\<close>: the main thread or the worker itself.\<close>

datatype holder = ByMain | BySelf

text \<open>
  Where the main thread is: in \<open>threads_wait_all_stopped\<close>, or in \<open>conf_reload\<close> with the
  threads that a call still has to handle. A resume clears the flag, signals and unlocks.
  \<open>Ended\<close> is the end of \<open>main\<close>, after all threads were joined.
\<close>

datatype mpc = Joining | Ordering "tid list" | Locking "tid list" | Installing
  | Clearing "tid list" | Signalling "tid list" | Unlocking "tid list" | Ended

record system =
  pc :: "tid \<Rightarrow> wpc"
  run_lock :: "tid \<Rightarrow> holder option"
  must_pause :: "tid \<Rightarrow> bool"
  main_pc :: mpc
  run_flag :: bool
  new_run :: bool
  interrupted :: bool

abbreviation order :: "tid list" where "order \<equiv> [Udp, Tcp, Writer, Monitor]"

definition thread_start :: system where
  "thread_start = \<lparr>pc = (\<lambda>_. Boot), run_lock = (\<lambda>_. None), must_pause = (\<lambda>_. False), main_pc = Joining,
     run_flag = True, new_run = True, interrupted = False\<rparr>"

section \<open>Steps of a worker\<close>

definition set_pc :: "tid \<Rightarrow> wpc \<Rightarrow> system \<Rightarrow> system" where
  "set_pc t x s = s\<lparr>pc := (pc s)(t := x)\<rparr>"

definition set_lock :: "tid \<Rightarrow> holder option \<Rightarrow> system \<Rightarrow> system" where
  "set_lock t x s = s\<lparr>run_lock := (run_lock s)(t := x)\<rparr>"

text \<open>\<open>thread_run_lock\<close> returns only when the lock is free, which is the guard of the rules that
  use it; \<open>cond_wait\<close> is the first half of \<open>thread_pause_and_wait_run_signal\<close>, its second
  half takes the lock again.\<close>

definition thread_run_lock :: "tid \<Rightarrow> holder \<Rightarrow> system \<Rightarrow> system" where
  "thread_run_lock t who s = set_lock t (Some who) s"

definition thread_must_pause :: "tid \<Rightarrow> system \<Rightarrow> bool" where
  "thread_must_pause t s = must_pause s t"

definition cond_wait :: "tid \<Rightarrow> system \<Rightarrow> system" where
  "cond_wait t s = set_pc t Waiting (set_lock t None s)"

text \<open>The loop of a worker around its body.\<close>

inductive worker :: "tid \<Rightarrow> system \<Rightarrow> system \<Rightarrow> bool" for t where
  lock: "pc s t = Boot \<Longrightarrow> run_lock s t = None \<Longrightarrow>
    worker t s (set_pc t Loop (thread_run_lock t BySelf s))"
| go_on: "pc s t = Loop \<Longrightarrow> run_flag s \<Longrightarrow> worker t s (set_pc t Check s)"
| stop: "pc s t = Loop \<Longrightarrow> \<not> run_flag s \<Longrightarrow> worker t s (set_pc t Stopped s)"
| pause: "pc s t = Check \<Longrightarrow> thread_must_pause t s \<Longrightarrow> worker t s (cond_wait t s)"
| proceed: "pc s t = Check \<Longrightarrow> \<not> thread_must_pause t s \<Longrightarrow> worker t s (set_pc t Work s)"
| spurious: "pc s t = Waiting \<Longrightarrow> worker t s (set_pc t Waking s)"
| relock: "pc s t = Waking \<Longrightarrow> run_lock s t = None \<Longrightarrow>
    worker t s (set_pc t Work (thread_run_lock t BySelf s))"
| body: "pc s t = Work \<Longrightarrow> worker t s (set_pc t Loop s)"

section \<open>Steps of the main thread\<close>

definition thread_order_pause :: "tid \<Rightarrow> system \<Rightarrow> system" where
  "thread_order_pause t s = s\<lparr>must_pause := (must_pause s)(t := True)\<rparr>"

definition thread_wait_paused :: "tid \<Rightarrow> system \<Rightarrow> system" where
  "thread_wait_paused t s = thread_run_lock t ByMain s"

text \<open>The three statements of \<open>thread_resume\<close>; the signal wakes a worker that sleeps.\<close>

definition resume_clear :: "tid \<Rightarrow> system \<Rightarrow> system" where
  "resume_clear t s = s\<lparr>must_pause := (must_pause s)(t := False)\<rparr>"

definition resume_signal :: "tid \<Rightarrow> system \<Rightarrow> system" where
  "resume_signal t s = (if pc s t = Waiting then set_pc t Waking s else s)"

definition resume_unlock :: "tid \<Rightarrow> system \<Rightarrow> system" where
  "resume_unlock t s = set_lock t None s"

text \<open>\<open>threads_wait_all_stopped\<close> returns when this holds.\<close>

definition threads_all_stopped :: "system \<Rightarrow> bool" where
  "threads_all_stopped s \<longleftrightarrow> (\<forall>t \<in> set order. pc s t = Stopped)"

text \<open>
  A reload begins when the new configuration was parsed: its copy of \<open>run\<close> was taken
  before. An interrupt may come at any time and clears \<open>run\<close> in the configuration that is
  current.
\<close>

inductive mainstep :: "system \<Rightarrow> system \<Rightarrow> bool" where
  sighup: "main_pc s = Joining \<Longrightarrow> mainstep s (s\<lparr>main_pc := Ordering order, new_run := run_flag s\<rparr>)"
| sigint: "mainstep s (s\<lparr>run_flag := False, interrupted := True\<rparr>)"
| order_pause: "main_pc s = Ordering (t # ts) \<Longrightarrow>
    mainstep s ((thread_order_pause t s)\<lparr>main_pc := Ordering ts\<rparr>)"
| ordered: "main_pc s = Ordering [] \<Longrightarrow> mainstep s (s\<lparr>main_pc := Locking order\<rparr>)"
| wait_paused: "main_pc s = Locking (t # ts) \<Longrightarrow> run_lock s t = None \<Longrightarrow>
    mainstep s ((thread_wait_paused t s)\<lparr>main_pc := Locking ts\<rparr>)"
| all_paused: "main_pc s = Locking [] \<Longrightarrow> mainstep s (s\<lparr>main_pc := Installing\<rparr>)"
| install: "main_pc s = Installing \<Longrightarrow> mainstep s (s\<lparr>main_pc := Clearing order, run_flag := new_run s\<rparr>)"
| clear_flag: "main_pc s = Clearing (t # ts) \<Longrightarrow>
    mainstep s ((resume_clear t s)\<lparr>main_pc := Signalling (t # ts)\<rparr>)"
| cond_signal: "main_pc s = Signalling (t # ts) \<Longrightarrow>
    mainstep s ((resume_signal t s)\<lparr>main_pc := Unlocking (t # ts)\<rparr>)"
| unlock: "main_pc s = Unlocking (t # ts) \<Longrightarrow>
    mainstep s ((resume_unlock t s)\<lparr>main_pc := Clearing ts\<rparr>)"
| resumed: "main_pc s = Clearing [] \<Longrightarrow> mainstep s (s\<lparr>main_pc := Joining\<rparr>)"
| joined: "main_pc s = Joining \<Longrightarrow> threads_all_stopped s \<Longrightarrow> mainstep s (s\<lparr>main_pc := Ended\<rparr>)"

inductive step :: "system \<Rightarrow> system \<Rightarrow> bool" where
  by_worker: "worker t s s' \<Longrightarrow> step s s'"
| by_main: "mainstep s s' \<Longrightarrow> step s s'"

inductive steps :: "system \<Rightarrow> system \<Rightarrow> bool" where
  here: "steps s s"
| onward: "step s s' \<Longrightarrow> steps s' s'' \<Longrightarrow> steps s s''"

definition reachable :: "system \<Rightarrow> bool" where
  "reachable s \<longleftrightarrow> steps thread_start s"

lemmas step_defs = set_pc_def set_lock_def thread_run_lock_def thread_must_pause_def cond_wait_def
  thread_order_pause_def thread_wait_paused_def resume_clear_def resume_signal_def resume_unlock_def

inductive_cases worker_cases: "worker t s s'"
inductive_cases mainstep_cases: "mainstep s s'"
inductive_cases step_cases: "step s s'"

lemma steps_trans: "steps a b \<Longrightarrow> steps b c \<Longrightarrow> steps a c"
  by (induction rule: steps.induct) (auto intro: steps.intros)

lemma steps_worker: "worker t s s' \<Longrightarrow> steps s s'"
  by (auto intro: steps.intros step.intros)

lemma steps_main: "mainstep s s' \<Longrightarrow> steps s s'"
  by (auto intro: steps.intros step.intros)

section \<open>Invariant\<close>

text \<open>The locks the main thread holds, and the pauses it has ordered, at each place.\<close>

fun held :: "mpc \<Rightarrow> tid set" where
  "held (Locking ts) = - set ts"
| "held Installing = UNIV"
| "held (Clearing ts) = set ts"
| "held (Signalling ts) = set ts"
| "held (Unlocking ts) = set ts"
| "held _ = {}"

fun ordered_pause :: "mpc \<Rightarrow> tid set" where
  "ordered_pause (Ordering ts) = - set ts"
| "ordered_pause (Locking ts) = UNIV"
| "ordered_pause Installing = UNIV"
| "ordered_pause (Clearing ts) = set ts"
| "ordered_pause (Signalling ts) = set (tl ts)"
| "ordered_pause (Unlocking ts) = set (tl ts)"
| "ordered_pause _ = {}"

fun agenda :: "mpc \<Rightarrow> tid list" where
  "agenda (Ordering ts) = ts"
| "agenda (Locking ts) = ts"
| "agenda (Clearing ts) = ts"
| "agenda (Signalling ts) = ts"
| "agenda (Unlocking ts) = ts"
| "agenda _ = []"

fun signal_due :: "mpc \<Rightarrow> tid set" where
  "signal_due (Signalling (t # ts)) = {t}"
| "signal_due _ = {}"

text \<open>
  A worker holds its lock exactly while it runs or after it ended; the main thread
  holds the locks of its place; the pauses are those ordered; and a worker that sleeps
  without an order is about to be signalled. At the end all workers have ended.
\<close>

definition threads_inv :: "system \<Rightarrow> bool" where
  "threads_inv s \<longleftrightarrow>
     (\<forall>t. run_lock s t = (if t \<in> held (main_pc s) then Some ByMain
                          else if pc s t \<in> {Loop, Check, Work, Stopped} then Some BySelf else None)) \<and>
     (\<forall>t. t \<in> held (main_pc s) \<longrightarrow> pc s t \<in> {Boot, Waiting, Waking}) \<and>
     (\<forall>t. must_pause s t \<longleftrightarrow> t \<in> ordered_pause (main_pc s)) \<and>
     (\<forall>t. pc s t = Waiting \<longrightarrow> must_pause s t \<or> t \<in> signal_due (main_pc s)) \<and>
     distinct (agenda (main_pc s)) \<and>
     (\<forall>ts. main_pc s = Signalling ts \<or> main_pc s = Unlocking ts \<longrightarrow> ts \<noteq> []) \<and>
     (\<forall>t. main_pc s = Ended \<longrightarrow> pc s t = Stopped)"

lemma all_tids: "{Udp, Tcp, Writer, Monitor} = UNIV"
  by (auto intro: tid.exhaust)

lemma start_inv: "threads_inv thread_start"
  by (simp add: threads_inv_def thread_start_def)

lemma worker_inv: "worker t s s' \<Longrightarrow> threads_inv s \<Longrightarrow> threads_inv s'"
proof (induction rule: worker.induct)
  case (lock s)
  then show ?case unfolding threads_inv_def by (auto simp: step_defs split: if_splits)
next
  case (go_on s)
  then show ?case unfolding threads_inv_def by (auto simp: step_defs split: if_splits)
next
  case (stop s)
  then show ?case unfolding threads_inv_def by (auto simp: step_defs split: if_splits)
next
  case (pause s)
  then show ?case unfolding threads_inv_def by (auto simp: step_defs split: if_splits)
next
  case (proceed s)
  then show ?case unfolding threads_inv_def by (auto simp: step_defs split: if_splits)
next
  case (spurious s)
  then show ?case unfolding threads_inv_def by (auto simp: step_defs split: if_splits)
next
  case (relock s)
  then show ?case unfolding threads_inv_def by (auto simp: step_defs split: if_splits)
next
  case (body s)
  then show ?case unfolding threads_inv_def by (auto simp: step_defs split: if_splits)
qed

lemma main_inv: "mainstep s s' \<Longrightarrow> threads_inv s \<Longrightarrow> threads_inv s'"
proof (induction rule: mainstep.induct)
  case (wait_paused s t ts)
  then have "pc s t \<in> {Boot, Waiting, Waking}"
    unfolding threads_inv_def by (cases "pc s t") (simp_all split: if_splits)
  with wait_paused show ?case
    unfolding threads_inv_def by (auto simp: step_defs split: if_splits)
next
  case (order_pause s t ts)
  then show ?case unfolding threads_inv_def by (auto simp: step_defs split: if_splits)
next
  case (cond_signal s t ts)
  then show ?case unfolding threads_inv_def by (auto simp: step_defs split: if_splits)
next
  case (all_paused s)
  then show ?case unfolding threads_inv_def by auto
next
  case (ordered s)
  then show ?case unfolding threads_inv_def by (simp add: all_tids)
next
  case (sighup s)
  then show ?case unfolding threads_inv_def by (auto simp: all_tids)
next
  case (install s)
  then show ?case unfolding threads_inv_def by (simp add: all_tids)
next
  case (sigint s)
  then show ?case unfolding threads_inv_def by auto
next
  case (clear_flag s t ts)
  then show ?case unfolding threads_inv_def by (auto simp: step_defs)
next
  case (unlock s t ts)
  then show ?case unfolding threads_inv_def by (auto simp: step_defs split: if_splits)
next
  case (resumed s)
  then show ?case unfolding threads_inv_def by auto
next
  case (joined s)
  have "pc s t = Stopped" for t using joined(2) by (cases t) (simp_all add: threads_all_stopped_def)
  with joined show ?case unfolding threads_inv_def by auto
qed

lemma steps_inv: "steps a b \<Longrightarrow> threads_inv a \<Longrightarrow> threads_inv b"
  by (induction rule: steps.induct) (auto elim: step_cases dest: worker_inv main_inv)

lemma reachable_inv: "reachable s \<Longrightarrow> threads_inv s"
  using steps_inv start_inv by (simp add: reachable_def)

section \<open>Progress of a reload\<close>

text \<open>A worker that is running gets to its pause by its own steps.\<close>

definition only_worker :: "tid \<Rightarrow> system \<Rightarrow> system \<Rightarrow> bool" where
  "only_worker t s s' \<longleftrightarrow> main_pc s' = main_pc s \<and> run_flag s' = run_flag s \<and>
     new_run s' = new_run s \<and> (\<forall>u. u \<noteq> t \<longrightarrow> pc s' u = pc s u)"

lemma worker_pauses:
  assumes "run_flag s" "must_pause s t" "pc s t \<in> {Loop, Check, Work}"
  shows "\<exists>s'. steps s s' \<and> pc s' t = Waiting \<and> run_lock s' t = None \<and> only_worker t s s'"
proof -
  have check: "\<exists>s'. steps s s' \<and> pc s' t = Waiting \<and> run_lock s' t = None \<and> only_worker t s s'"
    if "pc s t = Check" "must_pause s t" for s
    using steps_worker [OF worker.pause, of s t] that
    by (intro exI [of _ "cond_wait t s"]) (auto simp: step_defs only_worker_def)
  have loop: "\<exists>s'. steps s s' \<and> pc s' t = Waiting \<and> run_lock s' t = None \<and> only_worker t s s'"
    if l: "pc s t = Loop" "must_pause s t" "run_flag s" for s
  proof -
    let ?s = "set_pc t Check s"
    have "steps s ?s" by (rule steps_worker [OF worker.go_on]) (use l in auto)
    moreover obtain s' where "steps ?s s'" "pc s' t = Waiting" "run_lock s' t = None" "only_worker t ?s s'"
      using check [of ?s] l by (auto simp: step_defs)
    ultimately show ?thesis by (auto intro: steps_trans simp: only_worker_def step_defs)
  qed
  show ?thesis
  proof (cases "pc s t = Work")
    case True
    let ?s = "set_pc t Loop s"
    have "steps s ?s" by (rule steps_worker [OF worker.body]) (use True in auto)
    moreover obtain s' where "steps ?s s'" "pc s' t = Waiting" "run_lock s' t = None" "only_worker t ?s s'"
      using loop [of ?s] assms by (auto simp: step_defs)
    ultimately show ?thesis by (auto intro: steps_trans simp: only_worker_def step_defs)
  next
    case False
    then show ?thesis using assms check [of s] loop [of s] by blast
  qed
qed

text \<open>So the main thread can take the locks one after the other.\<close>

lemma locking_step:
  assumes inv: "threads_inv s" and m: "main_pc s = Locking (t # ts)" and run: "run_flag s"
    and alive: "pc s t \<noteq> Stopped"
  shows "\<exists>s'. steps s s' \<and> main_pc s' = Locking ts \<and> run_flag s' \<and> new_run s' = new_run s \<and>
    (\<forall>u. u \<noteq> t \<longrightarrow> pc s' u = pc s u)"
proof -
  have mp: "must_pause s t" and notheld: "t \<notin> held (main_pc s)" using inv m by (simp_all add: threads_inv_def)
  have "\<exists>s1. steps s s1 \<and> run_lock s1 t = None \<and> only_worker t s s1"
  proof (cases "pc s t \<in> {Loop, Check, Work}")
    case True
    then show ?thesis using worker_pauses [OF run mp] by blast
  next
    case False
    then have "run_lock s t = None" using inv notheld alive by (simp add: threads_inv_def)
    then show ?thesis using steps.here [of s] by (intro exI [of _ s]) (simp add: only_worker_def)
  qed
  then obtain s1 where s1: "steps s s1" "run_lock s1 t = None" "only_worker t s s1" by blast
  let ?s = "(thread_wait_paused t s1)\<lparr>main_pc := Locking ts\<rparr>"
  have "main_pc s1 = Locking (t # ts)" using s1(3) m by (auto simp: only_worker_def)
  then have "steps s1 ?s" using s1(2) by (intro steps_main mainstep.wait_paused)
  with s1 run show ?thesis
    by (intro exI [of _ ?s]) (auto simp: step_defs only_worker_def intro: steps_trans)
qed

lemma locking_completes:
  "threads_inv s \<Longrightarrow> main_pc s = Locking ts \<Longrightarrow> run_flag s \<Longrightarrow> \<forall>t\<in>set ts. pc s t \<noteq> Stopped \<Longrightarrow>
   \<exists>s'. steps s s' \<and> main_pc s' = Installing \<and> new_run s' = new_run s"
proof (induction ts arbitrary: s)
  case Nil
  then show ?case using steps_main [OF mainstep.all_paused] by (intro exI [of _ "s\<lparr>main_pc := Installing\<rparr>"]) simp
next
  case (Cons t ts)
  obtain s1 where s1: "steps s s1" "main_pc s1 = Locking ts" "run_flag s1"
    "new_run s1 = new_run s" "\<forall>u. u \<noteq> t \<longrightarrow> pc s1 u = pc s u"
    using locking_step [OF Cons.prems(1-3)] Cons.prems(4) by auto
  have "t \<notin> set ts" using Cons.prems(1,2) by (simp add: threads_inv_def)
  then have "\<forall>u\<in>set ts. pc s1 u \<noteq> Stopped" using s1(5) Cons.prems(4) by auto
  then obtain s2 where s2: "steps s1 s2" "main_pc s2 = Installing" "new_run s2 = new_run s1"
    using Cons.IH [OF steps_inv [OF s1(1) Cons.prems(1)] s1(2,3)] by blast
  show ?case using steps_trans [OF s1(1) s2(1)] s2(2,3) s1(4) by (intro exI [of _ s2]) simp
qed

text \<open>The rest of a reload needs no worker.\<close>

lemma resuming_completes:
  "main_pc s = Clearing ts \<Longrightarrow> \<exists>s'. steps s s' \<and> main_pc s' = Joining \<and> run_flag s' = run_flag s \<and>
     interrupted s' = interrupted s"
proof (induction ts arbitrary: s)
  case Nil
  then show ?case
    using steps_main [OF mainstep.resumed] by (intro exI [of _ "s\<lparr>main_pc := Joining\<rparr>"]) simp
next
  case (Cons t ts)
  let ?s1 = "(resume_clear t s)\<lparr>main_pc := Signalling (t # ts)\<rparr>"
  let ?s2 = "(resume_signal t ?s1)\<lparr>main_pc := Unlocking (t # ts)\<rparr>"
  let ?s3 = "(resume_unlock t ?s2)\<lparr>main_pc := Clearing ts\<rparr>"
  have a: "steps s ?s1" by (rule steps_main [OF mainstep.clear_flag]) (rule Cons.prems)
  have b: "steps ?s1 ?s2" by (rule steps_main [OF mainstep.cond_signal]) simp
  have c: "steps ?s2 ?s3" by (rule steps_main [OF mainstep.unlock]) simp
  have m: "main_pc ?s3 = Clearing ts" by (simp add: step_defs)
  obtain s' where s': "steps ?s3 s'" "main_pc s' = Joining" "run_flag s' = run_flag ?s3" "interrupted s' = interrupted ?s3"
    using Cons.IH [OF m] by (elim exE conjE)
  show ?case
    using steps_trans [OF steps_trans [OF steps_trans [OF a b] c] s'(1)] s'(2-4)
    by (intro exI [of _ s']) (simp add: step_defs)
qed

lemma installing_completes:
  assumes "main_pc s = Installing"
  shows "\<exists>s'. steps s s' \<and> main_pc s' = Joining \<and> run_flag s' = new_run s \<and> interrupted s' = interrupted s"
proof -
  let ?s = "s\<lparr>main_pc := Clearing order, run_flag := new_run s\<rparr>"
  have a: "steps s ?s" by (rule steps_main [OF mainstep.install [OF assms]])
  have "main_pc ?s = Clearing order" by simp
  from resuming_completes [OF this] obtain s' where s': "steps ?s s'" "main_pc s' = Joining"
    "run_flag s' = run_flag ?s" "interrupted s' = interrupted ?s" by (elim exE conjE)
  show ?thesis using steps_trans [OF a s'(1)] s'(2-4) by (intro exI [of _ s']) simp
qed

lemma ordering_completes:
  "main_pc s = Ordering ts \<Longrightarrow> \<exists>s'. steps s s' \<and> main_pc s' = Locking order \<and> pc s' = pc s \<and>
     run_flag s' = run_flag s \<and> new_run s' = new_run s \<and> interrupted s' = interrupted s"
proof (induction ts arbitrary: s)
  case Nil
  then show ?case
    using steps_main [OF mainstep.ordered] by (intro exI [of _ "s\<lparr>main_pc := Locking order\<rparr>"]) simp
next
  case (Cons t ts)
  let ?s = "(thread_order_pause t s)\<lparr>main_pc := Ordering ts\<rparr>"
  have a: "steps s ?s" by (rule steps_main [OF mainstep.order_pause [OF Cons.prems]])
  have "main_pc ?s = Ordering ts" by simp
  from Cons.IH [OF this] obtain s' where s': "steps ?s s'" "main_pc s' = Locking order" "pc s' = pc ?s"
    "run_flag s' = run_flag ?s" "new_run s' = new_run ?s" "interrupted s' = interrupted ?s" by (elim exE conjE)
  show ?case using steps_trans [OF a s'(1)] s'(2-6) by (intro exI [of _ s']) (simp add: step_defs)
qed

text \<open>From every place of a reload the main thread can get back to waiting.\<close>

lemma reload_returns:
  assumes inv: "threads_inv s" and run: "run_flag s" and alive: "\<forall>t. pc s t \<noteq> Stopped"
  shows "\<exists>s'. steps s s' \<and> main_pc s' = Joining"
proof -
  have locking: "\<exists>s'. steps u s' \<and> main_pc s' = Joining"
    if u: "threads_inv u" "main_pc u = Locking ts" "run_flag u" "\<forall>t. pc u t \<noteq> Stopped" for u ts
  proof -
    obtain v where v: "steps u v" "main_pc v = Installing" using locking_completes [OF u(1-3)] u(4) by blast
    obtain w where w: "steps v w" "main_pc w = Joining" using installing_completes [OF v(2)] by blast
    show ?thesis using steps_trans [OF v(1) w(1)] w(2) by blast
  qed
  show ?thesis
  proof (cases "main_pc s")
    case Joining
    then show ?thesis using steps.here by blast
  next
    case (Ordering ts)
    then obtain u where u: "steps s u" "main_pc u = Locking order" "pc u = pc s" "run_flag u = run_flag s"
      using ordering_completes by blast
    then obtain w where w: "steps u w" "main_pc w = Joining"
      using locking [OF steps_inv [OF u(1) inv] u(2)] run alive by auto
    show ?thesis using steps_trans [OF u(1) w(1)] w(2) by blast
  next
    case (Locking ts)
    then show ?thesis using locking inv run alive by blast
  next
    case Installing
    then show ?thesis using installing_completes by blast
  next
    case (Clearing ts)
    then show ?thesis using resuming_completes by blast
  next
    case (Signalling ts)
    then obtain t r where tr: "ts = t # r" using inv by (cases ts) (auto simp: threads_inv_def)
    let ?s2 = "(resume_signal t s)\<lparr>main_pc := Unlocking (t # r)\<rparr>"
    let ?s3 = "(resume_unlock t ?s2)\<lparr>main_pc := Clearing r\<rparr>"
    have a: "steps s ?s2" by (rule steps_main [OF mainstep.cond_signal]) (use Signalling tr in simp)
    have b: "steps ?s2 ?s3" by (rule steps_main [OF mainstep.unlock]) simp
    have "main_pc ?s3 = Clearing r" by (simp add: step_defs)
    from resuming_completes [OF this] obtain w where w: "steps ?s3 w" "main_pc w = Joining" by (elim exE conjE)
    show ?thesis using steps_trans [OF steps_trans [OF a b] w(1)] w(2) by (intro exI [of _ w]) simp
  next
    case (Unlocking ts)
    then obtain t r where tr: "ts = t # r" using inv by (cases ts) (auto simp: threads_inv_def)
    let ?s3 = "(resume_unlock t s)\<lparr>main_pc := Clearing r\<rparr>"
    have a: "steps s ?s3" by (rule steps_main [OF mainstep.unlock]) (use Unlocking tr in simp)
    have "main_pc ?s3 = Clearing r" by (simp add: step_defs)
    from resuming_completes [OF this] obtain w where w: "steps ?s3 w" "main_pc w = Joining" by (elim exE conjE)
    show ?thesis using steps_trans [OF a w(1)] w(2) by (intro exI [of _ w]) simp
  qed (use inv alive in \<open>simp add: threads_inv_def\<close>)
qed

section \<open>The end\<close>

text \<open>Once \<open>run\<close> is cleared and no reload is under way, every worker can get to its end.\<close>

lemma worker_stops:
  assumes inv: "threads_inv s" and m: "main_pc s = Joining" and run: "\<not> run_flag s"
  shows "\<exists>s'. steps s s' \<and> pc s' t = Stopped \<and> only_worker t s s'"
proof -
  have loop: "\<exists>s'. steps u s' \<and> pc s' t = Stopped \<and> only_worker t u s'"
    if u: "pc u t = Loop" "\<not> run_flag u" for u
    using steps_worker [OF worker.stop, of u t] u
    by (intro exI [of _ "set_pc t Stopped u"]) (auto simp: step_defs only_worker_def)
  have via: "\<exists>s'. steps u s' \<and> pc s' t = Stopped \<and> only_worker t u s'"
    if v: "worker t u v" "only_worker t u v" "\<exists>s'. steps v s' \<and> pc s' t = Stopped \<and> only_worker t v s'" for u v
  proof -
    obtain w where w: "steps v w" "pc w t = Stopped" "only_worker t v w" using v(3) by blast
    show ?thesis
      using steps_trans [OF steps_worker [OF v(1)] w(1)] w(2,3) v(2) by (intro exI [of _ w]) (auto simp: only_worker_def)
  qed
  have work: "\<exists>s'. steps u s' \<and> pc s' t = Stopped \<and> only_worker t u s'"
    if u: "pc u t = Work" "\<not> run_flag u" for u
    by (rule via [OF worker.body [OF u(1)] _ loop]) (use u in \<open>auto simp: step_defs only_worker_def\<close>)
  have free: "run_lock s t = None" if "pc s t \<in> {Boot, Waking}" using inv m that by (auto simp: threads_inv_def)
  have go: "\<not> thread_must_pause t s" and awake: "pc s t \<noteq> Waiting"
    using inv m by (auto simp: threads_inv_def thread_must_pause_def)
  show ?thesis
  proof (cases "pc s t")
    case Boot
    show ?thesis
      by (rule via [OF worker.lock [OF Boot free] _ loop]) (use Boot run in \<open>auto simp: step_defs only_worker_def\<close>)
  next
    case Check
    show ?thesis
      by (rule via [OF worker.proceed [OF Check go] _ work]) (use run in \<open>auto simp: step_defs only_worker_def\<close>)
  next
    case Waking
    show ?thesis
      by (rule via [OF worker.relock [OF Waking free] _ work]) (use Waking run in \<open>auto simp: step_defs only_worker_def\<close>)
  next
    case Stopped
    then show ?thesis using steps.here [of s] by (intro exI [of _ s]) (simp add: only_worker_def)
  qed (use loop work run awake in blast)+
qed

lemma workers_stop:
  "threads_inv s \<Longrightarrow> main_pc s = Joining \<Longrightarrow> \<not> run_flag s \<Longrightarrow>
   \<exists>s'. steps s s' \<and> main_pc s' = Joining \<and> (\<forall>t. t \<in> set ts \<or> pc s t = Stopped \<longrightarrow> pc s' t = Stopped)"
proof (induction ts arbitrary: s)
  case Nil
  then show ?case using steps.here [of s] by (intro exI [of _ s]) simp
next
  case (Cons t ts)
  obtain s1 where s1: "steps s s1" "pc s1 t = Stopped" "only_worker t s s1"
    using worker_stops [OF Cons.prems] by blast
  then obtain s2 where s2: "steps s1 s2" "main_pc s2 = Joining"
      "\<forall>u. u \<in> set ts \<or> pc s1 u = Stopped \<longrightarrow> pc s2 u = Stopped"
    using Cons.IH [OF steps_inv [OF s1(1) Cons.prems(1)]] Cons.prems(2,3) by (auto simp: only_worker_def)
  have "\<forall>u. u \<in> set (t # ts) \<or> pc s u = Stopped \<longrightarrow> pc s2 u = Stopped"
    using s2(3) s1(2,3) by (auto simp: only_worker_def)
  then show ?case using steps_trans [OF s1(1) s2(1)] s2(2) by blast
qed

lemma main_ends:
  assumes "threads_inv s" "main_pc s = Joining" "\<not> run_flag s"
  shows "\<exists>s'. steps s s' \<and> main_pc s' = Ended"
proof -
  obtain u where u: "steps s u" "main_pc u = Joining" "\<forall>t \<in> set order. pc u t = Stopped"
    using workers_stop [OF assms, of order] by blast
  have "steps u (u\<lparr>main_pc := Ended\<rparr>)"
    by (rule steps_main [OF mainstep.joined]) (use u in \<open>simp_all add: threads_all_stopped_def\<close>)
  then show ?thesis using steps_trans [OF u(1)] by (intro exI [of _ "u\<lparr>main_pc := Ended\<rparr>"]) simp
qed

section \<open>Some runs\<close>

lemma reach_installing: "\<exists>s. reachable s \<and> main_pc s = Installing \<and> new_run s"
proof -
  let ?s = "thread_start\<lparr>main_pc := Ordering order, new_run := run_flag thread_start\<rparr>"
  have a: "steps thread_start ?s" by (rule steps_main [OF mainstep.sighup]) (simp add: thread_start_def)
  have "main_pc ?s = Ordering order" by simp
  from ordering_completes [OF this] obtain u where u: "steps ?s u" "main_pc u = Locking order" "pc u = pc ?s"
    "run_flag u = run_flag ?s" "new_run u = new_run ?s" by (elim exE conjE)
  have su: "steps thread_start u" by (rule steps_trans [OF a u(1)])
  obtain v where v: "steps u v" "main_pc v = Installing" "new_run v = new_run u"
    using locking_completes [OF steps_inv [OF su start_inv] u(2)] u(3,4) by (auto simp: thread_start_def)
  then show ?thesis
    using steps_trans [OF su v(1)] u(5) by (intro exI [of _ v]) (simp add: reachable_def thread_start_def)
qed

text \<open>A worker ends after an interrupt, and a reload comes afterwards.\<close>

lemma reach_stopped:
  "\<exists>s. reachable s \<and> pc s Udp = Stopped \<and> main_pc s = Locking order"
proof -
  let ?s1 = "set_pc Udp Loop (thread_run_lock Udp BySelf thread_start)"
  let ?s2 = "?s1\<lparr>run_flag := False, interrupted := True\<rparr>"
  let ?s3 = "set_pc Udp Stopped ?s2"
  let ?s4 = "?s3\<lparr>main_pc := Ordering order, new_run := run_flag ?s3\<rparr>"
  have a: "steps thread_start ?s1" by (rule steps_worker [OF worker.lock]) (simp_all add: thread_start_def)
  have b: "steps ?s1 ?s2" by (rule steps_main [OF mainstep.sigint])
  have c: "steps ?s2 ?s3" by (rule steps_worker [OF worker.stop]) (simp_all add: step_defs)
  have d: "steps ?s3 ?s4"
    by (rule steps_main [OF mainstep.sighup]) (simp add: step_defs thread_start_def)
  have "main_pc ?s4 = Ordering order" by simp
  from ordering_completes [OF this] obtain u where u: "steps ?s4 u" "main_pc u = Locking order" "pc u = pc ?s4"
    by (elim exE conjE)
  have "steps thread_start u"
    by (rule steps_trans [OF steps_trans [OF steps_trans [OF steps_trans [OF a b] c] d] u(1)])
  then show ?thesis using u(2,3) by (intro exI [of _ u]) (simp add: reachable_def step_defs)
qed

text \<open>An interrupt during a reload is undone by the new configuration.\<close>

lemma reach_lost_interrupt: "\<exists>s. reachable s \<and> interrupted s \<and> run_flag s \<and> main_pc s = Joining"
proof -
  obtain v where v: "reachable v" "main_pc v = Installing" "new_run v" using reach_installing by blast
  let ?w = "v\<lparr>run_flag := False, interrupted := True\<rparr>"
  have a: "steps v ?w" by (rule steps_main [OF mainstep.sigint])
  have "main_pc ?w = Installing" using v(2) by simp
  from installing_completes [OF this] obtain x where x: "steps ?w x" "main_pc x = Joining"
    "run_flag x = new_run ?w" "interrupted x = interrupted ?w" by (elim exE conjE)
  have "steps thread_start x"
    using v(1) unfolding reachable_def by (rule steps_trans [OF _ steps_trans [OF a x(1)]])
  then show ?thesis using x(2-4) v(3) by (intro exI [of _ x]) (simp add: reachable_def)
qed

section \<open>A worker that ended\<close>

text \<open>
  A worker ends without unlocking, so a reload that still has to take its lock never
  gets there.
\<close>

lemma stopped_step:
  assumes "step s s'" "threads_inv s" "pc s t = Stopped" "main_pc s = Locking (t # ts)"
  shows "pc s' t = Stopped \<and> main_pc s' = Locking (t # ts)"
proof -
  have lock: "run_lock s t \<noteq> None" using assms(2-4) by (simp add: threads_inv_def)
  from assms(1) show ?thesis
  proof (cases rule: step.cases)
    case (by_worker u)
    then show ?thesis
      using assms(3,4) by (cases rule: worker.cases) (auto simp: step_defs)
  next
    case by_main
    then show ?thesis
      using assms(3,4) lock by (cases rule: mainstep.cases) (auto simp: step_defs)
  qed
qed

lemma stopped_blocks:
  "steps s s' \<Longrightarrow> threads_inv s \<Longrightarrow> pc s t = Stopped \<Longrightarrow> main_pc s = Locking (t # ts) \<Longrightarrow>
   pc s' t = Stopped \<and> main_pc s' = Locking (t # ts)"
proof (induction rule: steps.induct)
  case (onward s s' s'')
  have "pc s' t = Stopped" "main_pc s' = Locking (t # ts)"
    using stopped_step [OF onward.hyps(1) onward.prems] by auto
  moreover have "threads_inv s'"
    using steps_inv [OF steps.onward [OF onward.hyps(1) steps.here]] onward.prems(1) by blast
  ultimately show ?case using onward.IH by blast
qed simp

end
