(* ===== verification/Daemon.thy ===== *)
theory Daemon
  imports Conf_Carbon Threads Database
begin

text \<open>
  The runtime configuration of \<open>main.c\<close>: defaults, command line, start and reload. The
  exchange of the configuration while the workers are paused is in \<open>Threads\<close>.
\<close>

section \<open>Start\<close>

text \<open>The defaults, for directories as set in \<open>common.h\<close> or by the build.\<close>

definition default_conf :: "string \<Rightarrow> string \<Rightarrow> carbon_conf" where
  "default_conf sysconfdir localstatedir =
     \<lparr>schema = [], aggregation = [], conf_dir = sysconfdir, conf_file = sysconfdir @ ''/carbon.conf'',
      storage_dir = localstatedir, line_receiver_port = 2003, udp_receiver_port = 2003,
      run = True, tracing = False, conf_log_level = LOG_LEVEL_INFO\<rparr>"

text \<open>
  What \<open>getopt_long\<close> returns. A file name comes with the bytes of the block that
  \<open>malloc\<close> gave for it: the copy does not write the terminating NUL.
\<close>

datatype cmd_option = OptHelp | OptConf string string | OptDebug | OptOther

fun parse_args :: "platform \<Rightarrow> cmd_option list \<Rightarrow> carbon_conf \<Rightarrow> stop + carbon_conf" where
  "parse_args P [] conf = Inr conf"
| "parse_args P (OptHelp # opts) conf = Inl (Exit 0)"
| "parse_args P (OptConf optarg block # opts) conf =
     (if usable P PATH_MAX < length optarg then Inl HeapOverflow
      else parse_args P opts (conf\<lparr>conf_file := cstr (optarg @ drop (length optarg) block)\<rparr>))"
| "parse_args P (OptDebug # opts) conf =
     parse_args P opts (conf\<lparr>tracing := True, conf_log_level := LOG_LEVEL_DEBUG\<rparr>)"
| "parse_args P (OptOther # opts) conf = parse_args P opts conf"

text \<open>
  The globals as \<open>calloc\<close> makes them, and \<open>main\<close> up to the launch of the threads: the
  configuration and the daemon, or the end with a status.
\<close>

definition new_daemon :: "wsp_state \<Rightarrow> daemon" where
  "new_daemon i = \<lparr>io = i\<lparr>monitoring_points := 0\<rparr>, h_metrics = (\<lambda>_. None), h_points = (\<lambda>_. None), h_fresh = 0,
     db_first = None, db_last = None\<rparr>"

definition main_start ::
    "platform \<Rightarrow> wsp_state \<Rightarrow> string \<Rightarrow> string \<Rightarrow> cmd_option list \<Rightarrow> stop + carbon_conf \<times> daemon" where
  "main_start P i sysconfdir localstatedir opts =
     bind_sum (parse_args P opts (default_conf sysconfdir localstatedir)) (\<lambda>conf.
     bind_sum (conf_parse P i conf) (\<lambda>(status, conf).
     if status \<noteq> 0 then Inl (Exit EXIT_FAILURE)
     else bind_sum (check_whisper_sizes (host P)) (\<lambda>_.
          bind_sum (database_init (new_daemon i)) (\<lambda>(_, d). Inr (conf, d)))))"

section \<open>Reload\<close>

definition conf_copy :: "carbon_conf \<Rightarrow> carbon_conf" where
  "conf_copy orig_conf = orig_conf\<lparr>schema := [], aggregation := []\<rparr>"

text \<open>
  The configuration after \<open>conf_reload\<close>, called when the threads \<open>launched\<close> exist. The
  pause dereferences all four thread pointers.
\<close>

definition conf_reload ::
    "platform \<Rightarrow> 'a fsys_scheme \<Rightarrow> tid set \<Rightarrow> carbon_conf \<Rightarrow> stop + carbon_conf" where
  "conf_reload P fs launched conf =
     bind_sum (conf_parse P fs (conf_copy conf)) (\<lambda>(parse_status, new_conf).
     if parse_status \<noteq> 0 then Inr conf
     else if launched \<noteq> UNIV then Inl NullDeref
     else Inr new_conf)"

definition sighup_handler ::
    "platform \<Rightarrow> 'a fsys_scheme \<Rightarrow> tid set \<Rightarrow> carbon_conf \<Rightarrow> stop + carbon_conf" where
  "sighup_handler P fs launched conf = conf_reload P fs launched conf"

definition sigint_handler :: "carbon_conf \<Rightarrow> carbon_conf" where
  "sigint_handler conf = conf\<lparr>run := False\<rparr>"

section \<open>What a reload keeps\<close>

text \<open>The parsers leave alone the flags and the name of the file they come from.\<close>

definition same_flags :: "carbon_conf \<Rightarrow> carbon_conf \<Rightarrow> bool" where
  "same_flags a b \<longleftrightarrow> run a = run b \<and> tracing a = tracing b \<and> conf_log_level a = conf_log_level b \<and>
     conf_file a = conf_file b"

text \<open>What \<open>fgets\<close> and the trimming leave of a line: at most 297 characters, none of them NUL.\<close>

definition line_fits :: "string \<Rightarrow> bool" where
  "line_fits l \<longleftrightarrow> length l < READ_BUF_MAX - 2 \<and> CHR 0x00 \<notin> set l"

lemma fgets_line_fits:
  assumes "fgets (READ_BUF_MAX - 2) content = Some (b, r)"
  shows "line_fits (trim_string (cstr b))"
proof -
  have "length b < READ_BUF_MAX - 2"
    using assms length_line_take [of "READ_BUF_MAX - 2 - 1" content]
    by (auto simp: fgets_def Let_def split: list.splits)
  moreover have "length (trim_string (cstr b)) \<le> length (cstr b)"
    unfolding trim_filter [OF cstr_no_nul] by (rule length_filter_le)
  moreover have "length (cstr b) \<le> length b" unfolding cstr_def by (rule length_takeWhile_le)
  moreover have "CHR 0x00 \<notin> set (trim_string (cstr b))"
    unfolding trim_filter [OF cstr_no_nul] using cstr_no_nul [of b] by simp
  ultimately show ?thesis unfolding line_fits_def by linarith
qed

text \<open>An invariant of the parser's variables that every line of this kind keeps.\<close>

lemma read_lines_keeps:
  assumes keep: "\<And>l s s'. line_fits l \<Longrightarrow> Q s \<Longrightarrow> f l s = Inr (Go s') \<Longrightarrow> Q s'"
    and leave: "\<And>l s s' st. line_fits l \<Longrightarrow> Q s \<Longrightarrow> f l s = Inr (Leave st s') \<Longrightarrow> Q s'"
  shows "Q s \<Longrightarrow> read_lines f content s = Inr (st, s') \<Longrightarrow> Q s'"
proof (induction "length content" arbitrary: content s rule: less_induct)
  case less
  show ?case
  proof (cases "fgets (READ_BUF_MAX - 2) content")
    case None
    then show ?thesis using less.prems by (simp add: read_lines.simps [of f content])
  next
    case (Some br)
    obtain b r where br: "br = (b, r)" by (cases br)
    then have short: "length r < length content"
      using Some fgets_shorter [of "READ_BUF_MAX - 2" content b r] by simp
    have fits: "line_fits (trim_string (cstr b))" using Some br fgets_line_fits [of content b r] by simp
    have step: "read_lines f content s = (case f (trim_string (cstr b)) s of
        Inl e \<Rightarrow> Inl e | Inr (Leave st s') \<Rightarrow> Inr (st, s') | Inr (Go s') \<Rightarrow> read_lines f r s')"
      using Some br by (subst read_lines.simps) simp
    consider e where "f (trim_string (cstr b)) s = Inl e"
      | t u where "f (trim_string (cstr b)) s = Inr (Leave t u)"
      | u where "f (trim_string (cstr b)) s = Inr (Go u)"
      by (metis flow.exhaust sum.exhaust)
    then show ?thesis
    proof cases
      case 1
      then show ?thesis using step less.prems(2) by simp
    next
      case 2
      then show ?thesis using step less.prems(2) leave [OF fits less.prems(1) 2] by simp
    next
      case 3
      then show ?thesis using step less.prems(2) less.hyps [OF short keep [OF fits less.prems(1) 3]] by simp
    qed
  qed
qed

lemma carbon_line_flags:
  "carbon_line l c = Inr (Go c') \<Longrightarrow> same_flags c' c"
  "carbon_line l c = Inr (Leave st c') \<Longrightarrow> same_flags c' c"
  by (auto simp: carbon_line_def same_flags_def Let_def split: option.splits prod.splits if_splits)

lemma schema_line_flags:
  "schema_line P l s = Inr (Go s') \<Longrightarrow> same_flags (sp_conf s') (sp_conf s)"
  "schema_line P l s \<noteq> Inr (Leave st s')"
  by (auto simp: schema_line_def bind_sum_def same_flags_def set_entries_def split: sum.splits if_splits)

lemma aggregation_line_flags:
  "aggregation_line P l s = Inr (Go s') \<Longrightarrow> same_flags (ap_conf s') (ap_conf s)"
  "aggregation_line P l s \<noteq> Inr (Leave st s')"
  by (auto simp: aggregation_line_def conf_add_pattern_aggregation_def bind_sum_def same_flags_def
      split: sum.splits if_splits option.splits)

lemma same_flags_trans: "same_flags b a \<Longrightarrow> same_flags c b \<Longrightarrow> same_flags c a"
  by (simp add: same_flags_def)

lemma read_lines_flags:
  assumes "\<And>l s s'. f l s = Inr (Go s') \<Longrightarrow> same_flags (g s') (g s)"
    and "\<And>l s st s'. f l s = Inr (Leave st s') \<Longrightarrow> same_flags (g s') (g s)"
    and run: "read_lines f content s = Inr (st, s')"
  shows "same_flags (g s') (g s)"
proof (rule read_lines_keeps [where Q = "\<lambda>x. same_flags (g x) (g s)", OF _ _ _ run])
  show "same_flags (g s) (g s)" by (simp add: same_flags_def)
qed (use assms(1,2) same_flags_trans in blast)+

lemma parse_carbon_flags:
  assumes "conf_parse_carbon_file fs c = Inr (st, c')"
  shows "same_flags c' c"
proof (cases "fopen_read fs (conf_file c)")
  case (Some content)
  then have "read_lines carbon_line content c = Inr (st, c')"
    using assms by (simp add: conf_parse_carbon_file_def)
  then show ?thesis using carbon_line_flags by (rule_tac read_lines_flags [where g = "\<lambda>x. x"]) auto
qed (use assms in \<open>simp add: conf_parse_carbon_file_def same_flags_def\<close>)

lemma parse_schema_flags:
  assumes "conf_parse_storage_schema_file P fs c = Inr (st, c')"
  shows "same_flags c' c"
proof -
  obtain fp where "conf_filepath (conf_dir c) ''storage-schemas.conf'' = Inr fp"
    using assms by (auto simp: conf_parse_storage_schema_file_def bind_sum_def split: sum.splits)
  then consider "c' = c"
    | content s' where "read_lines (schema_line P) content \<lparr>sp_conf = c, sp_found = False, sp_entries = []\<rparr> = Inr (st, s')"
        "c' = sp_conf s'"
    using assms by (auto simp: conf_parse_storage_schema_file_def bind_sum_def split: sum.splits option.splits)
  then show ?thesis
  proof cases
    case 2
    then show ?thesis using read_lines_flags [OF _ _ 2(1), of sp_conf] schema_line_flags by auto
  qed (simp add: same_flags_def)
qed

lemma parse_aggregation_flags:
  assumes "conf_parse_storage_aggregation_file P fs c = Inr (st, c')"
  shows "same_flags c' c"
proof -
  let ?s = "\<lparr>ap_conf = c, ap_found = False, ap_pattern = None, ap_xff_s = None, ap_method_s = None, ap_xff = 0\<rparr>"
  obtain fp where "conf_filepath (conf_dir c) ''storage-aggregation.conf'' = Inr fp"
    using assms by (auto simp: conf_parse_storage_aggregation_file_def bind_sum_def split: sum.splits)
  then consider "c' = c"
    | content s' where "read_lines (aggregation_line P) content ?s = Inr (st, s')" "c' = ap_conf s'"
    using assms by (auto simp: conf_parse_storage_aggregation_file_def bind_sum_def split: sum.splits option.splits)
  then show ?thesis
  proof cases
    case 2
    then show ?thesis using read_lines_flags [OF _ _ 2(1), of ap_conf] aggregation_line_flags by auto
  qed (simp add: same_flags_def)
qed

lemma conf_parse_flags: "conf_parse P fs c = Inr (st, c') \<Longrightarrow> same_flags c' c"
  unfolding conf_parse_def bind_sum_def
  by (auto split: sum.splits if_splits
      dest!: parse_carbon_flags parse_schema_flags parse_aggregation_flags) (auto simp: same_flags_def)

section \<open>The state at the start\<close>

lemma parse_args_flags:
  "parse_args P opts c = Inr c' \<Longrightarrow> run c' = run c \<and> tracing c' = (tracing c \<or> OptDebug \<in> set opts) \<and>
     conf_log_level c' = (if OptDebug \<in> set opts then LOG_LEVEL_DEBUG else conf_log_level c)"
  by (induction P opts c rule: parse_args.induct) (auto split: if_splits)

lemma check_sizes [simp]: "check_whisper_sizes ho = Inr ()"
  by (simp add: check_whisper_sizes_def)

lemma new_daemon_inv: "db_inv (new_daemon i)" "db_abs (new_daemon i) = []"
  using database_init_inv [of "new_daemon i" "new_daemon i"]
  by (simp_all add: database_init_def new_daemon_def)

lemma main_start_cases:
  assumes "main_start P i sys loc opts = Inr (c, d)"
  obtains c0 where "parse_args P opts (default_conf sys loc) = Inr c0" "conf_parse P i c0 = Inr (0, c)" "d = new_daemon i"
  using assms that
  by (auto simp: main_start_def bind_sum_def database_init_def new_daemon_def split: sum.splits if_splits)

lemma conf_reload_cases:
  assumes "conf_reload P fs launched conf = Inr c"
  shows "c = conf \<or> same_flags c conf \<and> conf_parse P fs (conf_copy conf) = Inr (0, c)"
proof -
  have "same_flags c' conf" if "conf_parse P fs (conf_copy conf) = Inr (st, c')" for st c'
    using conf_parse_flags [OF that] by (simp add: same_flags_def conf_copy_def)
  then show ?thesis
    using assms by (auto simp: conf_reload_def bind_sum_def split: sum.splits if_splits)
qed

section \<open>Start and reload from printed files\<close>

lemma parse_args_debug:
  "set opts \<subseteq> {OptDebug, OptOther} \<Longrightarrow>
   parse_args P opts c = Inr (if OptDebug \<in> set opts then c\<lparr>tracing := True, conf_log_level := LOG_LEVEL_DEBUG\<rparr> else c)"
  by (induction P opts c rule: parse_args.induct) auto

text \<open>Only the name of the main file and the default directory decide where the files are.\<close>

lemma conf_files_cong:
  assumes "conf_files P fs c ss es as" "conf_file c' = conf_file c"
    and "conf_dir (settings ss c') = conf_dir (settings ss c)"
  shows "conf_files P fs c' ss es as"
  using assms by (simp add: conf_files_def)

lemma settings_dir:
  "conf_dir c' = conf_dir c \<Longrightarrow> conf_dir (settings ss c') = conf_dir (settings ss c)"
proof (induction ss arbitrary: c c')
  case (Cons s ss)
  have "conf_dir (apply_setting s c') = conf_dir (apply_setting s c)" using Cons.prems by (cases s) simp_all
  from Cons.IH [OF this] show ?case by (simp add: settings_def)
qed (simp add: settings_def)

lemma main_start_files:
  assumes files: "conf_files P i (default_conf sys loc) ss es as" and "allocator_ok P"
    and args: "set opts \<subseteq> {OptDebug, OptOther}"
    and c0: "c0 = (if OptDebug \<in> set opts
      then (default_conf sys loc)\<lparr>tracing := True, conf_log_level := LOG_LEVEL_DEBUG\<rparr> else default_conf sys loc)"
  shows "main_start P i sys loc opts =
    Inr ((settings ss c0)\<lparr>schema := map schema_entry es, aggregation := agg_entries 0 as\<rparr>, new_daemon i)"
proof -
  have "conf_files P i c0 ss es as" using files by (rule conf_files_cong) (auto simp: c0 intro!: settings_dir)
  from conf_parse_read_back [OF this assms(2)]
  have "conf_parse P i c0 =
      Inr (0, (settings ss c0)\<lparr>schema := map schema_entry es, aggregation := agg_entries 0 as\<rparr>)"
    by (simp add: c0 default_conf_def)
  then show ?thesis
    using parse_args_debug [OF args] by (simp add: main_start_def bind_sum_def c0 database_init_def new_daemon_def)
qed

lemma conf_reload_files:
  assumes files: "conf_files P fs conf ss es as" and alloc: "allocator_ok P"
  shows "conf_reload P fs UNIV conf =
    Inr ((settings ss conf)\<lparr>schema := map schema_entry es, aggregation := agg_entries 0 as\<rparr>)"
proof -
  have "conf_files P fs (conf_copy conf) ss es as"
    using files by (rule conf_files_cong) (auto simp: conf_copy_def intro!: settings_dir)
  from conf_parse_read_back [OF this alloc] show ?thesis
    by (simp add: conf_reload_def bind_sum_def conf_copy_def settings_lists)
qed

end
