(* ===== verification/Conf_Memory.thy ===== *)
theory Conf_Memory
  imports Common Linked_List
begin

text \<open>
  The runtime configuration as it lies in memory, for the functions of \<open>main.c\<close> that copy
  and free it. Every block that \<open>malloc\<close> and \<open>calloc\<close> give has an address in one heap. A
  representation predicate relates the block of a configuration, and all that it owns, to
  the \<^typ>\<open>carbon_conf\<close> of the other theories.
\<close>

section \<open>Blocks\<close>

record ret_cell = retention +
  rc_next :: ptr

record pret_cell =
  pc_pattern :: ptr
  pc_retention :: ptr
  pc_list :: ptr
  pc_next :: ptr

record agg_cell =
  ac_pattern :: ptr
  ac_xff :: cfloat
  ac_method :: aggregation_type
  ac_next :: ptr

record conf_cell =
  cc_schema :: ptr
  cc_aggregation :: ptr
  cc_conf_dir :: ptr
  cc_conf_file :: ptr
  cc_storage_dir :: ptr
  cc_line_receiver_port :: int
  cc_udp_receiver_port :: int
  cc_run :: bool
  cc_tracing :: bool
  cc_log_level :: log_level

datatype block = Str string | Ret ret_cell | Pret pret_cell | Agg agg_cell | Conf conf_cell

record mem =
  blocks :: "block heap"
  fresh :: nat

section \<open>The heap\<close>

definition alloc :: "block \<Rightarrow> (mem, addr) prog" where
  "alloc b = (\<lambda>m. Inr (fresh m, m\<lparr>blocks := (blocks m)(fresh m \<mapsto> b), fresh := Suc (fresh m)\<rparr>))"

text \<open>\<open>free\<close>: nothing for the null pointer; a second time for the same block is an error.\<close>

fun free :: "ptr \<Rightarrow> (mem, unit) prog" where
  "free None = ret ()"
| "free (Some a) = (\<lambda>m. case blocks m a of None \<Rightarrow> Inl UseAfterFree
     | Some _ \<Rightarrow> Inr ((), m\<lparr>blocks := (blocks m)(a := None)\<rparr>))"

definition load :: "ptr \<Rightarrow> (mem, block) prog" where
  "load p = (\<lambda>m. pure_prog (deref (blocks m) p) m)"

definition store :: "addr \<Rightarrow> block \<Rightarrow> (mem, unit) prog" where
  "store a b = (\<lambda>m. case blocks m a of None \<Rightarrow> Inl UseAfterFree
     | Some _ \<Rightarrow> Inr ((), m\<lparr>blocks := (blocks m)(a \<mapsto> b)\<rparr>))"

text \<open>Loads at the type of the pointer; a block of another type is not what it points to.\<close>

definition load_ret :: "addr \<Rightarrow> (mem, ret_cell) prog" where
  "load_ret a = andthen (load (Some a)) (\<lambda>b. case b of Ret c \<Rightarrow> ret c | _ \<Rightarrow> halt OutOfBounds)"

definition load_pret :: "addr \<Rightarrow> (mem, pret_cell) prog" where
  "load_pret a = andthen (load (Some a)) (\<lambda>b. case b of Pret c \<Rightarrow> ret c | _ \<Rightarrow> halt OutOfBounds)"

definition load_agg :: "addr \<Rightarrow> (mem, agg_cell) prog" where
  "load_agg a = andthen (load (Some a)) (\<lambda>b. case b of Agg c \<Rightarrow> ret c | _ \<Rightarrow> halt OutOfBounds)"

definition load_conf :: "addr \<Rightarrow> (mem, conf_cell) prog" where
  "load_conf a = andthen (load (Some a)) (\<lambda>b. case b of Conf c \<Rightarrow> ret c | _ \<Rightarrow> halt OutOfBounds)"

definition load_str :: "ptr \<Rightarrow> (mem, string) prog" where
  "load_str p = andthen (load p) (\<lambda>b. case b of Str s \<Rightarrow> ret s | _ \<Rightarrow> halt OutOfBounds)"

section \<open>Freeing a configuration\<close>

text \<open>The body of each loop frees one entry and gives the pointer to the next one.\<close>

definition free_ret :: "addr \<Rightarrow> (mem, ptr) prog" where
  "free_ret a = andthen (load_ret a) (\<lambda>c. andthen (free (Some a)) (\<lambda>_. ret (rc_next c)))"

fun free_rets :: "nat \<Rightarrow> ptr \<Rightarrow> (mem, unit) prog" where
  "free_rets n None = ret ()"
| "free_rets 0 (Some a) = halt Endless"
| "free_rets (Suc n) (Some a) = andthen (free_ret a) (\<lambda>nx. free_rets n nx)"

definition free_pret :: "addr \<Rightarrow> (mem, ptr) prog" where
  "free_pret a =
     andthen (load_pret a) (\<lambda>c.
     andthen (free (pc_pattern c)) (\<lambda>_.
     andthen (store a (Pret (c\<lparr>pc_pattern := None\<rparr>))) (\<lambda>_.
     andthen (free (pc_retention c)) (\<lambda>_.
     andthen (store a (Pret (c\<lparr>pc_pattern := None, pc_retention := None\<rparr>))) (\<lambda>_.
     andthen (\<lambda>m. free_rets (fresh m) (pc_list c) m) (\<lambda>_.
     andthen (store a (Pret (c\<lparr>pc_pattern := None, pc_retention := None, pc_list := None\<rparr>))) (\<lambda>_.
     andthen (free (Some a)) (\<lambda>_.
     ret (pc_next c)))))))))"

fun free_prets :: "nat \<Rightarrow> ptr \<Rightarrow> (mem, unit) prog" where
  "free_prets n None = ret ()"
| "free_prets 0 (Some a) = halt Endless"
| "free_prets (Suc n) (Some a) = andthen (free_pret a) (\<lambda>nx. free_prets n nx)"

definition free_agg :: "addr \<Rightarrow> (mem, ptr) prog" where
  "free_agg a =
     andthen (load_agg a) (\<lambda>c.
     andthen (free (ac_pattern c)) (\<lambda>_.
     andthen (free (Some a)) (\<lambda>_.
     ret (ac_next c))))"

fun free_aggs :: "nat \<Rightarrow> ptr \<Rightarrow> (mem, unit) prog" where
  "free_aggs n None = ret ()"
| "free_aggs 0 (Some a) = halt Endless"
| "free_aggs (Suc n) (Some a) = andthen (free_agg a) (\<lambda>nx. free_aggs n nx)"

definition conf_free :: "addr \<Rightarrow> (mem, unit) prog" where
  "conf_free a =
     andthen (load_conf a) (\<lambda>c.
     andthen (free (cc_conf_dir c)) (\<lambda>_.
     andthen (free (cc_conf_file c)) (\<lambda>_.
     andthen (free (cc_storage_dir c)) (\<lambda>_.
     andthen (\<lambda>m. free_prets (fresh m) (cc_schema c) m) (\<lambda>_.
     andthen (store a (Conf (c\<lparr>cc_schema := None\<rparr>))) (\<lambda>_.
     andthen (\<lambda>m. free_aggs (fresh m) (cc_aggregation c) m) (\<lambda>_.
     andthen (store a (Conf (c\<lparr>cc_schema := None, cc_aggregation := None\<rparr>))) (\<lambda>_.
     free (Some a)))))))))"

section \<open>Copying a configuration\<close>

text \<open>
  A string copied to a cleared block of \<open>PATH_MAX\<close> bytes, without its terminating NUL: one
  that fills the block is not terminated.
\<close>

definition dup_path :: "platform \<Rightarrow> string \<Rightarrow> (mem, addr) prog" where
  "dup_path P s =
     (if usable P PATH_MAX < length s then halt HeapOverflow
      else if PATH_MAX \<le> length s then halt OutOfBounds
      else alloc (Str s))"

text \<open>The copy into the block \<open>dest\<close>, and the block that \<open>conf_reload\<close> makes for it.\<close>

definition conf_copy_mem :: "platform \<Rightarrow> addr \<Rightarrow> addr \<Rightarrow> (mem, unit) prog" where
  "conf_copy_mem P orig dest =
     andthen (load_conf orig) (\<lambda>c.
     andthen (store dest (Conf (c\<lparr>cc_schema := None, cc_aggregation := None\<rparr>))) (\<lambda>_.
     andthen (load_str (cc_conf_dir c)) (\<lambda>s.
     andthen (dup_path P s) (\<lambda>d.
     andthen (store dest (Conf (c\<lparr>cc_schema := None, cc_aggregation := None, cc_conf_dir := Some d\<rparr>))) (\<lambda>_.
     andthen (load_str (cc_conf_file c)) (\<lambda>s.
     andthen (dup_path P s) (\<lambda>f.
     andthen (store dest (Conf (c\<lparr>cc_schema := None, cc_aggregation := None, cc_conf_dir := Some d,
       cc_conf_file := Some f\<rparr>))) (\<lambda>_.
     andthen (load_str (cc_storage_dir c)) (\<lambda>s.
     andthen (dup_path P s) (\<lambda>t.
     store dest (Conf (c\<lparr>cc_schema := None, cc_aggregation := None, cc_conf_dir := Some d,
       cc_conf_file := Some f, cc_storage_dir := Some t\<rparr>))))))))))))"

definition empty_conf_cell :: conf_cell where
  "empty_conf_cell = \<lparr>cc_schema = None, cc_aggregation = None, cc_conf_dir = None, cc_conf_file = None,
     cc_storage_dir = None, cc_line_receiver_port = 0, cc_udp_receiver_port = 0, cc_run = False,
     cc_tracing = False, cc_log_level = LOG_LEVEL_QUIET\<rparr>"

definition new_conf_copy :: "platform \<Rightarrow> addr \<Rightarrow> (mem, addr) prog" where
  "new_conf_copy P orig =
     andthen (alloc (Conf empty_conf_cell)) (\<lambda>dest.
     andthen (conf_copy_mem P orig dest) (\<lambda>_. ret dest))"

section \<open>What a configuration owns\<close>

text \<open>
  The entries of a list in memory: \<open>at h p e\<close> is the pointer behind the entry \<open>e\<close> if \<open>p\<close>
  points to it, and \<open>None\<close> if it does not.
\<close>

fun list_at :: "(block heap \<Rightarrow> ptr \<Rightarrow> 'e \<Rightarrow> ptr option) \<Rightarrow> block heap \<Rightarrow> ptr \<Rightarrow> 'e list \<Rightarrow> bool" where
  "list_at at h p [] \<longleftrightarrow> p = None"
| "list_at at h p (e # es) \<longleftrightarrow> (case at h p e of None \<Rightarrow> False | Some nx \<Rightarrow> list_at at h nx es)"

definition str_at :: "block heap \<Rightarrow> ptr \<Rightarrow> string \<Rightarrow> bool" where
  "str_at h p s \<longleftrightarrow> (case p of None \<Rightarrow> False | Some a \<Rightarrow> h a = Some (Str s))"

type_synonym ret_node = "addr \<times> retention"

fun ret_at :: "block heap \<Rightarrow> ptr \<Rightarrow> ret_node \<Rightarrow> ptr option" where
  "ret_at h p (a, r) =
     (case h a of Some (Ret c) \<Rightarrow> if p = Some a \<and> retention.truncate c = r then Some (rc_next c) else None
      | _ \<Rightarrow> None)"

fun ret_foot :: "ret_node \<Rightarrow> addr list" where
  "ret_foot (a, r) = [a]"

text \<open>An entry of the schema that has a pattern but no retentions has no second string.\<close>

record pret_node =
  pn_addr :: addr
  pn_pattern :: addr
  pn_retention :: ptr
  pn_rets :: "ret_node list"
  pn_entry :: pattern_retention

definition pret_at :: "block heap \<Rightarrow> ptr \<Rightarrow> pret_node \<Rightarrow> ptr option" where
  "pret_at h p n =
     (case h (pn_addr n) of Some (Pret c) \<Rightarrow>
        if p = Some (pn_addr n) \<and> pc_pattern c = Some (pn_pattern n) \<and> pc_retention c = pn_retention n \<and>
           str_at h (pc_pattern c) (str_pattern (pn_entry n)) \<and>
           (if pn_retention n = None then str_retention (pn_entry n) = []
            else str_at h (pn_retention n) (str_retention (pn_entry n))) \<and>
           list_at ret_at h (pc_list c) (pn_rets n) \<and> map snd (pn_rets n) = retention_list (pn_entry n)
        then Some (pc_next c) else None
      | _ \<Rightarrow> None)"

definition ptr_foot :: "ptr \<Rightarrow> addr list" where
  "ptr_foot p = (case p of None \<Rightarrow> [] | Some a \<Rightarrow> [a])"

definition pret_foot :: "pret_node \<Rightarrow> addr list" where
  "pret_foot n = pn_addr n # pn_pattern n # ptr_foot (pn_retention n) @ concat (map ret_foot (pn_rets n))"

record agg_node =
  an_addr :: addr
  an_pattern :: addr
  an_entry :: pattern_aggregation

definition agg_at :: "block heap \<Rightarrow> ptr \<Rightarrow> agg_node \<Rightarrow> ptr option" where
  "agg_at h p n =
     (case h (an_addr n) of Some (Agg c) \<Rightarrow>
        if p = Some (an_addr n) \<and> ac_pattern c = Some (an_pattern n) \<and>
           str_at h (ac_pattern c) (agg_pattern (an_entry n)) \<and>
           ac_xff c = agg_xff (an_entry n) \<and> ac_method c = agg_method (an_entry n)
        then Some (ac_next c) else None
      | _ \<Rightarrow> None)"

definition agg_foot :: "agg_node \<Rightarrow> addr list" where
  "agg_foot n = [an_addr n, an_pattern n]"

record conf_node =
  cn_addr :: addr
  cn_dir :: addr
  cn_file :: addr
  cn_storage :: addr
  cn_schema :: "pret_node list"
  cn_aggs :: "agg_node list"

definition conf_foot :: "conf_node \<Rightarrow> addr list" where
  "conf_foot n = cn_addr n # cn_dir n # cn_file n # cn_storage n #
     concat (map pret_foot (cn_schema n)) @ concat (map agg_foot (cn_aggs n))"

text \<open>The block at the address of \<open>n\<close>, with what it points to, is the configuration \<open>c\<close>.\<close>

definition conf_at :: "block heap \<Rightarrow> conf_node \<Rightarrow> carbon_conf \<Rightarrow> bool" where
  "conf_at h n c \<longleftrightarrow>
     (case h (cn_addr n) of Some (Conf cc) \<Rightarrow>
        cc_conf_dir cc = Some (cn_dir n) \<and> cc_conf_file cc = Some (cn_file n) \<and>
        cc_storage_dir cc = Some (cn_storage n) \<and>
        h (cn_dir n) = Some (Str (conf_dir c)) \<and> h (cn_file n) = Some (Str (conf_file c)) \<and>
        h (cn_storage n) = Some (Str (storage_dir c)) \<and>
        list_at pret_at h (cc_schema cc) (cn_schema n) \<and> map pn_entry (cn_schema n) = schema c \<and>
        list_at agg_at h (cc_aggregation cc) (cn_aggs n) \<and> map an_entry (cn_aggs n) = aggregation c \<and>
        cc_line_receiver_port cc = line_receiver_port c \<and> cc_udp_receiver_port cc = udp_receiver_port c \<and>
        cc_run cc = run c \<and> cc_tracing cc = tracing c \<and> cc_log_level cc = conf_log_level c
      | _ \<Rightarrow> False)"

text \<open>The blocks of a configuration are its own: no two of its pointers share one.\<close>

definition owned :: "mem \<Rightarrow> addr list \<Rightarrow> bool" where
  "owned m as \<longleftrightarrow> distinct as \<and> (\<forall>a\<in>set as. a < fresh m)"

lemma list_at_cong:
  assumes "\<And>e nx p. e \<in> set es \<Longrightarrow> at h p e = Some nx \<Longrightarrow> at h' p e = Some nx"
  shows "list_at at h p es \<Longrightarrow> list_at at h' p es"
  using assms
proof (induction es arbitrary: p)
  case (Cons e es)
  then obtain nx where "at h p e = Some nx" "list_at at h nx es" by (auto split: option.splits)
  with Cons show ?case by auto
qed simp

lemma owned_append: "owned m (as @ bs) \<longleftrightarrow> owned m as \<and> owned m bs \<and> set as \<inter> set bs = {}"
  by (auto simp: owned_def)

lemma owned_length: "owned m as \<Longrightarrow> length as \<le> fresh m"
proof -
  assume "owned m as"
  then have "distinct as" "set as \<subseteq> {..<fresh m}" by (auto simp: owned_def)
  then show ?thesis using card_mono [of "{..<fresh m}" "set as"] by (simp add: distinct_card)
qed

section \<open>Loops that free a list\<close>

text \<open>
  The contract of the body of such a loop: it frees the blocks of one entry, no others,
  and gives the pointer that the entry had to the next one.
\<close>

locale freed_entries =
  fixes body :: "addr \<Rightarrow> (mem, ptr) prog" and loop :: "nat \<Rightarrow> ptr \<Rightarrow> (mem, unit) prog"
    and at :: "block heap \<Rightarrow> ptr \<Rightarrow> 'e \<Rightarrow> ptr option" and foot :: "'e \<Rightarrow> addr list"
  assumes loop_null: "loop n None = ret ()"
    and loop_next: "loop (Suc n) (Some a) = andthen (body a) (\<lambda>nx. loop n nx)"
    and at_cong: "at h p e = Some nx \<Longrightarrow> (\<And>a. a \<in> set (foot e) \<Longrightarrow> h' a = h a) \<Longrightarrow> at h' p e = Some nx"
    and foot_nonempty: "foot e \<noteq> []"
    and body_frees: "at (blocks m) p e = Some nx \<Longrightarrow> owned m (foot e) \<Longrightarrow>
      \<exists>a. p = Some a \<and> body a m = Inr (nx, m\<lparr>blocks := blocks m |` (- set (foot e))\<rparr>)"
begin

lemma entries_cong:
  assumes "list_at at h p es" "\<And>a. a \<in> set (concat (map foot es)) \<Longrightarrow> h' a = h a"
  shows "list_at at h' p es"
  using assms(1) by (rule list_at_cong [rotated]) (erule at_cong, use assms(2) in auto)

lemma loop_frees:
  "list_at at (blocks m) p es \<Longrightarrow> owned m (concat (map foot es)) \<Longrightarrow> length es \<le> n \<Longrightarrow>
   loop n p m = Inr ((), m\<lparr>blocks := blocks m |` (- set (concat (map foot es)))\<rparr>)"
proof (induction es arbitrary: p m n)
  case Nil
  then show ?case by (simp add: loop_null)
next
  case (Cons e es)
  let ?m = "m\<lparr>blocks := blocks m |` (- set (foot e))\<rparr>"
  obtain nx where nx: "at (blocks m) p e = Some nx" "list_at at (blocks m) nx es"
    using Cons.prems(1) by (auto split: option.splits)
  have own: "owned m (foot e)" "owned m (concat (map foot es))" "set (foot e) \<inter> set (concat (map foot es)) = {}"
    using Cons.prems(2) by (simp_all add: owned_append)
  obtain a where a: "p = Some a" "body a m = Inr (nx, ?m)" using body_frees [OF nx(1) own(1)] by blast
  obtain k where k: "n = Suc k" "length es \<le> k" using Cons.prems(3) by (cases n) auto
  have "list_at at (blocks ?m) nx es"
    using nx(2) by (rule entries_cong) (use own(3) in \<open>auto simp: restrict_map_def\<close>)
  then have "loop k nx ?m = Inr ((), ?m\<lparr>blocks := blocks ?m |` (- set (concat (map foot es)))\<rparr>)"
    using own(2) k(2) by (intro Cons.IH) (simp_all add: owned_def)
  then show ?case
    by (simp add: a k(1) loop_next andthen_def Int_commute)
qed

text \<open>The number of addresses in use is enough fuel.\<close>

lemma entries_length:
  assumes "owned m (concat (map foot es))"
  shows "length es \<le> fresh m"
proof -
  have "length es \<le> length (concat (map foot es))"
  proof (induction es)
    case (Cons e es)
    have "1 \<le> length (foot e)" using foot_nonempty [of e] by (cases "foot e") simp_all
    with Cons show ?case by simp
  qed simp
  also have "\<dots> \<le> fresh m" using assms by (rule owned_length)
  finally show ?thesis .
qed

lemma loop_frees_all:
  assumes "list_at at (blocks m) p es" "owned m (concat (map foot es))"
  shows "loop (fresh m) p m = Inr ((), m\<lparr>blocks := blocks m |` (- set (concat (map foot es)))\<rparr>)"
  by (rule loop_frees [OF assms entries_length [OF assms(2)]])

end

section \<open>The three loops\<close>

lemmas mem_simps = load_def load_ret_def load_pret_def load_agg_def load_conf_def load_str_def
  store_def andthen_def deref_def alloc_def

lemma str_at_cong: "str_at h p s \<Longrightarrow> (\<And>a. a \<in> set (ptr_foot p) \<Longrightarrow> h' a = h a) \<Longrightarrow> str_at h' p s"
  by (auto simp: str_at_def ptr_foot_def split: option.splits)

interpretation rets: freed_entries free_ret free_rets ret_at ret_foot
proof (unfold_locales, goal_cases)
  case (3 h p e nx h')
  then show ?case by (cases e) (auto split: option.splits block.splits if_splits)
next
  case (4 e)
  then show ?case by (cases e) simp
next
  case (5 m p e nx)
  then show ?case
    by (cases e) (auto simp: free_ret_def mem_simps restrict_map_def fun_eq_iff
        split: option.splits block.splits if_splits)
qed simp_all

lemma pret_at_cases:
  assumes "pret_at h p n = Some nx"
  obtains c where "h (pn_addr n) = Some (Pret c)" "p = Some (pn_addr n)" "nx = pc_next c"
    "pc_pattern c = Some (pn_pattern n)" "pc_retention c = pn_retention n"
    "h (pn_pattern n) = Some (Str (str_pattern (pn_entry n)))"
    "if pn_retention n = None then str_retention (pn_entry n) = []
     else str_at h (pn_retention n) (str_retention (pn_entry n))"
    "list_at ret_at h (pc_list c) (pn_rets n)" "map snd (pn_rets n) = retention_list (pn_entry n)"
  using assms that
  by (auto simp: pret_at_def str_at_def split: option.splits block.splits if_splits)

lemma free_ptr:
  assumes "str_at (blocks m) p s \<or> p = None"
  shows "free p m = Inr ((), m\<lparr>blocks := blocks m |` (- set (ptr_foot p))\<rparr>)"
  using assms
  by (cases p) (auto simp: str_at_def ptr_foot_def restrict_map_def fun_eq_iff intro!: mem.equality)

lemma free_pret_frees:
  assumes at: "pret_at (blocks m) p n = Some nx" and own: "owned m (pret_foot n)"
  shows "\<exists>a. p = Some a \<and> free_pret a m = Inr (nx, m\<lparr>blocks := blocks m |` (- set (pret_foot n))\<rparr>)"
proof -
  obtain c where c: "blocks m (pn_addr n) = Some (Pret c)" "p = Some (pn_addr n)" "nx = pc_next c"
    "pc_pattern c = Some (pn_pattern n)" "pc_retention c = pn_retention n"
    "blocks m (pn_pattern n) = Some (Str (str_pattern (pn_entry n)))"
    "if pn_retention n = None then str_retention (pn_entry n) = []
     else str_at (blocks m) (pn_retention n) (str_retention (pn_entry n))"
    "list_at ret_at (blocks m) (pc_list c) (pn_rets n)"
    by (rule pret_at_cases [OF at])
  let ?a = "pn_addr n" and ?s = "pn_pattern n" and ?Q = "ptr_foot (pn_retention n)"
    and ?R = "concat (map ret_foot (pn_rets n))"
  have dist: "?a \<noteq> ?s" "?a \<notin> set ?Q" "?s \<notin> set ?Q" "?a \<notin> set ?R" "?s \<notin> set ?R" "set ?Q \<inter> set ?R = {}"
    "owned m ?R"
    using own by (auto simp: pret_foot_def owned_def)
  let ?c1 = "Pret (c\<lparr>pc_pattern := None\<rparr>)" and ?c2 = "Pret (c\<lparr>pc_pattern := None, pc_retention := None\<rparr>)"
  define h1 where "h1 = (blocks m)(?s := None, ?a \<mapsto> ?c1)"
  have str: "str_at h1 (pn_retention n) (str_retention (pn_entry n)) \<or> pn_retention n = None"
    using c(7) dist(2,3) by (auto simp: h1_def str_at_def ptr_foot_def split: if_splits option.splits)
  define h2 where "h2 = (h1 |` (- set ?Q))(?a \<mapsto> ?c2)"
  have "list_at ret_at h2 (pc_list c) (pn_rets n)"
    using c(8) by (rule rets.entries_cong) (use dist in \<open>auto simp: h1_def h2_def restrict_map_def\<close>)
  then have rets: "free_rets (fresh m) (pc_list c) (m\<lparr>blocks := h2\<rparr>) = Inr ((), m\<lparr>blocks := h2 |` (- set ?R)\<rparr>)"
    using rets.loop_frees_all [of "m\<lparr>blocks := h2\<rparr>"] dist(7) by (simp add: owned_def)
  have q: "free (pn_retention n) (m\<lparr>blocks := h1\<rparr>) = Inr ((), m\<lparr>blocks := h1 |` (- set ?Q)\<rparr>)"
    using free_ptr [of "m\<lparr>blocks := h1\<rparr>"] str by simp
  have a1: "(h1 |` (- set ?Q)) ?a = Some ?c1" "(h2 |` (- set ?R)) ?a = Some ?c2"
    using dist by (simp_all add: h1_def h2_def)
  have "free_pret ?a m = Inr (nx, m\<lparr>blocks := (h2 |` (- set ?R))(?a := None)\<rparr>)"
    unfolding free_pret_def
    using c(1,3-6) dist(1) q a1 rets by (simp add: mem_simps flip: h1_def h2_def)
  moreover have "(h2 |` (- set ?R))(?a := None) = blocks m |` (- set (pret_foot n))"
    by (auto simp: h1_def h2_def restrict_map_def pret_foot_def fun_eq_iff)
  ultimately show ?thesis using c(2) by simp
qed

interpretation prets: freed_entries free_pret free_prets pret_at pret_foot
proof (unfold_locales, goal_cases)
  case (3 h p e nx h')
  obtain c where c: "h (pn_addr e) = Some (Pret c)" "p = Some (pn_addr e)" "nx = pc_next c"
    "pc_pattern c = Some (pn_pattern e)" "pc_retention c = pn_retention e"
    "h (pn_pattern e) = Some (Str (str_pattern (pn_entry e)))"
    "if pn_retention e = None then str_retention (pn_entry e) = []
     else str_at h (pn_retention e) (str_retention (pn_entry e))"
    "list_at ret_at h (pc_list c) (pn_rets e)" "map snd (pn_rets e) = retention_list (pn_entry e)"
    by (rule pret_at_cases [OF 3(1)])
  have "list_at ret_at h' (pc_list c) (pn_rets e)"
    using c(8) by (rule rets.entries_cong) (use 3(2) in \<open>auto simp: pret_foot_def\<close>)
  moreover have "str_at h (pn_retention e) s \<Longrightarrow> str_at h' (pn_retention e) s" for s
    by (erule str_at_cong) (use 3(2) in \<open>auto simp: pret_foot_def\<close>)
  moreover have "h' (pn_addr e) = h (pn_addr e)" "h' (pn_pattern e) = h (pn_pattern e)"
    using 3(2) by (simp_all add: pret_foot_def)
  ultimately show ?case using c by (simp add: pret_at_def str_at_def [of _ "Some _"] split: if_splits)
next
  case (4 e)
  then show ?case by (simp add: pret_foot_def)
next
  case (5 m p e nx)
  then show ?case by (rule free_pret_frees)
qed simp_all

interpretation aggs: freed_entries free_agg free_aggs agg_at agg_foot
proof (unfold_locales, goal_cases)
  case (3 h p e nx h')
  then show ?case
    by (auto simp: agg_at_def agg_foot_def str_at_def split: option.splits block.splits if_splits)
next
  case (4 e)
  then show ?case by (simp add: agg_foot_def)
next
  case (5 m p e nx)
  then show ?case
    by (auto simp: agg_at_def agg_foot_def str_at_def owned_def free_agg_def mem_simps restrict_map_def fun_eq_iff
        split: option.splits block.splits if_splits)
qed simp_all

section \<open>The whole configuration\<close>

lemma conf_at_cases:
  assumes "conf_at h n c"
  obtains cc where "h (cn_addr n) = Some (Conf cc)" "cc_conf_dir cc = Some (cn_dir n)"
    "cc_conf_file cc = Some (cn_file n)" "cc_storage_dir cc = Some (cn_storage n)"
    "h (cn_dir n) = Some (Str (conf_dir c))" "h (cn_file n) = Some (Str (conf_file c))"
    "h (cn_storage n) = Some (Str (storage_dir c))"
    "list_at pret_at h (cc_schema cc) (cn_schema n)" "list_at agg_at h (cc_aggregation cc) (cn_aggs n)"
  using assms that by (auto simp: conf_at_def split: option.splits block.splits)

lemma conf_at_cong:
  assumes "conf_at h n c" and same: "\<And>a. a \<in> set (conf_foot n) \<Longrightarrow> h' a = h a"
  shows "conf_at h' n c"
proof -
  have "list_at pret_at h p (cn_schema n) \<Longrightarrow> list_at pret_at h' p (cn_schema n)" for p
    by (erule prets.entries_cong) (use same in \<open>auto simp: conf_foot_def\<close>)
  moreover have "list_at agg_at h p (cn_aggs n) \<Longrightarrow> list_at agg_at h' p (cn_aggs n)" for p
    by (erule aggs.entries_cong) (use same in \<open>auto simp: conf_foot_def\<close>)
  moreover have "h' (cn_addr n) = h (cn_addr n)" "h' (cn_dir n) = h (cn_dir n)"
    "h' (cn_file n) = h (cn_file n)" "h' (cn_storage n) = h (cn_storage n)"
    using same by (simp_all add: conf_foot_def)
  ultimately show ?thesis
    using assms(1) by (auto simp: conf_at_def split: option.splits block.splits)
qed

text \<open>Freeing a configuration ends, frees all of its blocks once and touches no other block.\<close>

lemma conf_free_frees:
  assumes at: "conf_at (blocks m) n c" and own: "owned m (conf_foot n)"
  shows "conf_free (cn_addr n) m = Inr ((), m\<lparr>blocks := blocks m |` (- set (conf_foot n))\<rparr>)"
proof -
  let ?a = "cn_addr n" and ?S = "concat (map pret_foot (cn_schema n))" and ?G = "concat (map agg_foot (cn_aggs n))"
  obtain cc where cc: "blocks m ?a = Some (Conf cc)" "cc_conf_dir cc = Some (cn_dir n)"
    "cc_conf_file cc = Some (cn_file n)" "cc_storage_dir cc = Some (cn_storage n)"
    "blocks m (cn_dir n) = Some (Str (conf_dir c))" "blocks m (cn_file n) = Some (Str (conf_file c))"
    "blocks m (cn_storage n) = Some (Str (storage_dir c))"
    "list_at pret_at (blocks m) (cc_schema cc) (cn_schema n)" "list_at agg_at (blocks m) (cc_aggregation cc) (cn_aggs n)"
    by (rule conf_at_cases [OF at])
  have dist: "distinct [?a, cn_dir n, cn_file n, cn_storage n]"
    "set [?a, cn_dir n, cn_file n, cn_storage n] \<inter> set (?S @ ?G) = {}" "set ?S \<inter> set ?G = {}"
    "owned m ?S" "owned m ?G"
    using own by (auto simp: conf_foot_def owned_def)
  define S G where "S = - set ?S" and "G = - set ?G"
  define h1 where "h1 = (blocks m)(cn_dir n := None, cn_file n := None, cn_storage n := None)"
  let ?c1 = "Conf (cc\<lparr>cc_schema := None\<rparr>)"
  define h2 where "h2 = (h1 |` S)(?a \<mapsto> ?c1)"
  have "list_at pret_at h1 (cc_schema cc) (cn_schema n)"
    using cc(8) by (rule prets.entries_cong) (use dist(2) in \<open>auto simp: h1_def\<close>)
  then have S: "free_prets (fresh m) (cc_schema cc) (m\<lparr>blocks := h1\<rparr>) = Inr ((), m\<lparr>blocks := h1 |` S\<rparr>)"
    using prets.loop_frees_all [of "m\<lparr>blocks := h1\<rparr>"] dist(4) by (simp add: owned_def S_def)
  have "list_at agg_at h2 (cc_aggregation cc) (cn_aggs n)"
    using cc(9) by (rule aggs.entries_cong) (use dist(2,3) in \<open>auto simp: h1_def h2_def restrict_map_def S_def\<close>)
  then have G: "free_aggs (fresh m) (cc_aggregation cc) (m\<lparr>blocks := h2\<rparr>) = Inr ((), m\<lparr>blocks := h2 |` G\<rparr>)"
    using aggs.loop_frees_all [of "m\<lparr>blocks := h2\<rparr>"] dist(5) by (simp add: owned_def G_def)
  have foot: "- set (conf_foot n) = S \<inter> G \<inter> - {?a, cn_dir n, cn_file n, cn_storage n}"
    unfolding S_def G_def conf_foot_def set_append list.set by blast
  have a: "(h1 |` S) ?a = Some (Conf cc)" "(h2 |` G) ?a = Some ?c1"
    using dist(1,2) cc(1) by (simp_all add: h1_def h2_def S_def G_def)
  have "conf_free ?a m = Inr ((), m\<lparr>blocks := (h2 |` G)(?a := None)\<rparr>)"
    unfolding conf_free_def
    using cc(1-7) dist(1) S G a by (simp add: mem_simps flip: h1_def h2_def)
  moreover have "(h2 |` G)(?a := None) = blocks m |` (- set (conf_foot n))"
    unfolding foot by (rule ext) (simp add: h1_def h2_def restrict_map_def)
  ultimately show ?thesis by simp
qed

text \<open>The copy has four blocks of its own and shares none with the original.\<close>

definition copy_node :: "addr \<Rightarrow> conf_node" where
  "copy_node a = \<lparr>cn_addr = a, cn_dir = a + 1, cn_file = a + 2, cn_storage = a + 3, cn_schema = [], cn_aggs = []\<rparr>"

lemma conf_foot_copy: "conf_foot (copy_node a) = [a, a + 1, a + 2, a + 3]"
  by (simp add: conf_foot_def copy_node_def)

definition paths_fit :: "carbon_conf \<Rightarrow> bool" where
  "paths_fit c \<longleftrightarrow> length (conf_dir c) < PATH_MAX \<and> length (conf_file c) < PATH_MAX \<and> length (storage_dir c) < PATH_MAX"

lemma dup_path_fits:
  "allocator_ok P \<Longrightarrow> length s < PATH_MAX \<Longrightarrow> dup_path P s = alloc (Str s)"
proof -
  assume "allocator_ok P" "length s < PATH_MAX"
  then have "length s \<le> usable P PATH_MAX" unfolding allocator_ok_def by (meson le_trans less_imp_le)
  with \<open>length s < PATH_MAX\<close> show ?thesis by (simp add: dup_path_def)
qed

lemma new_conf_copy_spec:
  assumes at: "conf_at (blocks m) n c" and own: "owned m (conf_foot n)"
    and alloc: "allocator_ok P" and fit: "paths_fit c"
  obtains m' where "new_conf_copy P (cn_addr n) m = Inr (fresh m, m')"
    "conf_at (blocks m') (copy_node (fresh m)) (c\<lparr>schema := [], aggregation := []\<rparr>)"
    "\<forall>a. a \<notin> set (conf_foot (copy_node (fresh m))) \<longrightarrow> blocks m' a = blocks m a"
    "fresh m' = fresh m + 4"
proof -
  let ?f = "fresh m"
  obtain cc where cc: "blocks m (cn_addr n) = Some (Conf cc)" "cc_conf_dir cc = Some (cn_dir n)"
    "cc_conf_file cc = Some (cn_file n)" "cc_storage_dir cc = Some (cn_storage n)"
    "blocks m (cn_dir n) = Some (Str (conf_dir c))" "blocks m (cn_file n) = Some (Str (conf_file c))"
    "blocks m (cn_storage n) = Some (Str (storage_dir c))"
    by (rule conf_at_cases [OF at])
  have lt: "cn_addr n < ?f" "cn_dir n < ?f" "cn_file n < ?f" "cn_storage n < ?f"
    using own by (simp_all add: owned_def conf_foot_def)
  define m' where "m' = m\<lparr>blocks := (blocks m)(?f + 1 \<mapsto> Str (conf_dir c), ?f + 2 \<mapsto> Str (conf_file c),
      ?f + 3 \<mapsto> Str (storage_dir c),
      ?f \<mapsto> Conf (cc\<lparr>cc_schema := None, cc_aggregation := None, cc_conf_dir := Some (?f + 1),
        cc_conf_file := Some (?f + 2), cc_storage_dir := Some (?f + 3)\<rparr>)), fresh := ?f + 4\<rparr>"
  have "new_conf_copy P (cn_addr n) m = Inr (?f, m')"
    using cc lt fit alloc
    by (simp add: new_conf_copy_def conf_copy_mem_def mem_simps paths_fit_def dup_path_fits m'_def
        fun_upd_twist numeral_eq_Suc)
  moreover have "conf_at (blocks m') (copy_node ?f) (c\<lparr>schema := [], aggregation := []\<rparr>)"
    using at cc(1) by (simp add: conf_at_def copy_node_def m'_def)
  moreover have "\<forall>a. a \<notin> set (conf_foot (copy_node ?f)) \<longrightarrow> blocks m' a = blocks m a" "fresh m' = ?f + 4"
    by (simp_all add: conf_foot_copy m'_def)
  ultimately show ?thesis using that by blast
qed

end
