(* ===== verification/Conf_Append.thy ===== *)
theory Conf_Append
  imports Conf_Memory Conf
begin

text \<open>
  \<open>conf_add_pattern_aggregation\<close> of \<open>conf.c\<close> on the blocks of the configuration: it walks to
  the last entry of the list and hangs a new one on it. On the configuration that the
  blocks stand for, this is the operation on lists of the theory \<open>Conf\<close>.
\<close>

section \<open>The operation\<close>

definition empty_agg_cell :: agg_cell where
  "empty_agg_cell = \<lparr>ac_pattern = None, ac_xff = 0, ac_method = AGG_TYPE_UNDEF, ac_next = None\<rparr>"

text \<open>The walk to the last entry, and the new entry behind it or at the head of the list.\<close>

fun last_agg :: "nat \<Rightarrow> addr \<Rightarrow> (mem, addr) prog" where
  "last_agg 0 a = halt Endless"
| "last_agg (Suc n) a = andthen (load_agg a) (\<lambda>c. case ac_next c of None \<Rightarrow> ret a | Some b \<Rightarrow> last_agg n b)"

definition hang_agg :: "addr \<Rightarrow> (mem, addr) prog" where
  "hang_agg conf =
     andthen (load_conf conf) (\<lambda>c.
     case cc_aggregation c of
       Some first \<Rightarrow>
         andthen (\<lambda>m. last_agg (fresh m) first m) (\<lambda>agg.
         andthen (alloc (Agg empty_agg_cell)) (\<lambda>new.
         andthen (load_agg agg) (\<lambda>l.
         andthen (store agg (Agg (l\<lparr>ac_next := Some new\<rparr>))) (\<lambda>_. ret new))))
     | None \<Rightarrow>
         andthen (alloc (Agg empty_agg_cell)) (\<lambda>new.
         andthen (store conf (Conf (c\<lparr>cc_aggregation := Some new\<rparr>))) (\<lambda>_. ret new)))"

definition dup_pattern :: "platform \<Rightarrow> string \<Rightarrow> (mem, addr) prog" where
  "dup_pattern P pattern =
     (if pattern = [] then halt OutOfBounds
      else if usable P (length pattern - 1) < length pattern + 1 then halt HeapOverflow
      else alloc (Str pattern))"

definition add_aggregation_mem ::
    "platform \<Rightarrow> addr \<Rightarrow> string \<Rightarrow> cfloat \<Rightarrow> aggregation_type \<Rightarrow> (mem, unit) prog" where
  "add_aggregation_mem P conf pattern xff method =
     andthen (hang_agg conf) (\<lambda>agg.
     andthen (dup_pattern P pattern) (\<lambda>s.
     store agg (Agg \<lparr>ac_pattern = Some s, ac_xff = xff, ac_method = method, ac_next = None\<rparr>)))"

section \<open>Appending to the list\<close>

lemma agg_at_cases:
  assumes "agg_at h p e = Some nx"
  obtains c where "h (an_addr e) = Some (Agg c)" "p = Some (an_addr e)" "nx = ac_next c"
    "ac_pattern c = Some (an_pattern e)" "h (an_pattern e) = Some (Str (agg_pattern (an_entry e)))"
    "ac_xff c = agg_xff (an_entry e)" "ac_method c = agg_method (an_entry e)"
  using assms that by (auto simp: agg_at_def str_at_def split: option.splits block.splits if_splits)

lemma last_agg_walks:
  "list_at agg_at (blocks m) (Some a) es \<Longrightarrow> length es \<le> n \<Longrightarrow>
   last_agg n a m = Inr (an_addr (last es), m) \<and>
   (\<exists>c. blocks m (an_addr (last es)) = Some (Agg c) \<and> ac_next c = None)"
proof (induction es arbitrary: a n)
  case (Cons e es)
  obtain c where c: "blocks m (an_addr e) = Some (Agg c)" "a = an_addr e" "list_at agg_at (blocks m) (ac_next c) es"
    using Cons.prems(1) by (auto split: option.splits elim!: agg_at_cases)
  obtain k where n: "n = Suc k" using Cons.prems(2) by (cases n) auto
  show ?case
  proof (cases es)
    case Nil
    then show ?thesis using c by (simp add: n mem_simps)
  next
    case (Cons f fs)
    then obtain b where b: "ac_next c = Some b" using c(3) by (auto split: option.splits elim!: agg_at_cases)
    then show ?thesis using Cons.IH [of b k] Cons.prems(2) c Cons by (simp add: n mem_simps)
  qed
qed simp

text \<open>The entry that is hung on the last one is the last one of the longer list.\<close>

lemma agg_list_snoc:
  assumes "list_at agg_at h p es" "es \<noteq> []" "distinct (concat (map agg_foot es))" "an_addr (last es) = l"
    and "an_addr new \<notin> set (concat (map agg_foot es))" "an_pattern new \<notin> set (concat (map agg_foot es))"
    and cell: "h l = Some (Agg c)" and apart: "an_addr new \<noteq> an_pattern new"
    and nc: "ac_pattern nc = Some (an_pattern new)" "ac_xff nc = agg_xff (an_entry new)"
      "ac_method nc = agg_method (an_entry new)" "ac_next nc = None"
    and h': "h' = h(l \<mapsto> Agg (c\<lparr>ac_next := Some (an_addr new)\<rparr>), an_addr new \<mapsto> Agg nc,
      an_pattern new \<mapsto> Str (agg_pattern (an_entry new)))"
  shows "list_at agg_at h' p (es @ [new])"
  using assms(1-6)
proof (induction es arbitrary: p)
  case (Cons e es)
  obtain nx where nx: "agg_at h p e = Some nx" "list_at agg_at h nx es"
    using Cons.prems(1) by (auto split: option.splits)
  show ?case
  proof (cases "es = []")
    case True
    have "agg_at h' p e = Some (Some (an_addr new))"
      using nx(1) Cons.prems(3-6) True cell h' by (elim agg_at_cases) (auto simp: agg_at_def str_at_def agg_foot_def)
    moreover have "agg_at h' (Some (an_addr new)) new = Some None"
      using nc apart by (simp add: agg_at_def str_at_def h')
    ultimately show ?thesis using True by simp
  next
    case False
    have "l \<in> set (concat (map agg_foot es))"
      using False Cons.prems(4) by (auto simp: agg_foot_def intro!: bexI [of _ "last es"])
    then have "l \<notin> set (agg_foot e)" using Cons.prems(3) by auto
    then have "agg_at h' p e = Some nx"
      using nx(1) Cons.prems(5,6) by (intro aggs.at_cong [OF nx(1)]) (auto simp: h')
    then show ?thesis using Cons.IH [of nx] nx(2) False Cons.prems(3-6) by simp
  qed
qed simp

section \<open>Refinement\<close>

definition append_agg :: "nat \<Rightarrow> pattern_aggregation \<Rightarrow> conf_node \<Rightarrow> conf_node" where
  "append_agg f e n = n\<lparr>cn_aggs := cn_aggs n @ [\<lparr>an_addr = f, an_pattern = f + 1, an_entry = e\<rparr>]\<rparr>"

lemma append_agg_foot: "set (conf_foot (append_agg f e n)) = set (conf_foot n) \<union> {f, f + 1}"
  by (auto simp: append_agg_def conf_foot_def agg_foot_def)

lemma append_agg_owned:
  assumes "owned m (conf_foot n)" "fresh m' = fresh m + 2"
  shows "owned m' (conf_foot (append_agg (fresh m) e n))"
proof -
  have "conf_foot (append_agg (fresh m) e n) = conf_foot n @ [fresh m, fresh m + 1]"
    by (simp add: append_agg_def conf_foot_def agg_foot_def)
  then show ?thesis using assms by (auto simp: owned_def)
qed

text \<open>Another list of aggregations in the same configuration.\<close>

lemma conf_at_other_aggs:
  assumes at: "conf_at h n c" and cell: "h (cn_addr n) = Some (Conf cc)"
    and cell': "h' (cn_addr n) = Some (Conf (cc\<lparr>cc_aggregation := p\<rparr>))"
    and same: "\<And>a. a \<in> set (tl (conf_foot (n\<lparr>cn_aggs := []\<rparr>))) \<Longrightarrow> h' a = h a"
    and aggs: "list_at agg_at h' p gs"
  shows "conf_at h' (n\<lparr>cn_aggs := gs\<rparr>) (c\<lparr>aggregation := map an_entry gs\<rparr>)"
proof -
  have "list_at pret_at h q (cn_schema n) \<Longrightarrow> list_at pret_at h' q (cn_schema n)" for q
    by (erule prets.entries_cong) (use same in \<open>auto simp: conf_foot_def\<close>)
  moreover have "h' (cn_dir n) = h (cn_dir n)" "h' (cn_file n) = h (cn_file n)" "h' (cn_storage n) = h (cn_storage n)"
    using same by (simp_all add: conf_foot_def)
  ultimately show ?thesis using at cell cell' aggs by (simp add: conf_at_def)
qed

definition agg_block :: "addr \<Rightarrow> pattern_aggregation \<Rightarrow> agg_cell" where
  "agg_block s e = \<lparr>ac_pattern = Some s, ac_xff = agg_xff e, ac_method = agg_method e, ac_next = None\<rparr>"

text \<open>The memory behind the operation, for the block \<open>b\<close> at \<open>l\<close> that now points to the new entry.\<close>

definition appended :: "addr \<Rightarrow> block \<Rightarrow> pattern_aggregation \<Rightarrow> mem \<Rightarrow> mem" where
  "appended l b e m = m\<lparr>blocks := (blocks m)(l \<mapsto> b, fresh m \<mapsto> Agg (agg_block (fresh m + 1) e),
     fresh m + 1 \<mapsto> Str (agg_pattern e)), fresh := fresh m + 2\<rparr>"

lemma add_first_agg:
  assumes at: "conf_at (blocks m) n c" and none: "cn_aggs n = []" and own: "owned m (conf_foot n)"
    and dup: "dup_pattern P (agg_pattern e) = alloc (Str (agg_pattern e))"
    and cell: "blocks m (cn_addr n) = Some (Conf cc)"
  defines "m' \<equiv> appended (cn_addr n) (Conf (cc\<lparr>cc_aggregation := Some (fresh m)\<rparr>)) e m"
  shows "add_aggregation_mem P (cn_addr n) (agg_pattern e) (agg_xff e) (agg_method e) m = Inr ((), m')"
    and "conf_at (blocks m') (append_agg (fresh m) e n) (c\<lparr>aggregation := aggregation c @ [e]\<rparr>)"
proof -
  have a: "cn_addr n < fresh m" "\<forall>a\<in>set (conf_foot n). a < fresh m" "cn_addr n \<notin> set (tl (conf_foot n))"
    using own by (simp_all add: owned_def conf_foot_def)
  have empty: "cc_aggregation cc = None" "aggregation c = []" using at none cell by (simp_all add: conf_at_def)
  show "add_aggregation_mem P (cn_addr n) (agg_pattern e) (agg_xff e) (agg_method e) m = Inr ((), m')"
    using cell empty a(1) dup
    by (simp add: add_aggregation_mem_def hang_agg_def mem_simps m'_def appended_def agg_block_def fun_upd_twist)
  have "conf_at (blocks m') (n\<lparr>cn_aggs := [\<lparr>an_addr = fresh m, an_pattern = fresh m + 1, an_entry = e\<rparr>]\<rparr>)
      (c\<lparr>aggregation := map an_entry [\<lparr>an_addr = fresh m, an_pattern = fresh m + 1, an_entry = e\<rparr>]\<rparr>)"
  proof (rule conf_at_other_aggs [OF at cell, where p = "Some (fresh m)"])
    fix x
    assume "x \<in> set (tl (conf_foot (n\<lparr>cn_aggs := []\<rparr>)))"
    then have "x \<in> set (tl (conf_foot n))" using none by (simp add: conf_foot_def)
    moreover from this have "x < fresh m" using a(2) by (auto simp: conf_foot_def)
    ultimately show "blocks m' x = blocks m x" using a(3) by (auto simp: m'_def appended_def)
  qed (use a(1) in \<open>simp_all add: m'_def appended_def agg_at_def str_at_def agg_block_def\<close>)
  then show "conf_at (blocks m') (append_agg (fresh m) e n) (c\<lparr>aggregation := aggregation c @ [e]\<rparr>)"
    by (simp add: append_agg_def none empty)
qed

lemma add_next_agg:
  assumes at: "conf_at (blocks m) n c" and some: "cn_aggs n \<noteq> []" and own: "owned m (conf_foot n)"
    and dup: "dup_pattern P (agg_pattern e) = alloc (Str (agg_pattern e))"
    and cell: "blocks m (cn_addr n) = Some (Conf cc)"
    and l: "l = an_addr (last (cn_aggs n))" "blocks m l = Some (Agg cl)"
  defines "m' \<equiv> appended l (Agg (cl\<lparr>ac_next := Some (fresh m)\<rparr>)) e m"
  shows "add_aggregation_mem P (cn_addr n) (agg_pattern e) (agg_xff e) (agg_method e) m = Inr ((), m')"
    and "conf_at (blocks m') (append_agg (fresh m) e n) (c\<lparr>aggregation := aggregation c @ [e]\<rparr>)"
proof -
  let ?G = "concat (map agg_foot (cn_aggs n))" and ?new = "\<lparr>an_addr = fresh m, an_pattern = fresh m + 1, an_entry = e\<rparr>"
  have aggs: "list_at agg_at (blocks m) (cc_aggregation cc) (cn_aggs n)" "map an_entry (cn_aggs n) = aggregation c"
    using at cell by (simp_all add: conf_at_def)
  obtain first where first: "cc_aggregation cc = Some first"
    using aggs(1) some by (cases "cn_aggs n") (auto split: option.splits elim!: agg_at_cases)
  have G: "distinct ?G" "\<forall>x\<in>set ?G. x < fresh m" "owned m ?G" using own by (simp_all add: owned_def conf_foot_def)
  have lG: "l \<in> set ?G" using some l(1) by (auto simp: agg_foot_def intro!: bexI [of _ "last (cn_aggs n)"])
  then have lt: "l < fresh m" "cn_addr n \<noteq> l" using G(2) own by (auto simp: owned_def conf_foot_def)
  have "length (cn_aggs n) \<le> fresh m" using G(3) by (rule aggs.entries_length)
  then have walk: "last_agg (fresh m) first m = Inr (l, m)"
    using last_agg_walks [of m first "cn_aggs n"] aggs(1) first l(1) by simp
  show "add_aggregation_mem P (cn_addr n) (agg_pattern e) (agg_xff e) (agg_method e) m = Inr ((), m')"
    using cell first walk l(2) lt dup
    by (simp add: add_aggregation_mem_def hang_agg_def mem_simps m'_def appended_def agg_block_def fun_upd_twist)
  have out: "fresh m \<notin> set ?G" "fresh m + 1 \<notin> set ?G" using G(2) by (metis less_irrefl, metis add_lessD1 less_irrefl)
  have list: "list_at agg_at (blocks m') (cc_aggregation cc) (cn_aggs n @ [?new])"
    using G(1) out
    by (intro agg_list_snoc [OF aggs(1) some _ l(1) [symmetric] _ _ l(2), where nc = "agg_block (fresh m + 1) e"])
      (simp_all add: m'_def appended_def agg_block_def)
  have "conf_at (blocks m') (n\<lparr>cn_aggs := cn_aggs n @ [?new]\<rparr>) (c\<lparr>aggregation := map an_entry (cn_aggs n @ [?new])\<rparr>)"
  proof (rule conf_at_other_aggs [OF at cell _ _ list])
    fix x
    assume "x \<in> set (tl (conf_foot (n\<lparr>cn_aggs := []\<rparr>)))"
    then have "x < fresh m" "x \<notin> set ?G" using own by (auto simp: conf_foot_def owned_def)
    then show "blocks m' x = blocks m x" using lG by (auto simp: m'_def appended_def)
  qed (use lt cell own in \<open>auto simp: m'_def appended_def owned_def conf_foot_def\<close>)
  then show "conf_at (blocks m') (append_agg (fresh m) e n) (c\<lparr>aggregation := aggregation c @ [e]\<rparr>)"
    using aggs(2) by (simp add: append_agg_def)
qed

text \<open>Both cases: the blocks then stand for the configuration with the entry at its end.\<close>

lemma add_aggregation_refines:
  assumes at: "conf_at (blocks m) n c" and own: "owned m (conf_foot n)"
    and dup: "dup_pattern P (agg_pattern e) = alloc (Str (agg_pattern e))"
  obtains m' where "add_aggregation_mem P (cn_addr n) (agg_pattern e) (agg_xff e) (agg_method e) m = Inr ((), m')"
    "conf_at (blocks m') (append_agg (fresh m) e n) (c\<lparr>aggregation := aggregation c @ [e]\<rparr>)"
    "owned m' (conf_foot (append_agg (fresh m) e n))"
    "\<forall>a. a \<notin> set (conf_foot (append_agg (fresh m) e n)) \<longrightarrow> blocks m' a = blocks m a"
proof -
  obtain cc where cell: "blocks m (cn_addr n) = Some (Conf cc)" by (rule conf_at_cases [OF at])
  have frame: "\<forall>a. a \<notin> set (conf_foot (append_agg (fresh m) e n)) \<longrightarrow> blocks (appended l b e m) a = blocks m a"
    "owned (appended l b e m) (conf_foot (append_agg (fresh m) e n))" if "l \<in> set (conf_foot n)" for l b
    using that own by (auto simp: append_agg_foot appended_def intro!: append_agg_owned)
  show ?thesis
  proof (cases "cn_aggs n = []")
    case True
    have "cn_addr n \<in> set (conf_foot n)" by (simp add: conf_foot_def)
    from that [OF add_first_agg [OF at True own dup cell]] frame [OF this] show ?thesis by blast
  next
    case False
    let ?l = "an_addr (last (cn_aggs n))"
    have aggs: "list_at agg_at (blocks m) (cc_aggregation cc) (cn_aggs n)" using at cell by (simp add: conf_at_def)
    moreover obtain first where "cc_aggregation cc = Some first"
      using aggs False by (cases "cn_aggs n") (auto split: option.splits elim!: agg_at_cases)
    ultimately obtain cl where cl: "blocks m ?l = Some (Agg cl)"
      using last_agg_walks [of m first "cn_aggs n" "length (cn_aggs n)"] by auto
    have "?l \<in> set (conf_foot n)"
      using False by (auto simp: conf_foot_def agg_foot_def intro!: bexI [of _ "last (cn_aggs n)"])
    from that [OF add_next_agg [OF at False own dup cell refl cl]] frame [OF this] show ?thesis by blast
  qed
qed

end
