(* ===== verification/Log.thy ===== *)
theory Log
  imports Common
begin

text \<open>
  The log of \<open>log.c\<close>: which messages are printed, where, and how they look. A message is
  the text that \<open>vsnprintf\<close> would make without a limit; the buffer keeps 255 characters of
  it. The levels are ordered as in the enumeration.
\<close>

section \<open>Levels\<close>

fun level_code :: "log_level \<Rightarrow> nat" where
  "level_code LOG_LEVEL_QUIET = 0"
| "level_code LOG_LEVEL_ERROR = 1"
| "level_code LOG_LEVEL_WARNING = 2"
| "level_code LOG_LEVEL_INFO = 3"
| "level_code LOG_LEVEL_VERBOSE = 4"
| "level_code LOG_LEVEL_DEBUG = 5"
| "level_code LOG_LEVEL_END = 6"

lemma level_code_inj: "level_code a = level_code b \<Longrightarrow> a = b"
  by (cases a; cases b; simp)

instantiation log_level :: linorder
begin

definition less_eq_log_level :: "log_level \<Rightarrow> log_level \<Rightarrow> bool" where
  "a \<le> b \<longleftrightarrow> level_code a \<le> level_code b"

definition less_log_level :: "log_level \<Rightarrow> log_level \<Rightarrow> bool" where
  "a < b \<longleftrightarrow> level_code a < level_code b"

instance
  by standard (auto simp: less_eq_log_level_def less_log_level_def level_code_inj)

end

section \<open>Messages\<close>

datatype stream = Stdout | Stderr

definition LOG_BUF_MAXSIZE :: nat where
  "LOG_BUF_MAXSIZE = 256"

fun level_prefix :: "log_level \<Rightarrow> string" where
  "level_prefix LOG_LEVEL_ERROR = ''ERROR''"
| "level_prefix LOG_LEVEL_WARNING = ''WARNING''"
| "level_prefix LOG_LEVEL_INFO = ''INFO''"
| "level_prefix LOG_LEVEL_VERBOSE = ''VERBOSE''"
| "level_prefix LOG_LEVEL_DEBUG = ''DEBUG''"
| "level_prefix _ = ''[*UNKNOWN LOG LEVEL*]''"

text \<open>What is printed, if anything.\<close>

definition log_msg :: "carbon_conf \<Rightarrow> log_level \<Rightarrow> string \<Rightarrow> (stream \<times> string) option" where
  "log_msg conf level msg =
     (if level \<le> conf_log_level conf
      then Some (if level = LOG_LEVEL_ERROR then Stderr else Stdout,
             level_prefix level @ '': '' @ take (LOG_BUF_MAXSIZE - 1) msg @ [CHR 0x0A])
      else None)"

definition log_error :: "carbon_conf \<Rightarrow> string \<Rightarrow> (stream \<times> string) option" where
  "log_error conf msg = log_msg conf LOG_LEVEL_ERROR msg"

definition log_warning :: "carbon_conf \<Rightarrow> string \<Rightarrow> (stream \<times> string) option" where
  "log_warning conf msg = log_msg conf LOG_LEVEL_WARNING msg"

definition log_info :: "carbon_conf \<Rightarrow> string \<Rightarrow> (stream \<times> string) option" where
  "log_info conf msg = log_msg conf LOG_LEVEL_INFO msg"

definition log_verbose :: "carbon_conf \<Rightarrow> string \<Rightarrow> (stream \<times> string) option" where
  "log_verbose conf msg = log_msg conf LOG_LEVEL_VERBOSE msg"

definition log_debug :: "carbon_conf \<Rightarrow> string \<Rightarrow> (stream \<times> string) option" where
  "log_debug conf msg = log_msg conf LOG_LEVEL_DEBUG msg"

text \<open>The macro \<open>debug\<close>, with the place it is used at and the number of its line as a text.\<close>

definition debug_macro :: "carbon_conf \<Rightarrow> string \<Rightarrow> string \<Rightarrow> string \<Rightarrow> string \<Rightarrow> (stream \<times> string) option" where
  "debug_macro conf src_file func line msg =
     (if tracing conf then log_debug conf (src_file @ '':'' @ func @ '':'' @ line @ '': '' @ msg)
      else log_debug conf msg)"

section \<open>What is printed\<close>

lemma log_msg_monotone:
  assumes "log_msg conf level msg \<noteq> None" "level' \<le> level"
  shows "log_msg conf level' msg' \<noteq> None"
  using assms by (auto simp: log_msg_def split: if_splits)

lemma log_msg_length:
  "log_msg conf level msg = Some (str, out) \<Longrightarrow> length out \<le> length (level_prefix level) + 258"
  by (auto simp: log_msg_def LOG_BUF_MAXSIZE_def split: if_splits)

lemma log_quiet: "conf_log_level conf = LOG_LEVEL_QUIET \<Longrightarrow> log_error conf msg = None"
  by (simp add: log_error_def log_msg_def less_eq_log_level_def)

lemma log_stderr: "log_msg conf level msg = Some (Stderr, out) \<Longrightarrow> level = LOG_LEVEL_ERROR"
  by (auto simp: log_msg_def split: if_splits)

end
