(* ===== verification/Control_Properties.thy ===== *)
theory Control_Properties
  imports Daemon Conf_Append Log
begin

text \<open>
  The properties of the configuration files, of the pause protocol between the threads
  and of the reload.
\<close>

section \<open>Configuration text\<close>

text \<open>A decimal duration with the unit of weeks, days, hours or seconds, or with none, is read
  as its number of seconds modulo \<open>2 ^ 32\<close>; a unit of minutes is not known and the number
  is taken as seconds.\<close>

lemma duration_units:
  assumes "n < 2 ^ 64"
  shows "str_to_seconds (decimal n @ ''w'') = Inr (word_of_nat (n * 604800)) \<and>
    str_to_seconds (decimal n @ ''d'') = Inr (word_of_nat (n * 86400)) \<and>
    str_to_seconds (decimal n @ ''h'') = Inr (word_of_nat (n * 3600)) \<and>
    str_to_seconds (decimal n @ ''s'') = Inr (word_of_nat n) \<and>
    str_to_seconds (decimal n) = Inr (word_of_nat n) \<and>
    str_to_seconds (decimal n @ ''m'') = Inr (word_of_nat n)"
proof -
  have "strtoul10 (decimal n @ ''m'') = word_of_nat n"
    using assms by (simp add: strtoul10_prefix isdigit_def char_code_def)
  then have "str_to_seconds (decimal n @ ''m'') = Inr (word_of_nat n)"
    by (simp add: str_to_seconds_def Let_def ucast_of_nat_u64)
  then show ?thesis
    using seconds_with_unit [of "CHR ''w''" n] seconds_with_unit [of "CHR ''d''" n]
      seconds_with_unit [of "CHR ''h''" n] seconds_with_unit [of "CHR ''s''" n]
      seconds_without_unit [OF assms] assms
    by (simp add: unit_seconds_def)
qed

text \<open>A retention without a colon makes the parser follow a null pointer.\<close>

lemma retention_without_colon:
  assumes "CHR '':'' \<notin> set item" "item \<noteq> []"
  shows "parse_retention_item_str item = Inl NullDeref"
proof -
  have "strtok_r '':'' item = Some (item, [])"
    using assms by (intro strtok_r_next(2) [of _ _ "CHR '':''"]) auto
  moreover obtain x where "str_to_seconds item = Inr x" using assms(2) by (simp add: str_to_seconds_def Let_def)
  ultimately show ?thesis by (simp add: parse_retention_item_str_def bind_sum_def strtok_r_def)
qed

text \<open>A schema file with the given patterns and retentions is read back as the schema of the
  configuration, in the order of the file.\<close>

lemma schema_file_round_trip:
  assumes "\<forall>e\<in>set es. schema_entry_ok e" "es \<noteq> []" "allocator_ok P" "length (conf_dir cf) \<le> 4000"
    and "fopen_read fs (conf_dir cf @ ''/storage-schemas.conf'') = Some (unlines (concat (map schema_lines es)))"
  shows "conf_parse_storage_schema_file P fs cf = Inr (0, cf\<lparr>schema := map schema_entry es\<rparr>)"
  by (rule schema_file_read_back [OF assms])

definition tiny_conf :: carbon_conf where
  "tiny_conf = \<lparr>schema = [], aggregation = [], conf_dir = ''/e'', conf_file = ''/e/c'',
     storage_dir = ''/s'', line_receiver_port = 2003, udp_receiver_port = 2003, run = True,
     tracing = False, conf_log_level = LOG_LEVEL_INFO\<rparr>"

definition tiny_platform :: platform where
  "tiny_platform = \<lparr>host = LittleEndian, usable = glibc_usable, pcre_compiles = (\<lambda>_. True),
     pcre_exec = (\<lambda>_ _. 1)\<rparr>"

definition tiny_entry :: "string \<times> retention list" where
  "tiny_entry = (''.*'', [\<lparr>time_per_point = 6, time_to_store = 9\<rparr>])"

lemma char_byte: "char_of (unat (of_char c :: byte)) = c"
proof -
  have "unat (of_char c :: byte) = unat (word_of_nat (of_char c) :: byte)" by (simp only: of_nat_of_char)
  also have "\<dots> = of_char c" by (simp only: unat_of_nat take_bit_eq_mod) simp
  finally show ?thesis by simp
qed

text \<open>An aggregation file with the given stanzas is read back in its order, behind the entries
  that were there; a stanza without a factor takes the one of the stanza before, and the
  first one 0.\<close>

lemma aggregation_file_round_trip:
  assumes "\<forall>e\<in>set es. agg_stanza_ok P e" "length (conf_dir cf) \<le> 4000"
    and "fopen_read fs (conf_dir cf @ ''/storage-aggregation.conf'') = Some (unlines (concat (map agg_lines es)))"
  shows "conf_parse_storage_aggregation_file P fs cf =
    Inr (0, cf\<lparr>aggregation := aggregation cf @ agg_entries 0 es\<rparr>)"
  by (rule aggregation_file_read_back [OF assms])

definition two_stanzas :: "agg_stanza list" where
  "two_stanzas = [(''a'', Some ''0.5'', ''sum''), (''b'', None, ''average'')]"

text \<open>How much more than asked for glibc provides.\<close>

lemma glibc_usable_short:
  "glibc_usable k < k + 2 \<longleftrightarrow> 24 \<le> k + 1 \<and> (k + 1) mod 16 \<in> {8, 9}"
proof -
  define q r where "q = k div 16" and "r = k mod 16"
  have k: "k = 16 * q + r" and r: "r < 16" by (simp_all add: q_def r_def)
  show ?thesis
  proof (cases "r \<le> 8")
    case True
    have "(k + 23) div 16 = q + 1" using True by (simp add: k)
    then have "glibc_usable k = max 24 (16 * q + 8)" by (simp add: glibc_usable_def)
    moreover have "(k + 1) mod 16 = r + 1" using True by (simp add: k)
    ultimately show ?thesis using True k by (auto simp: max_def)
  next
    case False
    have "(k + 23) div 16 = q + 2" using False r by (simp add: k)
    then have "glibc_usable k = max 24 (16 * q + 24)" by (simp add: glibc_usable_def)
    moreover have "(k + 1) mod 16 = (r + 1) mod 16" by (simp add: k mod_add_left_eq [symmetric])
    moreover have "(r + 1) mod 16 \<notin> {8, 9}" using False r by (cases "r = 15") auto
    ultimately show ?thesis using k r by auto
  qed
qed

text \<open>C38: with glibc's allocator, copying a pattern of an aggregation rule overwrites the heap
  exactly for the lengths from 24 on that are 8 or 9 modulo 16.\<close>

theorem aggregation_pattern_overflow:
  assumes "usable P = glibc_usable" "pattern \<noteq> []"
  shows "conf_add_pattern_aggregation P cf pattern xff m = Inl HeapOverflow \<longleftrightarrow>
    24 \<le> length pattern \<and> length pattern mod 16 \<in> {8, 9}"
proof -
  obtain k where k: "length pattern = Suc k" using assms(2) by (cases pattern) auto
  then show ?thesis
    using assms glibc_usable_short [of k] by (simp add: conf_add_pattern_aggregation_def)
qed

theorem aggregation_pattern_overflow_witness:
  "conf_add_pattern_aggregation tiny_platform tiny_conf (replicate 24 CHR ''x'') 0 AGG_TYPE_SUM = Inl HeapOverflow"
  by (subst aggregation_pattern_overflow) (simp_all add: tiny_platform_def)

section \<open>Pauses\<close>

text \<open>C9: while the main thread exchanges the configuration, it holds all four locks and no worker
  is in its loop: each sleeps in its wait, wakes up there without its lock, or has not begun.\<close>

theorem install_exclusive:
  assumes "reachable s" "main_pc s = Installing"
  shows "run_lock s t = Some ByMain \<and> pc s t \<in> {Boot, Waiting, Waking}"
  using reachable_inv [OF assms(1)] assms(2) by (simp add: threads_inv_def)

theorem install_exclusive_witness:
  "\<exists>s :: system. main_pc s = Installing \<and> (\<forall>t. run_lock s t = Some ByMain \<and> pc s t \<in> {Boot, Waiting, Waking})"
proof -
  obtain s where s: "reachable s" "main_pc s = Installing" using reach_installing by blast
  show ?thesis using s(2) install_exclusive [OF s] by (intro exI [of _ s]) simp
qed

text \<open>C19: no wake-up is lost. When a reload is over, no worker sleeps, no pause is ordered and
  each lock is with the worker that runs.\<close>

theorem no_lost_wakeup:
  assumes "reachable s" "main_pc s = Joining"
  shows "pc s t \<noteq> Waiting \<and> \<not> must_pause s t \<and>
    run_lock s t = (if pc s t \<in> {Loop, Check, Work, Stopped} then Some BySelf else None)"
proof -
  have inv: "threads_inv s" by (rule reachable_inv [OF assms(1)])
  then have "\<not> must_pause s t" using assms(2) by (simp add: threads_inv_def)
  moreover from this have "pc s t \<noteq> Waiting" using inv assms(2) by (auto simp: threads_inv_def)
  ultimately show ?thesis using inv assms(2) by (simp add: threads_inv_def)
qed

theorem no_lost_wakeup_witness: "\<not> must_pause thread_start Writer"
  using no_lost_wakeup [of thread_start Writer] by (simp add: reachable_def steps.here thread_start_def)

text \<open>C20: a reload can always end while \<open>run\<close> is set and no worker has ended: from every place
  of the reload some run leads the main thread back to its wait, whatever the workers did
  before.\<close>

theorem reload_completes:
  assumes "reachable s" "run_flag s" "\<forall>t. pc s t \<noteq> Stopped"
  shows "\<exists>s'. steps s s' \<and> main_pc s' = Joining"
  by (rule reload_returns [OF reachable_inv [OF assms(1)] assms(2,3)])

theorem reload_completes_witness:
  "\<exists>s'. steps (thread_start\<lparr>main_pc := Ordering order, new_run := True\<rparr>) s' \<and> main_pc s' = Joining"
proof (rule reload_completes)
  have "mainstep thread_start (thread_start\<lparr>main_pc := Ordering order, new_run := run_flag thread_start\<rparr>)"
    by (rule mainstep.sighup) (simp add: thread_start_def)
  then show "reachable (thread_start\<lparr>main_pc := Ordering order, new_run := True\<rparr>)"
    using steps_main by (simp add: reachable_def thread_start_def)
qed (simp_all add: thread_start_def)

text \<open>C39: a worker ends with its lock held. A reload that waits for that lock waits for ever.\<close>

theorem reload_blocked:
  assumes "reachable s" "pc s t = Stopped" "main_pc s = Locking (t # ts)" "steps s s'"
  shows "main_pc s' = Locking (t # ts)"
  using stopped_blocks [OF assms(4) reachable_inv [OF assms(1)] assms(2,3)] by blast

theorem reload_blocked_witness:
  "\<exists>s. main_pc s = Locking order \<and> (\<forall>s'. steps s s' \<longrightarrow> main_pc s' = Locking order)"
proof -
  obtain s where "reachable s" "pc s Udp = Stopped" "main_pc s = Locking order" using reach_stopped by blast
  then show ?thesis using reload_blocked [of s Udp "[Tcp, Writer, Monitor]"] by blast
qed

text \<open>C40: an interrupt can be lost. When it comes during a reload, the new configuration has the
  copy of \<open>run\<close> taken before, and the daemon goes on.\<close>

theorem interrupt_lost:
  "\<exists>s. reachable s \<and> interrupted s \<and> run_flag s \<and> main_pc s = Joining"
  by (rule reach_lost_interrupt)

text \<open>C21: after an interrupt outside of a reload the daemon can always end: some run brings all
  four workers to their end, whatever they were doing, and \<open>main\<close> returns from its wait.\<close>

theorem shutdown_completes:
  assumes "reachable s" "main_pc s = Joining" "\<not> run_flag s"
  shows "\<exists>s'. steps s s' \<and> main_pc s' = Ended \<and> (\<forall>t. pc s' t = Stopped)"
proof -
  have inv: "threads_inv s" by (rule reachable_inv [OF assms(1)])
  obtain s' where s': "steps s s'" "main_pc s' = Ended" using main_ends [OF inv assms(2,3)] by blast
  have "threads_inv s'" by (rule steps_inv [OF s'(1) inv])
  then show ?thesis using s' by (intro exI [of _ s']) (simp add: threads_inv_def)
qed

theorem shutdown_completes_witness:
  "\<exists>s'. steps (thread_start\<lparr>run_flag := False, interrupted := True\<rparr>) s' \<and> main_pc s' = Ended \<and> (\<forall>t. pc s' t = Stopped)"
proof (rule shutdown_completes)
  show "reachable (thread_start\<lparr>run_flag := False, interrupted := True\<rparr>)"
    unfolding reachable_def by (rule steps_main [OF mainstep.sigint])
qed (simp_all add: thread_start_def)

section \<open>Configuration of the daemon\<close>

text \<open>When \<open>main\<close> gets to the launch of the threads, the database is well formed and empty, no
  point is counted, the files are untouched, \<open>run\<close> is set, the debug options are on exactly
  when they were asked for, and the configuration is the one the files gave.\<close>

lemma main_start_ready:
  assumes "main_start P i sysconfdir localstatedir opts = Inr (c, d)"
  shows "db_inv d \<and> db_abs d = [] \<and> io d = i\<lparr>monitoring_points := 0\<rparr> \<and> run c \<and>
    (tracing c \<longleftrightarrow> OptDebug \<in> set opts) \<and>
    conf_log_level c = (if OptDebug \<in> set opts then LOG_LEVEL_DEBUG else LOG_LEVEL_INFO) \<and>
    (\<exists>c0. parse_args P opts (default_conf sysconfdir localstatedir) = Inr c0 \<and> conf_parse P i c0 = Inr (0, c))"
proof -
  obtain c0 where c0: "parse_args P opts (default_conf sysconfdir localstatedir) = Inr c0"
    "conf_parse P i c0 = Inr (0, c)" "d = new_daemon i"
    by (rule main_start_cases [OF assms])
  have "io d = i\<lparr>monitoring_points := 0\<rparr>" by (simp add: c0(3) new_daemon_def)
  then show ?thesis
    using parse_args_flags [OF c0(1)] conf_parse_flags [OF c0(2)] new_daemon_inv [of i] c0
    by (auto simp: same_flags_def default_conf_def)
qed

text \<open>C32: started with files that hold the given settings, schemas and aggregations, \<open>main\<close> gets to
  the launch of the threads with exactly this configuration over the defaults, the other two
  files being looked for in the directory that the first one names, and with a well formed
  and empty database.\<close>

theorem start_configuration:
  assumes "conf_files P i (default_conf sysconfdir localstatedir) ss es as" "allocator_ok P"
    and "set opts \<subseteq> {OptDebug, OptOther}"
    and "c0 = (if OptDebug \<in> set opts
      then (default_conf sysconfdir localstatedir)\<lparr>tracing := True, conf_log_level := LOG_LEVEL_DEBUG\<rparr>
      else default_conf sysconfdir localstatedir)"
  shows "main_start P i sysconfdir localstatedir opts =
      Inr ((fold apply_setting ss c0)\<lparr>schema := map schema_entry es, aggregation := agg_entries 0 as\<rparr>, new_daemon i) \<and>
    db_inv (new_daemon i) \<and> db_abs (new_daemon i) = []"
  using main_start_files [OF assms] new_daemon_inv [of i] by (simp add: settings_def)

definition file_of :: "string list \<Rightarrow> byte list" where
  "file_of ls = map (\<lambda>c. of_char c) (unlines ls)"

definition two_settings :: "setting list" where
  "two_settings = [ConfDir ''/f'', LinePort 2004]"

definition conf_fs :: wsp_state where
  "conf_fs = \<lparr>fs_files = [[''e'', ''carbon.conf''] \<mapsto> file_of (map setting_line two_settings),
       [''f'', ''storage-schemas.conf''] \<mapsto> file_of (schema_lines tiny_entry),
       [''f'', ''storage-aggregation.conf''] \<mapsto> file_of (concat (map agg_lines two_stanzas))],
     fs_dirs = (\<lambda>p. p = []), fs_fds = [], fs_faults = [], fs_errno = ENOENT, monitoring_points = 0\<rparr>"

lemma tiny_alloc: "allocator_ok tiny_platform"
  by (simp add: allocator_ok_def tiny_platform_def glibc_usable_ge)

lemma tiny_entry_ok: "schema_entry_ok tiny_entry"
  by (simp add: tiny_entry_def schema_entry_ok_def plain_word_def isspace_def print_retentions_def
      print_retention_def decimal.simps)

lemma two_stanzas_ok: "\<forall>e\<in>set two_stanzas. agg_stanza_ok tiny_platform e"
  by (simp add: two_stanzas_def plain_word_def isspace_def tiny_platform_def glibc_usable_def)

lemma read_file_of: "map (\<lambda>b. char_of (unat b)) (file_of ls) = unlines ls"
  by (simp add: file_of_def comp_def char_byte)

lemma conf_fs_files: "conf_files tiny_platform conf_fs (default_conf ''/e'' ''/s'') two_settings [tiny_entry] two_stanzas"
proof -
  have dir: "conf_dir (settings two_settings (default_conf ''/e'' ''/s'')) = ''/f''"
    by (simp add: settings_def two_settings_def)
  have "\<forall>s\<in>set two_settings. setting_ok s" by (simp add: two_settings_def plain_word_def isspace_def)
  moreover have "fopen_read conf_fs ''/e/carbon.conf'' = Some (unlines (map setting_line two_settings))"
    "fopen_read conf_fs ''/f/storage-schemas.conf'' = Some (unlines (schema_lines tiny_entry))"
    "fopen_read conf_fs ''/f/storage-aggregation.conf'' = Some (unlines (concat (map agg_lines two_stanzas)))"
    by (simp_all add: fopen_read_def components_def conf_fs_def read_file_of)
  ultimately show ?thesis
    unfolding conf_files_def dir Let_def
    using tiny_entry_ok two_stanzas_ok by (simp add: default_conf_def)
qed

theorem start_configuration_witness:
  "\<exists>c. main_start tiny_platform conf_fs ''/e'' ''/s'' [OptDebug] = Inr (c, new_daemon conf_fs) \<and>
     conf_dir c = ''/f'' \<and> line_receiver_port c = 2004 \<and> udp_receiver_port c = 2003 \<and>
     schema c = [schema_entry tiny_entry] \<and> length (aggregation c) = 2"
  using start_configuration [OF conf_fs_files tiny_alloc _ refl, of "[OptDebug]"]
  by (simp add: two_settings_def two_stanzas_def default_conf_def Let_def)

text \<open>C31: a reload with all threads running takes the configuration of the files over the current
  one, keeping what they do not set, and a second reload of the same files changes nothing.\<close>

theorem reload_configuration:
  assumes "conf_files P fs conf ss es as" "allocator_ok P"
    and "c = (fold apply_setting ss conf)\<lparr>schema := map schema_entry es, aggregation := agg_entries 0 as\<rparr>"
  shows "conf_reload P fs UNIV conf = Inr c \<and> conf_reload P fs UNIV c = Inr c"
proof -
  have c: "c = (settings ss conf)\<lparr>schema := map schema_entry es, aggregation := agg_entries 0 as\<rparr>"
    using assms(3) by (simp add: settings_def)
  have "settings ss c = c" by (simp add: c settings_lists settings_twice)
  moreover have "conf_files P fs c ss es as"
    using assms(1) by (rule conf_files_cong) (simp_all add: c settings_lists settings_twice)
  ultimately show ?thesis
    using conf_reload_files [OF assms(1,2)] conf_reload_files [of P fs c ss es as] assms(2) by (simp add: c)
qed

theorem reload_configuration_witness:
  "\<exists>c. conf_reload tiny_platform conf_fs UNIV (default_conf ''/e'' ''/s'') = Inr c \<and>
     conf_reload tiny_platform conf_fs UNIV c = Inr c \<and> line_receiver_port c = 2004"
  using reload_configuration [OF conf_fs_files tiny_alloc refl]
  by (auto simp: two_settings_def)

text \<open>A reload keeps the flags \<open>run\<close> and \<open>tracing\<close>, the log level and the name of the
  configuration file, and one whose files are in error keeps the whole configuration.\<close>

lemma reload_keeps:
  assumes "conf_reload P fs launched conf = Inr c"
  shows "run c = run conf \<and> tracing c = tracing conf \<and> conf_log_level c = conf_log_level conf \<and>
    conf_file c = conf_file conf \<and>
    (\<forall>st c'. conf_parse P fs (conf_copy conf) = Inr (st, c') \<longrightarrow> c = (if st = 0 then c' else conf))"
proof -
  have "same_flags c conf" using conf_reload_cases [OF assms] by (auto simp: same_flags_def)
  then show ?thesis using assms
    by (auto simp: same_flags_def conf_reload_def bind_sum_def split: if_splits)
qed

text \<open>A reload that comes before all four threads are launched follows a null pointer when the
  files parse.\<close>

lemma early_reload:
  assumes "conf_parse P fs (conf_copy conf) = Inr (0, c)" "t \<notin> launched"
  shows "conf_reload P fs launched conf = Inl NullDeref"
  using assms by (auto simp: conf_reload_def bind_sum_def)

text \<open>The name of the configuration file given on the command line is read with the old bytes of
  its block behind it, so that it is the given name only if one of these is NUL there.\<close>

lemma conf_option_unterminated:
  assumes "CHR 0x00 \<notin> set optarg" "length optarg \<le> usable P PATH_MAX"
  shows "parse_args P [OptConf optarg block] conf =
    Inr (conf\<lparr>conf_file := optarg @ cstr (drop (length optarg) block)\<rparr>)"
proof -
  have "cstr (optarg @ x) = optarg @ cstr x" for x
    using assms(1) unfolding cstr_def by (intro takeWhile_append2) auto
  then show ?thesis using assms(2) by simp
qed

section \<open>The configuration in memory\<close>

text \<open>The copy that a reload makes stands for the copied configuration and shares no block with
  the original, so that freeing the original frees all of its blocks, each of them once,
  frees nothing else and leaves the copy as it was.\<close>

theorem reload_memory:
  assumes "conf_at (blocks m) n c" "owned m (conf_foot n)" "allocator_ok P" "paths_fit c"
  shows "\<exists>n' m1 m2. new_conf_copy P (cn_addr n) m = Inr (cn_addr n', m1) \<and>
    conf_at (blocks m1) n c \<and> conf_at (blocks m1) n' (conf_copy c) \<and> set (conf_foot n) \<inter> set (conf_foot n') = {} \<and>
    conf_free (cn_addr n) m1 = Inr ((), m2) \<and> conf_at (blocks m2) n' (conf_copy c) \<and>
    dom (blocks m2) = dom (blocks m) - set (conf_foot n) \<union> set (conf_foot n')"
proof -
  let ?n = "copy_node (fresh m)"
  obtain m1 where m1: "new_conf_copy P (cn_addr n) m = Inr (fresh m, m1)"
    "conf_at (blocks m1) ?n (c\<lparr>schema := [], aggregation := []\<rparr>)"
    "\<forall>a. a \<notin> set (conf_foot ?n) \<longrightarrow> blocks m1 a = blocks m a" "fresh m1 = fresh m + 4"
    using new_conf_copy_spec [OF assms(1-4)] by blast
  have apart: "set (conf_foot n) \<inter> set (conf_foot ?n) = {}"
    using assms(2) by (auto simp: owned_def conf_foot_copy)
  have old: "conf_at (blocks m1) n c"
    using assms(1) by (rule conf_at_cong) (use m1(3) apart in auto)
  have "owned m1 (conf_foot n)" using assms(2) by (auto simp: owned_def m1(4))
  from conf_free_frees [OF old this]
  have free: "conf_free (cn_addr n) m1 = Inr ((), m1\<lparr>blocks := blocks m1 |` (- set (conf_foot n))\<rparr>)" .
  have new: "conf_at (blocks m1 |` (- set (conf_foot n))) ?n (c\<lparr>schema := [], aggregation := []\<rparr>)"
    using m1(2) by (rule conf_at_cong) (use apart in \<open>auto simp: restrict_map_def\<close>)
  have "set (conf_foot ?n) \<subseteq> dom (blocks m1)"
    using conf_at_cases [OF m1(2)] by (auto simp: conf_foot_def copy_node_def)
  then have "dom (blocks m1) = dom (blocks m) \<union> set (conf_foot ?n)"
    using m1(3) by (fastforce simp: dom_def)
  then have "dom (blocks m1 |` (- set (conf_foot n))) = dom (blocks m) - set (conf_foot n) \<union> set (conf_foot ?n)"
    using apart by auto
  moreover define m2 where "m2 = m1\<lparr>blocks := blocks m1 |` (- set (conf_foot n))\<rparr>"
  ultimately have "dom (blocks m2) = dom (blocks m) - set (conf_foot n) \<union> set (conf_foot ?n)"
    and "conf_free (cn_addr n) m1 = Inr ((), m2)" and "conf_at (blocks m2) ?n (conf_copy c)"
    using free new by (simp_all add: conf_copy_def)
  moreover have "new_conf_copy P (cn_addr n) m = Inr (cn_addr ?n, m1)" "conf_at (blocks m1) ?n (conf_copy c)"
    using m1(1,2) by (simp_all add: copy_node_def conf_copy_def)
  ultimately show ?thesis using old apart by blast
qed

definition tiny_rule :: pattern_aggregation where
  "tiny_rule = \<lparr>agg_pattern = ''b'', agg_xff = 0, agg_method = AGG_TYPE_SUM\<rparr>"

text \<open>A configuration with one entry in each list, in ten blocks.\<close>

definition small_conf :: carbon_conf where
  "small_conf = tiny_conf\<lparr>schema := [\<lparr>str_pattern = ''a'', str_retention = ''6:9'',
     retention_list = [\<lparr>time_per_point = 6, time_to_store = 9\<rparr>]\<rparr>], aggregation := [tiny_rule]\<rparr>"

definition small_node :: conf_node where
  "small_node = \<lparr>cn_addr = 0, cn_dir = 1, cn_file = 2, cn_storage = 3,
     cn_schema = [\<lparr>pn_addr = 4, pn_pattern = 5, pn_retention = Some 6,
       pn_rets = [(7, \<lparr>time_per_point = 6, time_to_store = 9\<rparr>)], pn_entry = hd (schema small_conf)\<rparr>],
     cn_aggs = [\<lparr>an_addr = 8, an_pattern = 9, an_entry = tiny_rule\<rparr>]\<rparr>"

definition small_mem :: mem where
  "small_mem = \<lparr>blocks = [
     0 \<mapsto> Conf \<lparr>cc_schema = Some 4, cc_aggregation = Some 8, cc_conf_dir = Some 1, cc_conf_file = Some 2,
       cc_storage_dir = Some 3, cc_line_receiver_port = 2003, cc_udp_receiver_port = 2003, cc_run = True,
       cc_tracing = False, cc_log_level = LOG_LEVEL_INFO\<rparr>,
     1 \<mapsto> Str ''/e'', 2 \<mapsto> Str ''/e/c'', 3 \<mapsto> Str ''/s'',
     4 \<mapsto> Pret \<lparr>pc_pattern = Some 5, pc_retention = Some 6, pc_list = Some 7, pc_next = None\<rparr>,
     5 \<mapsto> Str ''a'', 6 \<mapsto> Str ''6:9'', 7 \<mapsto> Ret \<lparr>time_per_point = 6, time_to_store = 9, rc_next = None\<rparr>,
     8 \<mapsto> Agg \<lparr>ac_pattern = Some 9, ac_xff = 0, ac_method = AGG_TYPE_SUM, ac_next = None\<rparr>,
     9 \<mapsto> Str ''b''], fresh = 10\<rparr>"

lemma small_at: "conf_at (blocks small_mem) small_node small_conf" "owned small_mem (conf_foot small_node)"
  by (simp_all add: conf_at_def small_mem_def small_node_def small_conf_def tiny_conf_def tiny_rule_def pret_at_def
      str_at_def retention.truncate_def agg_at_def owned_def conf_foot_def pret_foot_def ptr_foot_def agg_foot_def)

theorem reload_memory_witness:
  "\<exists>n' m1 m2. new_conf_copy tiny_platform 0 small_mem = Inr (cn_addr n', m1) \<and>
     conf_free 0 m1 = Inr ((), m2) \<and> conf_at (blocks m2) n' (conf_copy small_conf) \<and>
     dom (blocks m2) = set (conf_foot n')"
proof -
  have "dom (blocks small_mem) = set (conf_foot small_node)" "cn_addr small_node = 0"
    by (auto simp: small_mem_def small_node_def conf_foot_def pret_foot_def ptr_foot_def agg_foot_def)
  moreover have "paths_fit small_conf" by (simp add: paths_fit_def small_conf_def tiny_conf_def)
  ultimately show ?thesis
    using reload_memory [OF small_at tiny_alloc] by fastforce
qed

text \<open>Adding an aggregation to the linked list in memory is appending it to the list of the
  configuration: the blocks then stand for the new configuration, two new ones belong to it,
  and no block outside of it has changed.\<close>

theorem add_aggregation_appends:
  assumes "conf_at (blocks m) n c" "owned m (conf_foot n)"
    and "conf_add_pattern_aggregation P c pattern xff method = Inr c'"
  shows "\<exists>n' m'. add_aggregation_mem P (cn_addr n) pattern xff method m = Inr ((), m') \<and>
    conf_at (blocks m') n' c' \<and> cn_addr n' = cn_addr n \<and> owned m' (conf_foot n') \<and>
    set (conf_foot n') = set (conf_foot n) \<union> {fresh m, fresh m + 1} \<and>
    (\<forall>a. a \<notin> set (conf_foot n') \<longrightarrow> blocks m' a = blocks m a)"
proof -
  let ?e = "\<lparr>agg_pattern = pattern, agg_xff = xff, agg_method = method\<rparr>"
  have "dup_pattern P (agg_pattern ?e) = alloc (Str (agg_pattern ?e))" and c': "c' = c\<lparr>aggregation := aggregation c @ [?e]\<rparr>"
    using assms(3) by (auto simp: conf_add_pattern_aggregation_def dup_pattern_def split: if_splits)
  then obtain m' where m': "add_aggregation_mem P (cn_addr n) pattern xff method m = Inr ((), m')"
    "conf_at (blocks m') (append_agg (fresh m) ?e n) c'" "owned m' (conf_foot (append_agg (fresh m) ?e n))"
    "\<forall>a. a \<notin> set (conf_foot (append_agg (fresh m) ?e n)) \<longrightarrow> blocks m' a = blocks m a"
    using add_aggregation_refines [OF assms(1,2), of P ?e] by auto
  have "cn_addr (append_agg (fresh m) ?e n) = cn_addr n" by (simp add: append_agg_def)
  with m' append_agg_foot [of "fresh m" ?e n] show ?thesis by blast
qed

theorem add_aggregation_appends_witness:
  "\<exists>n' m'. add_aggregation_mem tiny_platform 0 ''x'' 0 AGG_TYPE_MAX small_mem = Inr ((), m') \<and>
     conf_at (blocks m') n' (small_conf\<lparr>aggregation :=
       [tiny_rule, \<lparr>agg_pattern = ''x'', agg_xff = 0, agg_method = AGG_TYPE_MAX\<rparr>]\<rparr>)"
proof -
  have "conf_add_pattern_aggregation tiny_platform small_conf ''x'' 0 AGG_TYPE_MAX = Inr (small_conf\<lparr>aggregation :=
       [tiny_rule, \<lparr>agg_pattern = ''x'', agg_xff = 0, agg_method = AGG_TYPE_MAX\<rparr>]\<rparr>)" "cn_addr small_node = 0"
    by (simp_all add: conf_add_pattern_aggregation_def tiny_platform_def glibc_usable_def small_conf_def small_node_def)
  then show ?thesis using add_aggregation_appends [OF small_at] by fastforce
qed

end
