(* ===== verification/Whisper_Faults.thy ===== *)
theory Whisper_Faults
  imports Whisper_Write "HOL-Library.Sublist"
begin

text \<open>
  What the storage may touch when calls fail. No assumption is made on the script of
  faults: every call may fail or move fewer bytes than it was asked to. A small calculus
  of frames says what a computation keeps when it returns; the locale proves its rules
  once, and is interpreted for the work on an open file and for the making of directories.
\<close>

named_theorems frame_intros \<open>computations that stay inside a frame\<close>

section \<open>Frames\<close>

text \<open>From a state with \<open>I\<close>, the computation ends, if it does, in one with \<open>I\<close> that is related by \<open>D\<close>.\<close>

definition kept :: "('s \<Rightarrow> bool) \<Rightarrow> ('s \<Rightarrow> 's \<Rightarrow> bool) \<Rightarrow> ('s, 'a) prog \<Rightarrow> bool" where
  "kept I D f \<longleftrightarrow> (\<forall>s x s'. I s \<longrightarrow> f s = Inr (x, s') \<longrightarrow> I s' \<and> D s s')"

lemma keptI: "(\<And>s x s'. I s \<Longrightarrow> f s = Inr (x, s') \<Longrightarrow> I s' \<and> D s s') \<Longrightarrow> kept I D f"
  by (simp add: kept_def)

lemma keptD: "kept I D f \<Longrightarrow> I s \<Longrightarrow> f s = Inr (x, s') \<Longrightarrow> I s' \<and> D s s'"
  by (simp add: kept_def)

locale frame =
  fixes I :: "'s \<Rightarrow> bool" and D :: "'s \<Rightarrow> 's \<Rightarrow> bool"
  assumes D_refl: "D s s" and D_trans: "D a b \<Longrightarrow> D b c \<Longrightarrow> D a c"
begin

lemma kept_ret: "kept I D (ret x)"
  by (auto simp: kept_def D_refl)

lemma kept_halt: "kept I D (halt e)"
  by (simp add: kept_def)

lemma kept_pure: "kept I D (pure_prog r)"
  by (cases r) (simp_all add: kept_ret kept_halt)

lemma kept_andthen: "kept I D f \<Longrightarrow> (\<And>x. kept I D (g x)) \<Longrightarrow> kept I D (andthen f g)"
  unfolding kept_def andthen_eq_Inr by (metis D_trans)

text \<open>A call that reads the state before it goes on.\<close>

lemma kept_state: "(\<And>s0. kept I D (f s0)) \<Longrightarrow> kept I D (\<lambda>s. f s s)"
  unfolding kept_def by blast

lemmas kept_rules = kept_ret kept_halt kept_pure kept_andthen

end

section \<open>Work on an open file\<close>

text \<open>The descriptor \<open>fd\<close> stands for the file \<open>p\<close>, or for nothing.\<close>

definition fd_at :: "int \<Rightarrow> path \<Rightarrow> 'a fsys_scheme \<Rightarrow> bool" where
  "fd_at fd p s \<longleftrightarrow> (\<forall>h. lookup_fd s fd = Some h \<longrightarrow> of_path h = p)"

text \<open>Only the bytes of \<open>p\<close> and the position of \<open>fd\<close> may differ.\<close>

definition only_file :: "int \<Rightarrow> path \<Rightarrow> 'a fsys_scheme \<Rightarrow> 'a fsys_scheme \<Rightarrow> bool" where
  "only_file fd p s s' \<longleftrightarrow>
     (\<forall>q. q \<noteq> p \<longrightarrow> fs_files s' q = fs_files s q) \<and> (fs_files s p \<noteq> None \<longrightarrow> fs_files s' p \<noteq> None) \<and>
     fs_dirs s' = fs_dirs s \<and> (\<forall>k. k \<noteq> fd \<longrightarrow> lookup_fd s' k = lookup_fd s k)"

interpretation file_frame: frame "fd_at fd p" "only_file fd p" for fd p
  by unfold_locales (auto simp: only_file_def)

lemmas [frame_intros] = file_frame.kept_rules

lemma lookup_set_pos:
  "lookup_fd s fd = Some h \<Longrightarrow>
   lookup_fd (set_pos fd h n s) k = (if k = fd then Some (h\<lparr>of_pos := n\<rparr>) else lookup_fd s k)"
  by (auto simp: lookup_fd_def set_pos_def split: if_splits)

lemma lookup_other [simp]:
  "lookup_fd (s\<lparr>fs_errno := e\<rparr>) k = lookup_fd s k" "lookup_fd (s\<lparr>fs_faults := f\<rparr>) k = lookup_fd s k"
  "lookup_fd (s\<lparr>fs_files := g\<rparr>) k = lookup_fd s k" "lookup_fd (s\<lparr>fs_dirs := d\<rparr>) k = lookup_fd s k"
  by (simp_all add: lookup_fd_def)

lemma kept_fails [frame_intros]: "kept (fd_at fd p) (only_file fd p) (fails e)"
  by (rule keptI) (auto simp: fails_def fd_at_def only_file_def)

lemma kept_next_fault [frame_intros]: "kept (fd_at fd p) (only_file fd p) next_fault"
  by (rule keptI) (auto simp: next_fault_def fd_at_def only_file_def split: list.splits)

text \<open>A call on the descriptor, after its fault was taken from the script.\<close>

lemma kept_on_fd:
  assumes bad: "kept (fd_at fd p) (only_file fd p) b"
    and good: "\<And>s h x s'. lookup_fd s fd = Some h \<Longrightarrow> of_path h = p \<Longrightarrow> g h s = Inr (x, s') \<Longrightarrow>
      fd_at fd p s' \<and> only_file fd p s s'"
  shows "kept (fd_at fd p) (only_file fd p) (\<lambda>s. case lookup_fd s fd of None \<Rightarrow> b s | Some h \<Rightarrow> g h s)"
proof (rule keptI)
  fix s x s'
  assume I: "fd_at fd p s" and run: "(case lookup_fd s fd of None \<Rightarrow> b s | Some h \<Rightarrow> g h s) = Inr (x, s')"
  show "fd_at fd p s' \<and> only_file fd p s s'"
  proof (cases "lookup_fd s fd")
    case None
    then show ?thesis using keptD [OF bad I] run by simp
  next
    case (Some h)
    then show ?thesis using good [OF Some] I run by (simp add: fd_at_def)
  qed
qed

lemma set_pos_only:
  assumes "lookup_fd s fd = Some h" "of_path h = p" "only_file fd p s s'" "lookup_fd s' fd = Some h"
  shows "fd_at fd p (set_pos fd h n s')" "only_file fd p s (set_pos fd h n s')"
  using assms by (auto simp: fd_at_def only_file_def lookup_set_pos) (simp_all add: set_pos_def)

lemma only_file_errno:
  "fd_at fd p (s\<lparr>fs_errno := e\<rparr>) = fd_at fd p s" "only_file fd p s (s\<lparr>fs_errno := e\<rparr>)" "only_file fd p s s"
  by (simp_all add: fd_at_def only_file_def)

lemma only_file_write: "only_file fd p s (s\<lparr>fs_files := (fs_files s)(p \<mapsto> c)\<rparr>)"
  by (simp add: only_file_def)

lemma fd_at_lookup: "lookup_fd s fd = Some h \<Longrightarrow> of_path h = p \<Longrightarrow> fd_at fd p s"
  by (simp add: fd_at_def)

lemmas call_simps = fails_def andthen_def only_file_errno

lemma kept_lseek [frame_intros]: "kept (fd_at fd p) (only_file fd p) (posix_lseek fd off)"
  unfolding posix_lseek_def
proof (rule file_frame.kept_andthen [OF kept_next_fault], goal_cases)
  case (1 f)
  have "kept (fd_at fd p) (only_file fd p) (\<lambda>s. case lookup_fd s fd of None \<Rightarrow> fails EBADF s
      | Some h \<Rightarrow> if off < 0 then fails EINVAL s else Inr (off, set_pos fd h (nat off) s))"
    by (rule kept_on_fd [OF kept_fails]) (auto simp: call_simps fd_at_lookup split: if_splits intro!: set_pos_only)
  then show ?case by (cases f) (simp_all add: kept_fails)
qed

lemma kept_read [frame_intros]: "kept (fd_at fd p) (only_file fd p) (posix_read fd n)"
  unfolding posix_read_def
proof (rule file_frame.kept_andthen [OF kept_next_fault], goal_cases)
  case (1 f)
  have "kept (fd_at fd p) (only_file fd p) (\<lambda>s. case lookup_fd s fd of
         None \<Rightarrow> andthen (fails EBADF) (\<lambda>r. ret (r, [])) s
       | Some h \<Rightarrow>
           if 2 ^ 63 \<le> n then andthen (fails EFAULT) (\<lambda>r. ret (r, [])) s
           else (case fs_files s (of_path h) of
             None \<Rightarrow> andthen (fails EIO) (\<lambda>r. ret (r, [])) s
           | Some c \<Rightarrow> (let bs = read_at (of_pos h) (transfer g n) c
                        in Inr ((int (length bs), bs), set_pos fd h (of_pos h + length bs) s))))" for g
    by (rule kept_on_fd [OF file_frame.kept_andthen [OF kept_fails file_frame.kept_ret]])
      (auto simp: call_simps Let_def fd_at_lookup split: if_splits option.splits intro!: set_pos_only)
  then show ?case by (cases f) (simp_all add: frame_intros)
qed

lemma kept_write [frame_intros]: "kept (fd_at fd p) (only_file fd p) (posix_write fd bs)"
  unfolding posix_write_def
proof (rule file_frame.kept_andthen [OF kept_next_fault], goal_cases)
  case (1 f)
  have "kept (fd_at fd p) (only_file fd p) (\<lambda>s. case lookup_fd s fd of
         None \<Rightarrow> fails EBADF s
       | Some h \<Rightarrow> (case fs_files s (of_path h) of
             None \<Rightarrow> fails EIO s
           | Some c \<Rightarrow> (let bs' = take (transfer g (length bs)) bs
                        in Inr (int (length bs'), set_pos fd h (of_pos h + length bs')
                               (s\<lparr>fs_files := (fs_files s)(of_path h \<mapsto> write_at (of_pos h) bs' c)\<rparr>)))))" for g
    by (rule kept_on_fd [OF kept_fails])
      (auto simp: call_simps Let_def fd_at_lookup only_file_write split: option.splits intro!: set_pos_only)
  then show ?case by (cases f) (simp_all add: frame_intros)
qed

section \<open>The functions that work on an open file\<close>

lemma kept_count:
  fixes f :: "('a wsp_state_scheme, int) prog"
  shows "kept (fd_at fd p) (only_file fd p)
    (\<lambda>s :: 'a wsp_state_scheme. Inr (0 :: int, s\<lparr>monitoring_points := monitoring_points s + 1\<rparr>))"
  by (rule keptI) (auto simp: fd_at_def only_file_def lookup_fd_def)

lemma kept_if [frame_intros]: "kept I D f \<Longrightarrow> kept I D g \<Longrightarrow> kept I D (if b then f else g)"
  by simp

lemma kept_option [frame_intros]:
  "kept I D f \<Longrightarrow> (\<And>x. kept I D (g x)) \<Longrightarrow> kept I D (case y of None \<Rightarrow> f | Some x \<Rightarrow> g x)"
  by (cases y) auto

lemma kept_prod [frame_intros]: "(\<And>a b. kept I D (g a b)) \<Longrightarrow> kept I D (case y of (a, b) \<Rightarrow> g a b)"
  by (cases y) auto

lemma kept_Let [frame_intros]: "kept I D (g x) \<Longrightarrow> kept I D (let y = x in g y)"
  by simp

lemma kept_seek [frame_intros]: "kept (fd_at fd p) (only_file fd p) (whisper_seek fd off)"
  unfolding whisper_seek_def by (intro frame_intros)

lemma kept_read_metadata [frame_intros]: "kept (fd_at fd p) (only_file fd p) (whisper_read_metadata P fd)"
  unfolding whisper_read_metadata_def by (intro frame_intros)

lemma kept_read_info [frame_intros]: "kept (fd_at fd p) (only_file fd p) (whisper_read_archive_info P fd i)"
  unfolding whisper_read_archive_info_def by (intro frame_intros)

lemma kept_read_point [frame_intros]: "kept (fd_at fd p) (only_file fd p) (whisper_read_archive_point P fd)"
  unfolding whisper_read_archive_point_def by (intro frame_intros)

lemma kept_write_point [frame_intros]:
  "kept (fd_at fd p) (only_file fd p) (whisper_write_point P fd a ts pt)"
  unfolding whisper_write_point_def by (intro frame_intros kept_count)

lemma kept_propagate_read [frame_intros]:
  "kept (fd_at fd p) (only_file fd p) (propagate_read P fd a hs he)"
  unfolding propagate_read_def by (intro frame_intros)

lemma kept_propagate [frame_intros]:
  "kept (fd_at fd p) (only_file fd p) (whisper_write_propagate P fd ts md hi lo)"
  unfolding whisper_write_propagate_def by (intro frame_intros)

lemma kept_propagate_loop [frame_intros]:
  "kept (fd_at fd p) (only_file fd p) (propagate_loop P fd md ts hi i n)"
proof (induction n arbitrary: hi i)
  case (Suc n)
  show ?case unfolding propagate_loop.simps by (intro frame_intros Suc)
qed (simp add: frame_intros del: ret_apply)

lemma kept_headers [frame_intros]:
  "kept (fd_at fd p) (only_file fd p) (write_archive_headers P fd rets rs i)"
proof (induction rs arbitrary: i)
  case (Cons r rs)
  show ?case unfolding write_archive_headers.simps by (intro frame_intros Cons)
qed (simp add: frame_intros del: ret_apply)

lemma kept_empty_archives [frame_intros]:
  "kept (fd_at fd p) (only_file fd p) (write_empty_archives fd rs)"
proof (induction rs)
  case (Cons r rs)
  show ?case unfolding write_empty_archives.simps by (intro frame_intros Cons)
qed (simp add: frame_intros del: ret_apply)

section \<open>Making directories\<close>

text \<open>Only directories that satisfy \<open>Q\<close> may be new.\<close>

definition only_dirs :: "(path \<Rightarrow> bool) \<Rightarrow> 'a fsys_scheme \<Rightarrow> 'a fsys_scheme \<Rightarrow> bool" where
  "only_dirs Q s s' \<longleftrightarrow> fs_files s' = fs_files s \<and> lookup_fd s' = lookup_fd s \<and> fs_fds s' = fs_fds s \<and>
     (\<forall>q. fs_dirs s q \<longrightarrow> fs_dirs s' q) \<and> (\<forall>q. fs_dirs s' q \<longrightarrow> fs_dirs s q \<or> Q q)"

interpretation dir_frame: frame "\<lambda>_. True" "only_dirs Q" for Q
  by unfold_locales (auto simp: only_dirs_def)

lemma kept_mkdir:
  assumes "Q (components name)"
  shows "kept (\<lambda>_. True) (only_dirs Q) (posix_mkdir name)"
  unfolding posix_mkdir_def andthen_def
  using assms
  by (intro keptI) (auto simp: only_dirs_def next_fault_def fails_def Let_def lookup_fd_def fun_eq_iff
      split: list.splits fault.splits if_splits)

lemma kept_stat: "kept (\<lambda>_. True) (only_dirs Q) (posix_stat name)"
  unfolding posix_stat_def andthen_def
  by (intro keptI) (auto simp: only_dirs_def next_fault_def fails_def Let_def lookup_fd_def fun_eq_iff
      split: list.splits fault.splits if_splits)

lemma kept_create_dir:
  assumes "Q (components name)"
  shows "kept (\<lambda>_. True) (only_dirs Q) (create_dir name)"
  unfolding create_dir_def
proof (intro dir_frame.kept_andthen kept_stat, goal_cases)
  case (1 r)
  have "kept (\<lambda>_. True) (only_dirs Q) (andthen (posix_mkdir name) (\<lambda>_. ret ()))"
    by (intro dir_frame.kept_rules kept_mkdir assms)
  then show ?case by (cases r) (auto simp: kept_def dir_frame.D_refl split: if_splits)
qed

lemma filename_loop_prefix:
  "filename_loop P tmp sub save = Inr fn \<Longrightarrow> prefix (components tmp) (components fn)"
proof (induction P tmp sub save rule: filename_loop.induct)
  case (1 P tmp sub save)
  let ?t = "tmp @ ''/'' @ sub"
  have next_prefix: "prefix (components tmp) (components ?t)" by (simp only: components_append prefix_append) simp
  show ?case
  proof (cases "strtok_r ''.'' save")
    case None
    then have "fn = tmp @ ''/'' @ sub @ ''.wsp''"
      using 1(2) by (subst (asm) filename_loop.simps) (auto simp: Let_def split: if_splits)
    then show ?thesis by (simp only: components_append prefix_append) simp
  next
    case (Some tr)
    obtain t r where tr: "tr = (t, r)" by (cases tr)
    have "\<not> usable P PATH_MAX < length ?t + 1" "filename_loop P ?t t r = Inr fn"
      using 1(2) Some tr by (subst (asm) filename_loop.simps, simp add: Let_def split: if_splits)+
    from 1(1) [OF refl this(1) Some tr [symmetric] this(2)] next_prefix show ?thesis by (rule prefix_order.trans [rotated])
  qed
qed

lemma kept_create_dirs_loop:
  "filename_loop P tmp sub save = Inr fn \<Longrightarrow>
   kept (\<lambda>_. True) (only_dirs (\<lambda>q. q = d \<or> prefix q (components fn)))
     (create_dirs_loop P tmp sub save :: ('a fsys_scheme, unit) prog)"
proof (induction P tmp sub save rule: filename_loop.induct)
  case (1 P tmp sub save)
  let ?t = "tmp @ ''/'' @ sub"
  show ?case
  proof (cases "strtok_r ''.'' save")
    case None
    then show ?thesis
      by (subst create_dirs_loop.simps) (simp add: Let_def dir_frame.kept_halt dir_frame.kept_ret)
  next
    case (Some tr)
    obtain t r where tr: "tr = (t, r)" by (cases tr)
    have ok: "\<not> usable P PATH_MAX < length ?t + 1" "filename_loop P ?t t r = Inr fn"
      using 1(2) Some tr by (subst (asm) filename_loop.simps, simp add: Let_def split: if_splits)+
    note ih = 1(1) [OF refl ok(1) Some tr [symmetric] ok(2)]
    have "kept (\<lambda>_. True) (only_dirs (\<lambda>q. q = d \<or> prefix q (components fn)))
        (andthen (create_dir ?t) (\<lambda>_. create_dirs_loop P ?t t r) :: ('a fsys_scheme, unit) prog)"
      using filename_loop_prefix [OF ok(2)] by (intro dir_frame.kept_rules kept_create_dir ih disjI2)
    then show ?thesis using ok(1) Some tr by (subst create_dirs_loop.simps) (simp add: Let_def)
  qed
qed

text \<open>The directories of a metric lie on the way to its file.\<close>

lemma kept_create_dirs:
  assumes "whisper_metric_filename P cf name = Inr fn"
  shows "kept (\<lambda>_. True) (only_dirs (\<lambda>q. q = components (storage_dir cf) \<or> prefix q (components fn)))
    (whisper_create_dirs P cf name)"
proof -
  have rest: "kept (\<lambda>_. True) (only_dirs (\<lambda>q. q = components (storage_dir cf) \<or> prefix q (components fn)))
      (if METRIC_NAME_MAX_LEN \<le> length name then halt OutOfBounds
        else case strtok_r ''.'' name of
          None \<Rightarrow> ret ()
        | Some (t, r) \<Rightarrow> create_dirs_loop P (storage_dir cf) t r)"
    using assms unfolding whisper_metric_filename_def
    by (auto simp: dir_frame.kept_halt dir_frame.kept_ret kept_create_dirs_loop simp del: halt_apply ret_apply
        split: option.splits if_splits)
  show ?thesis
    unfolding whisper_create_dirs_def
    by (rule kept_if [OF dir_frame.kept_halt dir_frame.kept_andthen [OF kept_create_dir rest]]) simp
qed

section \<open>Opening\<close>

text \<open>
  What \<open>open\<close> may do: give a new descriptor for the file, which it may have made, or fail.
\<close>

definition opened :: "path \<Rightarrow> int \<Rightarrow> 'a fsys_scheme \<Rightarrow> 'a fsys_scheme \<Rightarrow> bool" where
  "opened p fd s s' \<longleftrightarrow> 0 \<le> fd \<and> fd_at fd p s' \<and> lookup_fd s fd = None \<and> only_file fd p s s'"

lemma alloc_fd_lookup:
  assumes "alloc_fd (fs_fds s) f = (n, t)"
  shows "lookup_fd (s\<lparr>fs_fds := t\<rparr>) k = (if k = int n then Some f else lookup_fd s k)" "lookup_fd s (int n) = None"
proof -
  note sp = alloc_fd_spec [OF assms]
  define j where "j = length t - length (fs_fds s)"
  have t: "t = (fs_fds s @ replicate j None)[n := Some f]" "length t = length (fs_fds s) + j"
    using sp by (simp_all add: j_def)
  show "lookup_fd s (int n) = None" using sp by (auto simp: lookup_fd_def)
  show "lookup_fd (s\<lparr>fs_fds := t\<rparr>) k = (if k = int n then Some f else lookup_fd s k)"
  proof (cases "k < 0 \<or> nat k = n")
    case True
    then show ?thesis using sp by (auto simp: lookup_fd_def)
  next
    case False
    then have "t ! nat k = (fs_fds s @ replicate j None) ! nat k" by (subst t(1)) simp
    then show ?thesis using False t(2) by (auto simp: lookup_fd_def nth_append)
  qed
qed

lemma new_fd_opened:
  assumes "new_fd p s1 = Inr (fd, s')" "only_file (- 1) p s s1" "lookup_fd s1 = lookup_fd s"
  shows "opened p fd s s'"
proof -
  obtain n t where nt: "alloc_fd (fs_fds s1) \<lparr>of_path = p, of_pos = 0\<rparr> = (n, t)" by fastforce
  then have "fd = int n" "s' = s1\<lparr>fs_fds := t\<rparr>" using assms(1) by (auto simp: new_fd_def)
  then show ?thesis
    using alloc_fd_lookup [OF nt] assms(2,3) by (auto simp: opened_def fd_at_def only_file_def)
qed

lemma open_cases:
  assumes "posix_open name creat s = Inr (fd, s')"
  shows "fd = - 1 \<and> fs_files s' = fs_files s \<and> fs_dirs s' = fs_dirs s \<and> lookup_fd s' = lookup_fd s \<or>
    opened (components name) fd s s'"
proof -
  define s0 where "s0 = (case fs_faults s of [] \<Rightarrow> s | f # fs \<Rightarrow> s\<lparr>fs_faults := fs\<rparr>)"
  have s0: "fs_files s0 = fs_files s" "fs_dirs s0 = fs_dirs s" "lookup_fd s0 = lookup_fd s"
    by (simp_all add: s0_def lookup_fd_def fun_eq_iff split: list.splits)
  have frame: "only_file (- 1) (components name) s s0"
    "only_file (- 1) (components name) s (s0\<lparr>fs_files := (fs_files s0)(components name \<mapsto> [])\<rparr>)"
    using s0 by (simp_all add: only_file_def)
  consider e where "fails e s0 = Inr (fd, s')" | "new_fd (components name) s0 = Inr (fd, s')"
    | "new_fd (components name) (s0\<lparr>fs_files := (fs_files s0)(components name \<mapsto> [])\<rparr>) = Inr (fd, s')"
    using assms
    by (auto simp: posix_open_def andthen_def next_fault_def s0_def Let_def split: list.splits fault.splits if_splits)
  then show ?thesis
  proof cases
    case 1
    then show ?thesis using s0 by (auto simp: fails_def fun_eq_iff)
  next
    case 2
    then show ?thesis using new_fd_opened [OF 2 frame(1)] s0(3) by simp
  next
    case 3
    then show ?thesis using new_fd_opened [OF 3 frame(2)] s0(3) by (simp add: fun_eq_iff)
  qed
qed

section \<open>Writing a value\<close>

text \<open>
  Only the file \<open>p\<close>, directories with \<open>Q\<close> and a descriptor that was free may differ.
\<close>

definition confined :: "path \<Rightarrow> (path \<Rightarrow> bool) \<Rightarrow> int \<Rightarrow> 'a fsys_scheme \<Rightarrow> 'a fsys_scheme \<Rightarrow> bool" where
  "confined p Q fd s s' \<longleftrightarrow>
     (\<forall>q. q \<noteq> p \<longrightarrow> fs_files s' q = fs_files s q) \<and> (fs_files s p \<noteq> None \<longrightarrow> fs_files s' p \<noteq> None) \<and>
     (\<forall>q. fs_dirs s q \<longrightarrow> fs_dirs s' q) \<and> (\<forall>q. fs_dirs s' q \<longrightarrow> fs_dirs s q \<or> Q q) \<and>
     (\<forall>k. k \<noteq> fd \<longrightarrow> lookup_fd s' k = lookup_fd s k)"

lemma only_file_confined: "only_file fd p s s' \<Longrightarrow> confined p Q fd s s'"
  by (simp add: only_file_def confined_def)

lemma only_dirs_confined: "only_dirs Q s s' \<Longrightarrow> confined p Q fd s s'"
  by (simp add: only_dirs_def confined_def)

lemma confined_trans: "confined p Q fd a b \<Longrightarrow> confined p Q fd b c \<Longrightarrow> confined p Q fd a c"
  by (auto simp: confined_def)

lemma kept_close [frame_intros]: "kept (fd_at fd p) (only_file fd p) (posix_close fd)"
  unfolding posix_close_def
  by (rule kept_on_fd [OF kept_fails]) (auto simp: fd_at_def only_file_def lookup_fd_def split: if_splits)

lemma kept_update [frame_intros]: "kept (fd_at fd p) (only_file fd p) (whisper_update P fd ts v)"
  unfolding whisper_update_def by (intro frame_intros)

lemma close_closes: "posix_close fd s = Inr (x, s') \<Longrightarrow> lookup_fd s' fd = None"
  by (auto simp: posix_close_def fails_def lookup_fd_def split: option.splits if_splits)

lemma update_closes: "whisper_update P fd ts v s = Inr (EXIT_SUCCESS, s') \<Longrightarrow> lookup_fd s' fd = None"
  by (auto simp: whisper_update_def andthen_eq_Inr Let_def intro: close_closes split: option.splits if_splits)

text \<open>An open that is followed by work on the new descriptor.\<close>

lemma fd_at_minus_one: "fd_at (- 1) p s" "lookup_fd s (- 1) = None"
  by (simp_all add: fd_at_def lookup_fd_def)

lemma open_then_confined:
  assumes run: "andthen (posix_open fn True) (\<lambda>fd. if fd = - 1 then ret (- 1) else T fd) s = Inr (r, s')"
    and T: "\<And>fd. kept (fd_at fd (components fn)) (only_file fd (components fn)) (T fd)"
    and res: "\<And>fd a x b. T fd a = Inr (x, b) \<Longrightarrow> x = - 1 \<or> x = fd"
  shows "\<exists>fd. confined (components fn) Q fd s s' \<and> lookup_fd s fd = None \<and> fd_at fd (components fn) s' \<and> (r = - 1 \<or> r = fd)"
proof -
  obtain fd s1 where op: "posix_open fn True s = Inr (fd, s1)"
    and rest: "(if fd = - 1 then ret (- 1) else T fd) s1 = Inr (r, s')"
    using run by (auto simp: andthen_eq_Inr)
  show ?thesis
  proof (cases "fd = - 1")
    case True
    then have "r = - 1" "s' = s1" using rest by simp_all
    moreover have "confined (components fn) Q (- 1) s s1"
      using open_cases [OF op] True by (auto simp: opened_def confined_def only_file_def)
    ultimately show ?thesis using fd_at_minus_one by blast
  next
    case False
    then have o: "opened (components fn) fd s s1" and t: "T fd s1 = Inr (r, s')"
      using open_cases [OF op] rest by auto
    then have "fd_at fd (components fn) s'" "only_file fd (components fn) s1 s'"
      using keptD [OF T, of fd s1] by (auto simp: opened_def)
    moreover from this have "confined (components fn) Q fd s s'"
      using o by (blast intro: confined_trans only_file_confined dest: opened_def [THEN iffD1])
    ultimately show ?thesis using o res [OF t] by (auto simp: opened_def)
  qed
qed

lemma create_file_confined:
  assumes run: "whisper_create_file P cf name s = Inr (r, s')" and fn: "whisper_metric_filename P cf name = Inr fn"
    and Q: "Q = (\<lambda>q. q = components (storage_dir cf) \<or> prefix q (components fn))"
  shows "\<exists>fd. confined (components fn) Q fd s s' \<and> lookup_fd s fd = None \<and> fd_at fd (components fn) s' \<and> (r = - 1 \<or> r = fd)"
proof -
  obtain s1 where dirs: "whisper_create_dirs P cf name s = Inr ((), s1)"
    using run by (auto simp: whisper_create_file_def fn Let_def andthen_eq_Inr)
  have Q1: "only_dirs Q s s1" using keptD [OF kept_create_dirs [OF fn] _ dirs] by (simp add: Q)
  have same: "lookup_fd s1 = lookup_fd s" using Q1 by (simp add: only_dirs_def)
  show ?thesis
  proof (cases "whisper_find_aggregation P name (aggregation cf)")
    case None
    then have "r = - 1" "s' = s1"
      using run dirs by (auto simp: whisper_create_file_def fn Let_def andthen_def split: prod.splits)
    then show ?thesis using only_dirs_confined [OF Q1] fd_at_minus_one by blast
  next
    case (Some agg)
    obtain n m where nm: "count_archs (whisper_find_retention P name (schema cf)) 0 0 = (n, m)" by fastforce
    let ?rets = "whisper_find_retention P name (schema cf)"
    let ?T = "\<lambda>fd. andthen (posix_write fd (metadata_mem (host P) (hton_whisper_metadata (host P)
                      \<lparr>md_aggregation_type = agg_code (agg_method agg), md_max_retention = m,
                       md_x_files_factor = agg_xff agg, md_archive_count = n\<rparr>))) (\<lambda>k.
             if k < 16 then ret (- 1)
             else andthen (write_archive_headers P fd ?rets ?rets 0) (\<lambda>ok.
             if \<not> ok then ret (- 1)
             else andthen (write_empty_archives fd ?rets) (\<lambda>ok.
             if \<not> ok then ret (- 1) else ret fd)))"
    have "andthen (posix_open fn True) (\<lambda>fd. if fd = - 1 then ret (- 1) else ?T fd) s1 = Inr (r, s')"
      using run dirs by (simp add: whisper_create_file_def fn Let_def andthen_def [of "whisper_create_dirs _ _ _"] nm Some)
    then have "\<exists>fd. confined (components fn) Q fd s1 s' \<and> lookup_fd s1 fd = None \<and>
        fd_at fd (components fn) s' \<and> (r = - 1 \<or> r = fd)"
    proof (rule open_then_confined)
      show "kept (fd_at fd (components fn)) (only_file fd (components fn)) (?T fd)" for fd by (intro frame_intros)
      show "x = - 1 \<or> x = fd" if "?T fd a = Inr (x, b)" for fd x and a b :: "'b fsys_scheme"
        using that by (auto simp: andthen_eq_Inr split: if_splits)
    qed
    then show ?thesis using confined_trans [OF only_dirs_confined [OF Q1]] same by metis
  qed
qed

lemma whisper_open_confined:
  assumes run: "whisper_open P cf name fn s = Inr (r, s')" and fn: "whisper_metric_filename P cf name = Inr fn"
    and Q: "Q = (\<lambda>q. q = components (storage_dir cf) \<or> prefix q (components fn))"
  shows "\<exists>fd. confined (components fn) Q fd s s' \<and> lookup_fd s fd = None \<and> fd_at fd (components fn) s' \<and>
    (case r of None \<Rightarrow> fd = - 1 | Some x \<Rightarrow> x = - 1 \<or> x = fd)"
proof -
  obtain fd s1 where op: "posix_open fn False s = Inr (fd, s1)"
    and rest: "(if fd < 0 then (if fs_errno s1 = ENOENT
             then andthen (whisper_create_file P cf name) (\<lambda>fd. ret (Some fd)) s1
             else Inr (None, s1)) else Inr (Some fd, s1)) = Inr (r, s')"
    using run by (auto simp: whisper_open_def andthen_eq_Inr)
  from open_cases [OF op] show ?thesis
  proof (elim disjE conjE)
    assume bad: "fd = - 1" "fs_files s1 = fs_files s" "fs_dirs s1 = fs_dirs s" "lookup_fd s1 = lookup_fd s"
    then have c: "confined (components fn) Q k s s1" for k by (simp add: confined_def)
    show ?thesis
    proof (cases "fs_errno s1 = ENOENT")
      case True
      then obtain x where x: "whisper_create_file P cf name s1 = Inr (x, s')" "r = Some x"
        using rest bad(1) by (auto simp: andthen_eq_Inr)
      from create_file_confined [OF x(1) fn Q] show ?thesis
        using confined_trans [OF c] bad(4) x(2) by auto
    next
      case False
      then show ?thesis using rest bad(1) c fd_at_minus_one by auto
    qed
  next
    assume o: "opened (components fn) fd s s1"
    then show ?thesis using rest only_file_confined by (auto simp: opened_def)
  qed
qed

text \<open>
  A call that returns has changed at most the file of the metric, the directories on the
  way to it, and one descriptor that was free before; when it succeeded, none.
\<close>

lemma write_value_frame:
  assumes run: "whisper_write_value P cf name ts v s = Inr (r, s')" and fn: "whisper_metric_filename P cf name = Inr fn"
    and Q: "Q = (\<lambda>q. q = components (storage_dir cf) \<or> prefix q (components fn))"
  shows "\<exists>fd. confined (components fn) Q fd s s' \<and> lookup_fd s fd = None \<and>
    (r = EXIT_SUCCESS \<longrightarrow> lookup_fd s' = lookup_fd s)"
proof -
  obtain x s1 where op: "whisper_open P cf name fn s = Inr (x, s1)"
    and rest: "(case x of None \<Rightarrow> ret EXIT_FAILURE | Some fd \<Rightarrow> whisper_update P fd ts v) s1 = Inr (r, s')"
    using run by (auto simp: whisper_write_value_def fn andthen_eq_Inr)
  obtain fd where fd: "confined (components fn) Q fd s s1" "lookup_fd s fd = None" "fd_at fd (components fn) s1"
    "case x of None \<Rightarrow> fd = - 1 | Some y \<Rightarrow> y = - 1 \<or> y = fd"
    using whisper_open_confined [OF op fn Q] by blast
  show ?thesis
  proof (cases x)
    case None
    then show ?thesis using rest fd by auto
  next
    case (Some y)
    then have up: "whisper_update P y ts v s1 = Inr (r, s')" using rest by simp
    have y: "fd_at y (components fn) s1" "y = - 1 \<or> y = fd" using fd(3,4) fd_at_minus_one Some by auto
    note k = keptD [OF kept_update y(1) up]
    have "only_file fd (components fn) s1 s'"
      using k y(2) unfolding only_file_def by (metis fd_at_minus_one(2))
    then have c: "confined (components fn) Q fd s s'" using fd(1) only_file_confined confined_trans by blast
    moreover have "lookup_fd s' = lookup_fd s" if "r = EXIT_SUCCESS"
    proof (cases "y = fd")
      case True
      then have "lookup_fd s' fd = lookup_fd s fd" using update_closes [of P y ts v s1 s'] up that fd(2) by simp
      then show ?thesis using c unfolding confined_def by (intro ext) metis
    next
      case False
      then have "y = - 1" using y(2) by simp
      then have "whisper_read_metadata P y s1 \<noteq> Inr (Some md, s2)" for md s2
        by (auto simp: whisper_read_metadata_def whisper_seek_def posix_lseek_def andthen_def next_fault_def fails_def
            lookup_fd_def split: list.splits fault.splits)
      then show ?thesis using up that by (auto simp: whisper_update_def andthen_eq_Inr split: option.splits)
    qed
    ultimately show ?thesis using fd(2) by blast
  qed
qed

end
