(* ===== verification/Workers.thy ===== *)
theory Workers
  imports Receivers Monitoring Writer Whisper_Faults
begin

text \<open>
  The loops of the four workers, and the daemon as a sequence of their turns in any
  order. A turn runs without interference here; the interleaving inside a turn is the
  subject of \<open>Writer_Race\<close>. The configuration may differ from one turn of the writer to the
  next, because a reload exchanges it in between.
\<close>

section \<open>The loops\<close>

text \<open>
  The loop \<open>for (; conf->run; )\<close>: each iteration reads the flag and gets what its system
  calls return. When the list is used up the worker is still running.
\<close>

fun worker_loop :: "('i \<Rightarrow> ('s, unit) prog) \<Rightarrow> (bool \<times> 'i) list \<Rightarrow> ('s, unit) prog" where
  "worker_loop body [] = ret ()"
| "worker_loop body ((running, i) # xs) =
     (if running then andthen (body i) (\<lambda>_. worker_loop body xs) else ret ())"

definition receiver_udp_worker :: "platform \<Rightarrow> (bool \<times> received) list \<Rightarrow> (daemon, unit) prog" where
  "receiver_udp_worker P = worker_loop (receiver_udp_turn P)"

definition receiver_tcp_worker :: "platform \<Rightarrow> (bool \<times> accepted_conn) list \<Rightarrow> (daemon, unit) prog" where
  "receiver_tcp_worker P = worker_loop (receiver_tcp_turn P)"

definition writer_thread :: "platform \<Rightarrow> (bool \<times> carbon_conf) list \<Rightarrow> (daemon, unit) prog" where
  "writer_thread P = worker_loop (\<lambda>conf. andthen (writer_turn P conf) (\<lambda>_. ret ()))"

definition monitoring_worker :: "(bool \<times> u32) list \<Rightarrow> (daemon, unit) prog" where
  "monitoring_worker = worker_loop update_monitoring_metrics"

section \<open>Schedules\<close>

datatype turn = Udp_turn received | Tcp_turn accepted_conn | Writer_turn carbon_conf | Monitor_turn u32

fun run_turn :: "platform \<Rightarrow> turn \<Rightarrow> (daemon, unit) prog" where
  "run_turn P (Udp_turn r) = receiver_udp_turn P r"
| "run_turn P (Tcp_turn a) = receiver_tcp_turn P a"
| "run_turn P (Writer_turn conf) = andthen (writer_turn P conf) (\<lambda>_. ret ())"
| "run_turn P (Monitor_turn now) = update_monitoring_metrics now"

fun run_turns :: "platform \<Rightarrow> turn list \<Rightarrow> (daemon, unit) prog" where
  "run_turns P [] = ret ()"
| "run_turns P (t # ts) = andthen (run_turn P t) (\<lambda>_. run_turns P ts)"

text \<open>A worker that runs alone is a schedule with its turns only.\<close>

lemma worker_loop_turns:
  assumes "\<And>i. body i = run_turn P (f i)"
  shows "worker_loop body xs = run_turns P (map f (map snd (takeWhile fst xs)))"
proof (induction xs)
  case (Cons x xs)
  then show ?case by (cases x) (simp add: assms ret_def)
qed simp

lemma workers_are_schedules:
  "receiver_udp_worker P us = run_turns P (map Udp_turn (map snd (takeWhile fst us)))"
  "receiver_tcp_worker P as = run_turns P (map Tcp_turn (map snd (takeWhile fst as)))"
  "writer_thread P cs = run_turns P (map Writer_turn (map snd (takeWhile fst cs)))"
  "monitoring_worker ns = run_turns P (map Monitor_turn (map snd (takeWhile fst ns)))"
  unfolding receiver_udp_worker_def receiver_tcp_worker_def writer_thread_def monitoring_worker_def
  by (rule worker_loop_turns; simp)+

section \<open>What arrives and what is handed on\<close>

definition message_samples :: "platform \<Rightarrow> string \<Rightarrow> sample list" where
  "message_samples P mesg = map (sample_of P) (tokens [CHR 0x0A] (cstr mesg))"

text \<open>The samples that a turn puts into the database in the state \<open>s\<close>.\<close>

fun arrivals :: "platform \<Rightarrow> turn \<Rightarrow> daemon \<Rightarrow> sample list" where
  "arrivals P (Udp_turn (Received mesg)) s = message_samples P mesg"
| "arrivals P (Tcp_turn (Accepted (Received mesg))) s = message_samples P mesg"
| "arrivals P (Monitor_turn now) s = [(''carbond.points'', now, double_of_u32 (monitoring_points (io s)))]"
| "arrivals P _ s = []"

fun all_arrivals :: "platform \<Rightarrow> turn list \<Rightarrow> daemon \<Rightarrow> sample list" where
  "all_arrivals P [] s = []"
| "all_arrivals P (t # ts) s =
     arrivals P t s @ (case run_turn P t s of Inl e \<Rightarrow> [] | Inr (_, s') \<Rightarrow> all_arrivals P ts s')"

text \<open>What the turns do to the files: writes of values, and resets of the counter.\<close>

datatype io_event = Write carbon_conf string u32 cdouble | Report

fun replay :: "platform \<Rightarrow> io_event list \<Rightarrow> (wsp_state, unit) prog" where
  "replay P [] = ret ()"
| "replay P (Write conf n t v # es) = andthen (whisper_write_value P conf n t v) (\<lambda>_. replay P es)"
| "replay P (Report # es) = (\<lambda>s. replay P es (s\<lparr>monitoring_points := 0\<rparr>))"

fun written :: "string \<Rightarrow> io_event list \<Rightarrow> (u32 \<times> cdouble) list" where
  "written n [] = []"
| "written n (Write conf m t v # es) = (if m = n then (t, v) # written n es else written n es)"
| "written n (Report # es) = written n es"

definition of_metric :: "string \<Rightarrow> sample list \<Rightarrow> (u32 \<times> cdouble) list" where
  "of_metric n xs = map snd (filter (\<lambda>x. fst x = n) xs)"

text \<open>Messages that the protocol accepts and that fit the buffer of the receiver.\<close>

definition message_ok :: "platform \<Rightarrow> string \<Rightarrow> bool" where
  "message_ok P mesg \<longleftrightarrow> length mesg < 65535 \<and> (\<forall>l\<in>set (tokens [CHR 0x0A] (cstr mesg)). line_ok P l)"

fun turn_ok :: "platform \<Rightarrow> turn \<Rightarrow> bool" where
  "turn_ok P (Udp_turn (Received mesg)) = message_ok P mesg"
| "turn_ok P (Tcp_turn (Accepted (Received mesg))) = message_ok P mesg"
| "turn_ok P _ = True"

text \<open>How many samples a turn can add.\<close>

fun turn_size :: "turn \<Rightarrow> nat" where
  "turn_size (Udp_turn (Received mesg)) = length (tokens [CHR 0x0A] (cstr mesg))"
| "turn_size (Tcp_turn (Accepted (Received mesg))) = length (tokens [CHR 0x0A] (cstr mesg))"
| "turn_size (Monitor_turn now) = 1"
| "turn_size _ = 0"

section \<open>One turn\<close>

lemma replay_append: "replay P (es @ fs) = andthen (replay P es) (\<lambda>_. replay P fs)"
proof (induction P es rule: replay.induct)
  case (2 P conf n t v es)
  then show ?case by (simp add: andthen_assoc)
qed (simp_all add: andthen_def fun_eq_iff)

lemma written_append: "written n (es @ fs) = written n es @ written n fs"
  by (induction n es rule: written.induct) simp_all

lemma replay_writes: "replay P (map (\<lambda>(t, v). Write conf n t v) ps) = write_all P conf n ps"
  by (induction ps) auto

lemma written_writes:
  "written k (map (\<lambda>(t, v). Write conf n t v) ps) = (if k = n then ps else [])"
  by (induction ps) auto

lemma points_of_drain: "points_of k (drain n db) = (if k = n then [] else points_of k db)"
  by (induction db) (auto simp: drain_def points_of_def)

lemma pending_drain: "pending (drain n db) \<le> pending db"
  by (induction db) (auto simp: drain_def pending_def)

lemma pending_counts: "pending db < 2 ^ 32 \<Longrightarrow> counts_fit db"
  by (induction db) (auto simp: pending_def counts_fit_def)

lemma of_metric_append: "of_metric n (xs @ ys) = of_metric n xs @ of_metric n ys"
  by (simp add: of_metric_def)

text \<open>
  The database behind a turn: of each metric, what was there and what arrived is what was
  written and what is left, in this order.
\<close>

definition hands_on :: "adb \<Rightarrow> sample list \<Rightarrow> io_event list \<Rightarrow> adb \<Rightarrow> bool" where
  "hands_on db xs es db' \<longleftrightarrow>
     (\<forall>n. written n es @ points_of n db' = points_of n db @ of_metric n xs)"

text \<open>When the process stops, what was handed on is a part of that from its beginning.\<close>

definition begins_with :: "adb \<Rightarrow> sample list \<Rightarrow> io_event list \<Rightarrow> bool" where
  "begins_with db xs es \<longleftrightarrow> (\<forall>n. prefix (written n es) (points_of n db @ of_metric n xs))"

lemma hands_on_begins: "hands_on db xs es db' \<Longrightarrow> begins_with db xs es"
  unfolding hands_on_def begins_with_def by (metis prefixI)

lemma hands_on_then_begins:
  assumes "hands_on a xs es b" "begins_with b ys fs"
  shows "begins_with a (xs @ ys) (es @ fs)"
proof -
  have "prefix (written n es @ written n fs) ((written n es @ points_of n b) @ of_metric n ys)" for n
    using assms(2) by (simp add: begins_with_def)
  then show ?thesis
    using assms(1) unfolding begins_with_def hands_on_def written_append of_metric_append by (metis append.assoc)
qed

lemma hands_on_record: "hands_on db xs [] (record_all xs db)"
  by (simp add: hands_on_def points_of_record_all of_metric_def)

lemma hands_on_drain:
  "hands_on db [] (map (\<lambda>(t, v). Write conf n t v) (points_of n db)) (drain n db)"
  by (simp add: hands_on_def written_writes points_of_drain of_metric_def)

lemma hands_on_trans:
  "hands_on a xs es b \<Longrightarrow> hands_on b ys fs c \<Longrightarrow> hands_on a (xs @ ys) (es @ fs) c"
  unfolding hands_on_def written_append of_metric_append by (metis append.assoc)

lemma message_turn:
  assumes "db_inv s" "message_ok P mesg"
  shows "\<exists>s'. process_mesg P 65535 mesg s = Inr ((), s') \<and> db_inv s' \<and> io s' = io s \<and>
    hands_on (db_abs s) (message_samples P mesg) [] (db_abs s') \<and>
    pending (db_abs s') = pending (db_abs s) + length (tokens [CHR 0x0A] (cstr mesg))"
proof -
  obtain s' where s': "process_mesg P 65535 mesg s = Inr ((), s')" "db_inv s'" "io s' = io s"
    "db_abs s' = record_all (message_samples P mesg) (db_abs s)"
    using process_mesg_refines [OF assms(1), of mesg 65535 P] assms(2)
    by (auto simp: message_ok_def message_samples_def)
  then show ?thesis using hands_on_record pending_record_all by (auto simp: message_samples_def)
qed

lemma monitor_turn:
  assumes "db_inv s"
  shows "\<exists>s'. update_monitoring_metrics now s = Inr ((), s') \<and> db_inv s' \<and>
    replay P [Report] (io s) = Inr ((), io s') \<and>
    hands_on (db_abs s) (arrivals P (Monitor_turn now) s) [Report] (db_abs s') \<and>
    pending (db_abs s') = pending (db_abs s) + 1"
proof -
  obtain s' where "update_monitoring_metrics now s = Inr ((), s')" "db_inv s'"
    "db_abs s' = record_point ''carbond.points'' (now, double_of_u32 (monitoring_points (io s))) (db_abs s)"
    "io s' = (io s)\<lparr>monitoring_points := 0\<rparr>"
    using monitoring_refines [OF assms, of now] by blast
  then show ?thesis by (auto simp: hands_on_def of_metric_def)
qed

definition turn_done :: "platform \<Rightarrow> turn \<Rightarrow> daemon \<Rightarrow> bool" where
  "turn_done P t s \<longleftrightarrow>
     (\<exists>es e. run_turn P t s = Inl e \<and> replay P es (io s) = Inl e \<and> begins_with (db_abs s) (arrivals P t s) es) \<or>
     (\<exists>es s'. run_turn P t s = Inr ((), s') \<and> db_inv s' \<and> replay P es (io s) = Inr ((), io s') \<and>
        hands_on (db_abs s) (arrivals P t s) es (db_abs s') \<and>
        pending (db_abs s') \<le> pending (db_abs s) + turn_size t)"

lemma writer_turn_done:
  assumes "db_inv s" "counts_fit (db_abs s)"
  shows "turn_done P (Writer_turn conf) s"
proof -
  have idle: "hands_on (db_abs s) [] [] (db_abs s)" by (simp add: hands_on_def of_metric_def)
  from writer_turn_refines [OF assms, of P conf] show ?thesis
  proof (elim disjE conjE bexE)
    assume "writer_turn P conf s = Inr (False, s)"
    then show ?thesis using assms(1) idle
      by (auto simp: turn_done_def andthen_def intro!: exI [of _ "[]"])
  next
    fix n
    let ?ps = "points_of n (db_abs s)"
    let ?es = "map (\<lambda>(t, v). Write conf n t v) ?ps"
    assume c: "case write_all P conf n ?ps (io s) of Inl e \<Rightarrow> writer_turn P conf s = Inl e
        | Inr (_, i) \<Rightarrow> \<exists>s'. writer_turn P conf s = Inr (True, s') \<and> db_inv s' \<and>
            db_abs s' = drain n (db_abs s) \<and> io s' = i"
    show ?thesis
    proof (cases "write_all P conf n ?ps (io s)")
      case (Inl e)
      then have "run_turn P (Writer_turn conf) s = Inl e" "replay P ?es (io s) = Inl e"
        using c by (simp_all add: andthen_def replay_writes)
      moreover have "begins_with (db_abs s) (arrivals P (Writer_turn conf) s) ?es"
        using hands_on_begins [OF hands_on_drain] by simp
      ultimately show ?thesis unfolding turn_done_def by blast
    next
      case (Inr r)
      then obtain s' where s': "writer_turn P conf s = Inr (True, s')" "db_inv s'"
        "db_abs s' = drain n (db_abs s)" "replay P ?es (io s) = Inr ((), io s')"
        using c by (cases r) (auto simp: replay_writes)
      have "run_turn P (Writer_turn conf) s = Inr ((), s')" using s'(1) by (simp add: andthen_def)
      moreover have "hands_on (db_abs s) (arrivals P (Writer_turn conf) s) ?es (db_abs s')"
        unfolding s'(3) using hands_on_drain by simp
      moreover have "pending (db_abs s') \<le> pending (db_abs s) + turn_size (Writer_turn conf)"
        using pending_drain by (simp add: s'(3))
      ultimately show ?thesis unfolding turn_done_def using s'(2,4) by blast
    qed
  qed
qed

lemma turn_always_done:
  assumes inv: "db_inv s" and ok: "turn_ok P t" and fit: "counts_fit (db_abs s)"
  shows "turn_done P t s"
proof -
  have idle: "turn_done P t s" if "run_turn P t s = Inr ((), s)" "arrivals P t s = []"
    unfolding turn_done_def using that inv
    by (intro disjI2 exI [of _ "[]"] exI [of _ s]) (simp add: hands_on_def of_metric_def)
  have message: "turn_done P t s"
    if "run_turn P t s = process_mesg P 65535 mesg s" "arrivals P t s = message_samples P mesg"
      "turn_size t = length (tokens [CHR 0x0A] (cstr mesg))" "message_ok P mesg" for mesg
    using message_turn [OF inv that(4)] that(1-3)
    unfolding turn_done_def by (intro disjI2 exI [of _ "[]"]) auto
  show ?thesis
  proof (cases t)
    case (Udp_turn r)
    then show ?thesis
    proof (cases r)
      case (Received mesg)
      then show ?thesis using Udp_turn ok message [of mesg] by (simp add: receiver_udp_turn_def)
    qed (use idle in \<open>simp add: receiver_udp_turn_def\<close>)
  next
    case (Tcp_turn a)
    show ?thesis
    proof (cases "\<exists>mesg. a = Accepted (Received mesg)")
      case True
      then show ?thesis using Tcp_turn ok message by (auto simp: receiver_tcp_turn_def)
    next
      case False
      then show ?thesis using Tcp_turn idle
        by (cases a; cases "case a of Accepted r \<Rightarrow> r | _ \<Rightarrow> RecvError EINTR") (auto simp: receiver_tcp_turn_def)
    qed
  next
    case (Writer_turn conf)
    then show ?thesis using writer_turn_done [OF inv fit] by simp
  next
    case (Monitor_turn now)
    then show ?thesis using monitor_turn [OF inv, of now P] unfolding turn_done_def
      by (intro disjI2 exI [of _ "[Report]"]) auto
  qed
qed

section \<open>Any schedule\<close>

lemma schedule_hands_on:
  "db_inv s \<Longrightarrow> \<forall>t\<in>set ts. turn_ok P t \<Longrightarrow> pending (db_abs s) + (\<Sum>t\<leftarrow>ts. turn_size t) < 2 ^ 32 \<Longrightarrow>
   (\<exists>es e. run_turns P ts s = Inl e \<and> replay P es (io s) = Inl e \<and> begins_with (db_abs s) (all_arrivals P ts s) es) \<or>
   (\<exists>es s'. run_turns P ts s = Inr ((), s') \<and> db_inv s' \<and> replay P es (io s) = Inr ((), io s') \<and>
      hands_on (db_abs s) (all_arrivals P ts s) es (db_abs s'))"
proof (induction ts arbitrary: s)
  case Nil
  then show ?case
    by (intro disjI2 exI [of _ "[]"] exI [of _ s]) (simp add: hands_on_def of_metric_def)
next
  case (Cons t ts)
  have "counts_fit (db_abs s)" using Cons.prems(3) by (intro pending_counts) simp
  then have "turn_done P t s" using Cons.prems(1,2) by (intro turn_always_done) simp_all
  then consider es e where "run_turn P t s = Inl e" "replay P es (io s) = Inl e" "begins_with (db_abs s) (arrivals P t s) es"
    | es s1 where "run_turn P t s = Inr ((), s1)" "db_inv s1" "replay P es (io s) = Inr ((), io s1)"
        "hands_on (db_abs s) (arrivals P t s) es (db_abs s1)"
        "pending (db_abs s1) \<le> pending (db_abs s) + turn_size t"
    unfolding turn_done_def by blast
  then show ?case
  proof cases
    case 1
    then show ?thesis by (auto simp: andthen_def)
  next
    case 2
    have "pending (db_abs s1) + (\<Sum>t\<leftarrow>ts. turn_size t) < 2 ^ 32" using 2(5) Cons.prems(3) by simp
    then have ih: "(\<exists>es e. run_turns P ts s1 = Inl e \<and> replay P es (io s1) = Inl e \<and>
          begins_with (db_abs s1) (all_arrivals P ts s1) es) \<or>
       (\<exists>es s'. run_turns P ts s1 = Inr ((), s') \<and> db_inv s' \<and> replay P es (io s1) = Inr ((), io s') \<and>
          hands_on (db_abs s1) (all_arrivals P ts s1) es (db_abs s'))"
      using Cons.prems(2) by (intro Cons.IH 2(2)) simp_all
    have run: "run_turns P (t # ts) s = run_turns P ts s1" "replay P (es @ fs) (io s) = replay P fs (io s1)"
      "all_arrivals P (t # ts) s = arrivals P t s @ all_arrivals P ts s1" for fs
      using 2(1,3) by (simp_all add: andthen_def replay_append)
    from ih show ?thesis
      unfolding run(1,3) by (metis run(2) hands_on_trans [OF 2(4)] hands_on_then_begins [OF 2(4)])
  qed
qed

text \<open>A message that the protocol does not accept, or that fills the buffer, stops the process.\<close>

lemma bad_message_stops:
  assumes "db_inv s" "\<not> message_ok P mesg"
  shows "\<exists>e\<in>{UninitRead, HeapOverflow, StackOverflow}. process_mesg P 65535 mesg s = Inl e"
proof (cases "length mesg < 65535")
  case True
  then have "\<exists>l\<in>set (tokens [CHR 0x0A] (cstr mesg)). \<not> line_ok P l" using assms(2) by (auto simp: message_ok_def)
  then obtain good bad rest where ls: "tokens [CHR 0x0A] (cstr mesg) = good @ bad # rest" "\<not> line_ok P bad"
    "\<forall>l\<in>set good. line_ok P l"
    by (rule split_list_first_propE) simp
  obtain e where e: "scan_metric_line P bad = Inl e" using ls(2) by (auto simp: line_ok_def split: sum.splits)
  then have "e \<in> {UninitRead, HeapOverflow, StackOverflow}"
    by (auto simp: scan_metric_line_def split: option.splits if_splits)
  then show ?thesis using multiline_bad_line [OF assms(1) ls(1,3) e] True by (simp add: process_mesg_def)
qed (simp add: process_mesg_full)

lemma bad_turn_stops:
  assumes "db_inv s" "\<not> turn_ok P t"
  shows "\<exists>e\<in>{UninitRead, HeapOverflow, StackOverflow}. run_turn P t s = Inl e"
  using assms(2) bad_message_stops [OF assms(1)]
  by (cases "(P, t)" rule: turn_ok.cases) (simp_all add: receiver_udp_turn_def receiver_tcp_turn_def)

lemma run_turns_append: "run_turns P (ts @ us) = andthen (run_turns P ts) (\<lambda>_. run_turns P us)"
  by (induction ts) (simp_all add: andthen_assoc, simp add: andthen_def fun_eq_iff)

text \<open>Any sequence of turns: it ends, or it stops in a write, or at a message that is not accepted.\<close>

lemma any_schedule_hands_on:
  assumes inv: "db_inv s" and room: "pending (db_abs s) + (\<Sum>t\<leftarrow>ts. turn_size t) < 2 ^ 32"
  obtains es s' where "run_turns P ts s = Inr ((), s')" "db_inv s'" "replay P es (io s) = Inr ((), io s')"
      "hands_on (db_abs s) (all_arrivals P ts s) es (db_abs s')"
  | es e where "run_turns P ts s = Inl e" "replay P es (io s) = Inl e" "begins_with (db_abs s) (all_arrivals P ts s) es"
  | before t after es s' e where "ts = before @ t # after" "\<not> turn_ok P t" "e \<in> {UninitRead, HeapOverflow, StackOverflow}"
      "run_turns P ts s = Inl e" "run_turns P before s = Inr ((), s')" "replay P es (io s) = Inr ((), io s')"
      "hands_on (db_abs s) (all_arrivals P before s) es (db_abs s')"
proof (cases "\<forall>t\<in>set ts. turn_ok P t")
  case True
  then show ?thesis using that(1,2) schedule_hands_on [OF inv True room] by blast
next
  case False
  then obtain before t after where ts: "ts = before @ t # after" "\<not> turn_ok P t" "\<forall>t\<in>set before. turn_ok P t"
    using split_list_first_propE [of ts "\<lambda>t. \<not> turn_ok P t"] by auto
  have "pending (db_abs s) + (\<Sum>t\<leftarrow>before. turn_size t) < 2 ^ 32" using room ts(1) by simp
  from schedule_hands_on [OF inv ts(3) this] show ?thesis
  proof (elim disjE exE conjE)
    fix es e
    assume run: "run_turns P before s = Inl e" "replay P es (io s) = Inl e" "begins_with (db_abs s) (all_arrivals P before s) es"
    have "all_arrivals P ts s = all_arrivals P before s"
      unfolding ts(1) using run(1)
      by (induction before arbitrary: s) (auto simp: andthen_def split: sum.splits)
    then show ?thesis using that(2) [of e es] run by (simp add: ts(1) run_turns_append andthen_def)
  next
    fix es s'
    assume run: "run_turns P before s = Inr ((), s')" "db_inv s'" "replay P es (io s) = Inr ((), io s')"
      "hands_on (db_abs s) (all_arrivals P before s) es (db_abs s')"
    obtain e where e: "e \<in> {UninitRead, HeapOverflow, StackOverflow}" "run_turn P t s' = Inl e"
      using bad_turn_stops [OF run(2) ts(2)] by blast
    then have "run_turns P ts s = Inl e" using run(1) by (simp add: ts(1) run_turns_append andthen_def)
    then show ?thesis by (rule that(3) [OF ts(1,2) e(1) _ run(1,3,4)])
  qed
qed

lemma pending_zero: "pending db = 0 \<Longrightarrow> points_of n db = []"
  by (induction db) (auto simp: pending_def points_of_def split: if_splits prod.splits)

section \<open>Turns of the writer only\<close>

lemma writer_turns_schedule: "writer_turns P cf k = run_turns P (replicate k (Writer_turn cf))"
  by (induction k) (simp_all add: andthen_assoc)

lemma writer_arrivals: "all_arrivals P (replicate k (Writer_turn cf)) s = []"
  by (induction k arbitrary: s) (auto split: sum.splits)

lemma writer_turns_hand_on:
  assumes "db_inv s" "pending (db_abs s) < 2 ^ 32"
  shows "(\<exists>es e. writer_turns P cf k s = Inl e \<and> replay P es (io s) = Inl e \<and> begins_with (db_abs s) [] es) \<or>
    (\<exists>es s'. writer_turns P cf k s = Inr ((), s') \<and> db_inv s' \<and> replay P es (io s) = Inr ((), io s') \<and>
      hands_on (db_abs s) [] es (db_abs s'))"
  using schedule_hands_on [OF assms(1), of "replicate k (Writer_turn cf)" P] assms(2)
  by (simp add: writer_turns_schedule writer_arrivals sum_list_replicate)

section \<open>Writes that fail\<close>

text \<open>A call of \<open>open\<close> that fails makes the write of the value fail, and nothing is written.\<close>

lemma write_value_open_fails:
  assumes "fs_faults s = Fail e # fs" "e \<noteq> ENOENT" "whisper_metric_filename P conf name = Inr fn"
  shows "whisper_write_value P conf name ts v s = Inr (EXIT_FAILURE, s\<lparr>fs_faults := fs, fs_errno := e\<rparr>)"
  using assms
  by (simp add: whisper_write_value_def whisper_open_def posix_open_def andthen_def next_fault_def fails_def)

lemma write_all_fails:
  assumes "e \<noteq> ENOENT" "whisper_metric_filename P conf name = Inr fn"
  shows "fs_faults s = replicate (length ps) (Fail e) @ fs \<Longrightarrow>
    \<exists>s'. write_all P conf name ps s = Inr ((), s') \<and> fs_files s' = fs_files s \<and> fs_dirs s' = fs_dirs s \<and> fs_faults s' = fs"
proof (induction ps arbitrary: s)
  case (Cons p ps)
  obtain t v where p: "p = (t, v)" by (cases p)
  let ?s = "s\<lparr>fs_faults := replicate (length ps) (Fail e) @ fs, fs_errno := e\<rparr>"
  have "whisper_write_value P conf name t v s = Inr (EXIT_FAILURE, ?s)"
    using Cons.prems by (intro write_value_open_fails [OF _ assms]) simp
  then show ?case using Cons.IH [of ?s] by (simp add: p andthen_def)
qed simp

end
