(* ===== verification/Sockets.thy ===== *)
theory Sockets
  imports Common
begin

text \<open>
  The sockets of \<open>receiver_udp.c\<close> and \<open>receiver_tcp.c\<close>: creation, options and
  address. The network is a table of sockets; a script says which calls fail for reasons
  outside of the program, and an exhausted script means that none does. Descriptors of
  sockets are counted in a table of their own.
\<close>

section \<open>Sockets\<close>

datatype sock_type = SOCK_STREAM | SOCK_DGRAM

record sock =
  sk_open :: bool
  sk_type :: sock_type
  sk_reuseaddr :: bool
  sk_rcvtimeo :: "(nat \<times> nat) option"
  sk_port :: "16 word option"
  sk_backlog :: "nat option"

record net =
  net_socks :: "sock list"
  net_faults :: "bool list"

definition net_fault :: "(net, bool) prog" where
  "net_fault = (\<lambda>s. case net_faults s of [] \<Rightarrow> Inr (False, s) | b # bs \<Rightarrow> Inr (b, s\<lparr>net_faults := bs\<rparr>))"

definition net_socket :: "sock_type \<Rightarrow> (net, int) prog" where
  "net_socket t = andthen net_fault (\<lambda>bad s.
     if bad then Inr (- 1, s)
     else Inr (int (length (net_socks s)), s\<lparr>net_socks := net_socks s @
            [\<lparr>sk_open = True, sk_type = t, sk_reuseaddr = False, sk_rcvtimeo = None, sk_port = None, sk_backlog = None\<rparr>]\<rparr>))"

text \<open>A call on a socket that changes it, unless it fails or the descriptor is bad.\<close>

definition on_socket :: "int \<Rightarrow> (net \<Rightarrow> sock \<Rightarrow> bool) \<Rightarrow> (sock \<Rightarrow> sock) \<Rightarrow> (net, int) prog" where
  "on_socket fd ok f = andthen net_fault (\<lambda>bad s.
     if bad \<or> fd < 0 \<or> length (net_socks s) \<le> nat fd \<or> \<not> sk_open (net_socks s ! nat fd) \<or>
        \<not> ok s (net_socks s ! nat fd) then Inr (- 1, s)
     else Inr (0, s\<lparr>net_socks := (net_socks s)[nat fd := f (net_socks s ! nat fd)]\<rparr>))"

definition set_reuseaddr :: "int \<Rightarrow> (net, int) prog" where
  "set_reuseaddr fd = on_socket fd (\<lambda>_ _. True) (\<lambda>k. k\<lparr>sk_reuseaddr := True\<rparr>)"

definition set_rcvtimeo :: "int \<Rightarrow> nat \<Rightarrow> nat \<Rightarrow> (net, int) prog" where
  "set_rcvtimeo fd sec usec = on_socket fd (\<lambda>_ _. True) (\<lambda>k. k\<lparr>sk_rcvtimeo := Some (sec, usec)\<rparr>)"

text \<open>\<open>bind\<close> fails when a socket of the same type has the port already.\<close>

definition net_bind :: "int \<Rightarrow> 16 word \<Rightarrow> (net, int) prog" where
  "net_bind fd port = on_socket fd
     (\<lambda>s k. sk_port k = None \<and> (\<forall>j \<in> set (net_socks s). \<not> (sk_open j \<and> sk_type j = sk_type k \<and> sk_port j = Some port)))
     (\<lambda>k. k\<lparr>sk_port := Some port\<rparr>)"

definition net_listen :: "int \<Rightarrow> nat \<Rightarrow> (net, int) prog" where
  "net_listen fd backlog = on_socket fd (\<lambda>_ k. sk_type k = SOCK_STREAM) (\<lambda>k. k\<lparr>sk_backlog := Some backlog\<rparr>)"

definition net_close :: "int \<Rightarrow> (net, int) prog" where
  "net_close fd = on_socket fd (\<lambda>_ _. True) (\<lambda>k. k\<lparr>sk_open := False\<rparr>)"

section \<open>The receivers\<close>

definition receiver_udp_init_socket :: "(net, int) prog" where
  "receiver_udp_init_socket =
     andthen (net_socket SOCK_DGRAM) (\<lambda>sockfd.
     if sockfd < 0 then ret (- 1)
     else andthen (set_reuseaddr sockfd) (\<lambda>r.
     if r < 0 then ret (- 1)
     else andthen (set_rcvtimeo sockfd 0 500000) (\<lambda>r.
     if r < 0 then ret (- 1) else ret sockfd)))"

definition receiver_udp_bind_socket :: "carbon_conf \<Rightarrow> int \<Rightarrow> (net, int) prog" where
  "receiver_udp_bind_socket conf sockfd =
     andthen (net_bind sockfd (word_of_int (udp_receiver_port conf))) (\<lambda>r.
     if r < 0 then ret (- 1) else ret 0)"

definition receiver_tcp_init_socket :: "(net, int) prog" where
  "receiver_tcp_init_socket =
     andthen (net_socket SOCK_STREAM) (\<lambda>sockfd.
     if sockfd < 0 then ret (- 1)
     else andthen (set_reuseaddr sockfd) (\<lambda>r.
     if r < 0 then ret (- 1)
     else andthen (set_rcvtimeo sockfd 0 500000) (\<lambda>r.
     if r < 0 then ret (- 1) else ret sockfd)))"

definition receiver_tcp_bind_socket :: "carbon_conf \<Rightarrow> int \<Rightarrow> (net, int) prog" where
  "receiver_tcp_bind_socket conf sockfd =
     andthen (net_bind sockfd (word_of_int (line_receiver_port conf))) (\<lambda>r.
     if r < 0 then ret (- 1)
     else andthen (net_listen sockfd 10) (\<lambda>r.
     if r < 0 then ret (- 1) else ret 0))"

text \<open>
  The socket of a receiver as its launch makes it. The results of the set-up are not
  looked at: the descriptor, which may be -1, is handed to the thread in any case.
\<close>

definition receiver_udp_socket :: "carbon_conf \<Rightarrow> (net, int) prog" where
  "receiver_udp_socket conf =
     andthen receiver_udp_init_socket (\<lambda>sockfd.
     andthen (receiver_udp_bind_socket conf sockfd) (\<lambda>_. ret sockfd))"

definition receiver_tcp_socket :: "carbon_conf \<Rightarrow> (net, int) prog" where
  "receiver_tcp_socket conf =
     andthen receiver_tcp_init_socket (\<lambda>sockfd.
     andthen (receiver_tcp_bind_socket conf sockfd) (\<lambda>_. ret sockfd))"

text \<open>What the worker of the TCP receiver does behind its loop.\<close>

definition receiver_tcp_end :: "int \<Rightarrow> (net, unit) prog" where
  "receiver_tcp_end sockfd = andthen (net_close sockfd) (\<lambda>_. ret ())"

section \<open>The sockets of the launch\<close>

definition udp_sock :: "carbon_conf \<Rightarrow> sock" where
  "udp_sock conf = \<lparr>sk_open = True, sk_type = SOCK_DGRAM, sk_reuseaddr = True, sk_rcvtimeo = Some (0, 500000),
     sk_port = Some (word_of_int (udp_receiver_port conf)), sk_backlog = None\<rparr>"

definition tcp_sock :: "carbon_conf \<Rightarrow> sock" where
  "tcp_sock conf = \<lparr>sk_open = True, sk_type = SOCK_STREAM, sk_reuseaddr = True, sk_rcvtimeo = Some (0, 500000),
     sk_port = Some (word_of_int (line_receiver_port conf)), sk_backlog = Some 10\<rparr>"

lemmas sock_defs = net_fault_def net_socket_def on_socket_def set_reuseaddr_def set_rcvtimeo_def net_bind_def
  net_listen_def net_close_def andthen_def ret_def halt_def

lemma socket_udp:
  assumes "net_faults s = []"
    and "\<forall>k \<in> set (net_socks s). \<not> (sk_open k \<and> sk_type k = SOCK_DGRAM \<and> sk_port k = Some (word_of_int (udp_receiver_port conf)))"
  shows "receiver_udp_socket conf s =
    Inr (int (length (net_socks s)), s\<lparr>net_socks := net_socks s @ [udp_sock conf]\<rparr>)"
  using assms
  by (auto simp: receiver_udp_socket_def receiver_udp_init_socket_def receiver_udp_bind_socket_def
      sock_defs udp_sock_def)

lemma socket_tcp:
  assumes "net_faults s = []"
    and "\<forall>k \<in> set (net_socks s). \<not> (sk_open k \<and> sk_type k = SOCK_STREAM \<and> sk_port k = Some (word_of_int (line_receiver_port conf)))"
  shows "receiver_tcp_socket conf s =
    Inr (int (length (net_socks s)), s\<lparr>net_socks := net_socks s @ [tcp_sock conf]\<rparr>)"
  using assms
  by (auto simp: receiver_tcp_socket_def receiver_tcp_init_socket_def receiver_tcp_bind_socket_def
      sock_defs tcp_sock_def)

text \<open>A failure of the set-up is not noticed.\<close>

lemma socket_udp_failed:
  assumes "net_faults s = True # fs" "net_socks s = []"
  shows "\<exists>s'. receiver_udp_socket conf s = Inr (- 1, s') \<and> net_socks s' = []"
  using assms
  by (auto simp: receiver_udp_socket_def receiver_udp_init_socket_def receiver_udp_bind_socket_def
      sock_defs split: list.splits)

lemma socket_udp_port_taken:
  assumes "net_faults s = []" "k \<in> set (net_socks s)"
    and "sk_open k" "sk_type k = SOCK_DGRAM" "sk_port k = Some (word_of_int (udp_receiver_port conf))"
  shows "receiver_udp_socket conf s =
    Inr (int (length (net_socks s)), s\<lparr>net_socks := net_socks s @ [(udp_sock conf)\<lparr>sk_port := None\<rparr>]\<rparr>)"
  using assms
  by (auto simp: receiver_udp_socket_def receiver_udp_init_socket_def receiver_udp_bind_socket_def
      sock_defs udp_sock_def)

text \<open>Once the worker has ended, its port can be bound again.\<close>

lemma tcp_port_again:
  assumes "net_faults s = []" "net_socks s = [udp_sock conf, tcp_sock conf]"
  shows "\<exists>s' s''. receiver_tcp_end 1 s = Inr ((), s') \<and> receiver_tcp_socket conf s' = Inr (2, s'') \<and>
    net_socks s'' ! 2 = tcp_sock conf"
proof -
  let ?s = "s\<lparr>net_socks := [udp_sock conf, (tcp_sock conf)\<lparr>sk_open := False\<rparr>]\<rparr>"
  have "receiver_tcp_end 1 s = Inr ((), ?s)"
    using assms by (simp add: receiver_tcp_end_def sock_defs tcp_sock_def)
  moreover have "receiver_tcp_socket conf ?s = Inr (2, ?s\<lparr>net_socks := net_socks ?s @ [tcp_sock conf]\<rparr>)"
    using socket_tcp [of ?s conf] assms(1) by (simp add: udp_sock_def)
  ultimately show ?thesis by simp
qed

end
