(* ===== verification/Launch.thy ===== *)
theory Launch
  imports Daemon Sockets
begin

text \<open>
  The launch of the four threads by \<open>main\<close>, with \<open>thread_init\<close> and \<open>block_signals\<close> of \<open>threads.c\<close>,
  and which thread may run the handler of a signal. What the launch leaves behind is the
  initial state of the pause protocol in \<open>Threads\<close>.
\<close>

section \<open>Threads\<close>

datatype signal = SIGINT | SIGHUP | SIGTERM

text \<open>
  A \<open>carbon_thread_t\<close>. \<open>th_started\<close> is whether \<open>pthread\<close> was set by \<open>pthread_create\<close>, \<open>th_blocked\<close>
  the signal mask of the thread.
\<close>

record carbon_thread =
  th_name :: string
  th_must_pause :: bool
  th_run_lock :: "holder option"
  th_started :: bool
  th_blocked :: "signal \<Rightarrow> bool"

text \<open>The pointers of \<open>threads\<close>, and a script of what \<open>pthread_create\<close> returns.\<close>

record process =
  pr_net :: net
  pr_threads :: "tid \<rightharpoonup> carbon_thread"
  pr_create :: "bool list"

definition thread_init :: "string \<Rightarrow> carbon_thread" where
  "thread_init name = \<lparr>th_name = name, th_must_pause = False, th_run_lock = None, th_started = False,
     th_blocked = (\<lambda>_. False)\<rparr>"

text \<open>A new thread has the signal mask of \<open>main\<close>, which blocks nothing.\<close>

definition pthread_create :: "carbon_thread \<Rightarrow> (process, bool \<times> carbon_thread) prog" where
  "pthread_create t = (\<lambda>s. case pr_create s of
       [] \<Rightarrow> Inr ((True, t\<lparr>th_started := True\<rparr>), s)
     | b # bs \<Rightarrow> Inr ((b, t\<lparr>th_started := b\<rparr>), s\<lparr>pr_create := bs\<rparr>))"

definition with_net :: "(net, 'a) prog \<Rightarrow> (process, 'a) prog" where
  "with_net f = (\<lambda>s. case f (pr_net s) of Inl e \<Rightarrow> Inl e | Inr (x, n) \<Rightarrow> Inr (x, s\<lparr>pr_net := n\<rparr>))"

section \<open>The launch\<close>

definition launch_monitoring_thread :: "(process, carbon_thread) prog" where
  "launch_monitoring_thread =
     andthen (pthread_create (thread_init ''monitoring'')) (\<lambda>(_, thread). ret thread)"

definition launch_receiver_udp_thread :: "carbon_conf \<Rightarrow> (process, carbon_thread) prog" where
  "launch_receiver_udp_thread conf =
     andthen (with_net (receiver_udp_socket conf)) (\<lambda>sockfd.
     andthen (pthread_create (thread_init ''udp receiver'')) (\<lambda>(_, thread). ret thread))"

definition launch_receiver_tcp_thread :: "carbon_conf \<Rightarrow> (process, carbon_thread) prog" where
  "launch_receiver_tcp_thread conf =
     andthen (with_net (receiver_tcp_socket conf)) (\<lambda>sockfd.
     andthen (pthread_create (thread_init ''tcp receiver'')) (\<lambda>(ok, thread).
     if ok then ret thread else halt (Exit 1)))"

definition launch_writer_thread :: "(process, carbon_thread) prog" where
  "launch_writer_thread =
     andthen (pthread_create (thread_init ''writer'')) (\<lambda>(ok, thread).
     if ok then ret thread else halt (Exit 1))"

definition set_thread :: "tid \<Rightarrow> carbon_thread \<Rightarrow> (process, unit) prog" where
  "set_thread t th = (\<lambda>s. Inr ((), s\<lparr>pr_threads := (pr_threads s)(t \<mapsto> th)\<rparr>))"

definition main_launch :: "carbon_conf \<Rightarrow> (process, unit) prog" where
  "main_launch conf =
     andthen launch_monitoring_thread (\<lambda>th. andthen (set_thread Monitor th) (\<lambda>_.
     andthen (launch_receiver_udp_thread conf) (\<lambda>th. andthen (set_thread Udp th) (\<lambda>_.
     andthen (launch_receiver_tcp_thread conf) (\<lambda>th. andthen (set_thread Tcp th) (\<lambda>_.
     andthen launch_writer_thread (\<lambda>th. set_thread Writer th)))))))"

text \<open>\<open>main\<close> up to the wait for the threads.\<close>

definition main_run ::
    "platform \<Rightarrow> wsp_state \<Rightarrow> string \<Rightarrow> string \<Rightarrow> cmd_option list \<Rightarrow> process \<Rightarrow>
     stop + carbon_conf \<times> daemon \<times> process" where
  "main_run P i sysconfdir localstatedir opts pr =
     bind_sum (main_start P i sysconfdir localstatedir opts) (\<lambda>(conf, d).
     bind_sum (main_launch conf pr) (\<lambda>(_, pr'). Inr (conf, d, pr')))"

section \<open>The pause protocol behind the launch\<close>

text \<open>The threads as the state of the protocol; a thread that was not started never runs.\<close>

definition system_of :: "carbon_conf \<Rightarrow> process \<Rightarrow> system" where
  "system_of conf s =
     \<lparr>pc = (\<lambda>t. case pr_threads s t of Some th \<Rightarrow> if th_started th then Boot else Stopped | None \<Rightarrow> Stopped),
      run_lock = (\<lambda>t. case pr_threads s t of Some th \<Rightarrow> th_run_lock th | None \<Rightarrow> None),
      must_pause = (\<lambda>t. case pr_threads s t of Some th \<Rightarrow> th_must_pause th | None \<Rightarrow> False),
      main_pc = Joining, run_flag = run conf, new_run = True, interrupted = False\<rparr>"

definition no_process :: process where
  "no_process = \<lparr>pr_net = \<lparr>net_socks = [], net_faults = []\<rparr>, pr_threads = (\<lambda>_. None), pr_create = []\<rparr>"

definition started :: "string \<Rightarrow> carbon_thread" where
  "started name = (thread_init name)\<lparr>th_started := True\<rparr>"

definition launched_threads :: "tid \<rightharpoonup> carbon_thread" where
  "launched_threads = [Monitor \<mapsto> started ''monitoring'', Udp \<mapsto> started ''udp receiver'',
     Tcp \<mapsto> started ''tcp receiver'', Writer \<mapsto> started ''writer'']"

lemma launch_threads:
  "main_launch conf no_process =
    Inr ((), no_process\<lparr>pr_net := \<lparr>net_socks = [udp_sock conf, tcp_sock conf], net_faults = []\<rparr>, pr_threads := launched_threads\<rparr>)"
proof -
  have u: "receiver_udp_socket conf \<lparr>net_socks = [], net_faults = []\<rparr> =
      Inr (0, \<lparr>net_socks = [udp_sock conf], net_faults = []\<rparr>)"
    using socket_udp [of "\<lparr>net_socks = [], net_faults = []\<rparr>" conf] by simp
  have t: "receiver_tcp_socket conf \<lparr>net_socks = [udp_sock conf], net_faults = []\<rparr> =
      Inr (1, \<lparr>net_socks = [udp_sock conf, tcp_sock conf], net_faults = []\<rparr>)"
    using socket_tcp [of "\<lparr>net_socks = [udp_sock conf], net_faults = []\<rparr>" conf] by (simp add: udp_sock_def)
  show ?thesis
    by (simp add: main_launch_def launch_monitoring_thread_def launch_receiver_udp_thread_def launch_receiver_tcp_thread_def launch_writer_thread_def
        pthread_create_def with_net_def set_thread_def andthen_def no_process_def u t launched_threads_def started_def)
qed

lemma launched_system:
  assumes "run conf" "pr_threads s = launched_threads"
  shows "system_of conf s = thread_start"
proof -
  have th: "\<exists>name. pr_threads s t = Some (started name)" for t
    unfolding assms(2) by (cases t) (auto simp: launched_threads_def)
  have "pc (system_of conf s) t = Boot" "run_lock (system_of conf s) t = None" "\<not> must_pause (system_of conf s) t" for t
    using th [of t] by (auto simp: system_of_def started_def thread_init_def)
  then have "pc (system_of conf s) = (\<lambda>_. Boot)" "run_lock (system_of conf s) = (\<lambda>_. None)"
    "must_pause (system_of conf s) = (\<lambda>_. False)" by auto
  then show ?thesis using assms(1) by (simp add: system_of_def thread_start_def)
qed

section \<open>Signals\<close>

text \<open>What a worker does first: SIGINT and SIGHUP are blocked in its own mask.\<close>

definition block_signals :: "carbon_thread \<Rightarrow> carbon_thread" where
  "block_signals th = th\<lparr>th_blocked := (th_blocked th)(SIGINT := True, SIGHUP := True)\<rparr>"

definition worker_blocks :: "tid \<Rightarrow> process \<Rightarrow> process" where
  "worker_blocks t s = s\<lparr>pr_threads := (pr_threads s)(t := map_option block_signals (pr_threads s t))\<rparr>"

text \<open>The threads that may run the handler of a signal; \<open>None\<close> is \<open>main\<close>.\<close>

definition may_handle :: "signal \<Rightarrow> process \<Rightarrow> tid option \<Rightarrow> bool" where
  "may_handle sig s who =
     (case who of None \<Rightarrow> True
      | Some t \<Rightarrow> (case pr_threads s t of None \<Rightarrow> False | Some th \<Rightarrow> th_started th \<and> \<not> th_blocked th sig))"

lemma blocked_handles:
  assumes "sig \<in> {SIGINT, SIGHUP}" "set ts = UNIV"
  shows "may_handle sig (fold worker_blocks ts s) who \<longleftrightarrow> who = None"
proof -
  have keep: "(\<And>th. pr_threads (fold worker_blocks us s) t = Some th \<Longrightarrow> th_blocked th sig)"
    if "t \<in> set us \<or> (\<forall>th. pr_threads s t = Some th \<longrightarrow> th_blocked th sig)" for us s t
    using that
  proof (induction us arbitrary: s)
    case (Cons u us)
    have "t \<in> set us \<or> (\<forall>th. pr_threads (worker_blocks u s) t = Some th \<longrightarrow> th_blocked th sig)"
      using Cons.prems(2) assms(1) by (auto simp: worker_blocks_def block_signals_def)
    then show ?case using Cons.IH [of "worker_blocks u s"] Cons.prems(1) by simp
  qed simp
  show ?thesis
    using keep [of _ ts s] assms(2) by (auto simp: may_handle_def split: option.splits)
qed

end
