(* ===== verification/Conf_Bounds.thy ===== *)
theory Conf_Bounds
  imports Daemon Conf_Memory
begin

text \<open>
  The strings of a configuration. Whatever the files hold, the parsers only put words of
  one line into it, so that paths fit their buffers and patterns are not empty. The
  invariant holds from the start on and is kept by every reload.
\<close>

section \<open>Well formed configurations\<close>

definition word_fits :: "string \<Rightarrow> bool" where
  "word_fits w \<longleftrightarrow> w \<noteq> [] \<and> length w < READ_BUF_MAX \<and> CHR 0x00 \<notin> set w"

definition path_fits :: "string \<Rightarrow> bool" where
  "path_fits p \<longleftrightarrow> length p < PATH_MAX \<and> CHR 0x00 \<notin> set p"

definition conf_wf :: "carbon_conf \<Rightarrow> bool" where
  "conf_wf c \<longleftrightarrow> path_fits (conf_dir c) \<and> path_fits (conf_file c) \<and> path_fits (storage_dir c) \<and>
     (\<forall>e\<in>set (schema c). word_fits (str_pattern e) \<and> (str_retention e = [] \<or> word_fits (str_retention e))) \<and>
     (\<forall>a\<in>set (aggregation c). word_fits (agg_pattern a))"

lemma conf_wf_paths: "conf_wf c \<Longrightarrow> paths_fit c"
  by (simp add: conf_wf_def paths_fit_def path_fits_def)

section \<open>Words of a line\<close>

lemma strtok_length: "strtok_r ds s = Some (t, r) \<Longrightarrow> length t \<le> length s"
  unfolding strtok_r_Some_iff
  by (meson le_trans length_dropWhile_le length_takeWhile_le)

lemma strtok_fits:
  assumes "strtok_r ds s = Some (t, r)" "line_fits s"
  shows "path_fits t" "line_fits r"
  using strtok_length [OF assms(1)] strtok_r_shorter [OF assms(1)] strtok_r_token [OF assms(1)] assms(2)
  by (auto simp: line_fits_def path_fits_def)

lemma scan_s_takes:
  "scan_s s = Some (w, r) \<Longrightarrow> dropWhile isspace s \<noteq> []"
  "scan_s s = Some (w, r) \<Longrightarrow> w = takeWhile (\<lambda>c. \<not> isspace c) (dropWhile isspace s)"
  unfolding scan_s_def by (cases "dropWhile isspace s"; auto)+

lemma scan_value_fits:
  assumes "line_fits l" "scan_value key l old = Some w" "\<And>v. old = Some v \<Longrightarrow> word_fits v"
  shows "word_fits w"
proof (cases "scan_s (drop (length key) l)")
  case None
  then show ?thesis using assms(2,3) by (simp add: scan_value_def)
next
  case (Some wr)
  let ?d = "dropWhile isspace (drop (length key) l)"
  have w: "?d \<noteq> []" "w = takeWhile (\<lambda>c. \<not> isspace c) ?d"
    using Some assms(2) scan_s_takes [of "drop (length key) l"] by (cases wr; simp add: scan_value_def)+
  have "length w \<le> length ?d" unfolding w(2) by (rule length_takeWhile_le)
  also have "\<dots> \<le> length l" by (metis le_trans length_dropWhile_le length_drop diff_le_self)
  finally have "length w < READ_BUF_MAX" using assms(1) by (simp add: line_fits_def)
  moreover have "\<not> isspace (hd ?d)" by (rule hd_dropWhile [OF w(1)])
  then have "w \<noteq> []" using w by (metis hd_Cons_tl list.distinct(1) takeWhile.simps(2))
  moreover have "set w \<subseteq> set ?d" unfolding w(2) by (auto dest: set_takeWhileD)
  moreover have "set ?d \<subseteq> set (drop (length key) l)" by (auto dest: set_dropWhileD)
  moreover have "set (drop (length key) l) \<subseteq> set l" by (rule set_drop_subset)
  ultimately show ?thesis using assms(1) by (auto simp: word_fits_def line_fits_def)
qed

section \<open>The parsers\<close>

lemma carbon_line_wf:
  assumes "line_fits l" "conf_wf c"
  shows "carbon_line l c = Inr (Go c') \<Longrightarrow> conf_wf c'" "carbon_line l c = Inr (Leave st c') \<Longrightarrow> conf_wf c'"
proof -
  have val: "path_fits v" if "strtok_r ''='' l = Some (k, s)" "strtok_r ''='' s = Some (v, t)" for k s v t
    using strtok_fits [OF that(1) assms(1)] strtok_fits [OF that(2)] by blast
  show "carbon_line l c = Inr (Go c') \<Longrightarrow> conf_wf c'"
    using assms(2) by (auto simp: carbon_line_def conf_wf_def Let_def dest: val
        split: option.splits prod.splits if_splits)
  show "carbon_line l c = Inr (Leave st c') \<Longrightarrow> conf_wf c'"
    using assms(2) by (auto simp: carbon_line_def conf_wf_def Let_def
        split: option.splits prod.splits if_splits)
qed

lemma parse_carbon_wf:
  assumes "conf_wf c" "conf_parse_carbon_file fs c = Inr (st, c')"
  shows "conf_wf c'"
proof (cases "fopen_read fs (conf_file c)")
  case None
  then show ?thesis using assms by (simp add: conf_parse_carbon_file_def)
next
  case (Some content)
  then have "read_lines carbon_line content c = Inr (st, c')" using assms(2) by (simp add: conf_parse_carbon_file_def)
  with assms(1) show ?thesis by (rule read_lines_keeps [rotated 2]) (blast intro: carbon_line_wf)+
qed

definition schema_parser_wf :: "schema_parser \<Rightarrow> bool" where
  "schema_parser_wf s \<longleftrightarrow> conf_wf (sp_conf s) \<and> (sp_found s \<longrightarrow> sp_entries s \<noteq> []) \<and>
     (\<forall>e\<in>set (sp_entries s). word_fits (str_pattern e) \<and> (str_retention e = [] \<or> word_fits (str_retention e)))"

lemma schema_line_wf:
  assumes "line_fits l" "schema_parser_wf s" "schema_line P l s = Inr (Go s')"
  shows "schema_parser_wf s'"
proof -
  have word: "word_fits w" if "store_word P n (scan_value key l None) = Inr w" for n key w
    using that scan_value_fits [OF assms(1), of key None w]
    by (auto simp: store_word_def split: option.splits if_splits)
  have old: "word_fits (str_pattern (last (sp_entries s)))" if "sp_found s"
    using assms(2) that by (auto simp: schema_parser_wf_def)
  have set: "schema_parser_wf (set_entries es (s\<lparr>sp_found := b\<rparr>))"
    if "\<forall>e\<in>set es. word_fits (str_pattern e) \<and> (str_retention e = [] \<or> word_fits (str_retention e))" "es \<noteq> []" for es b
    using that assms(2) by (auto simp: schema_parser_wf_def set_entries_def conf_wf_def)
  have kept: "\<forall>e\<in>set (butlast (sp_entries s)). word_fits (str_pattern e) \<and> (str_retention e = [] \<or> word_fits (str_retention e))"
    "\<forall>e\<in>set (sp_entries s). word_fits (str_pattern e) \<and> (str_retention e = [] \<or> word_fits (str_retention e))"
    using assms(2) by (auto simp: schema_parser_wf_def dest: in_set_butlastD)
  show ?thesis
    using assms(2,3) kept old
    by (auto simp: schema_line_def bind_sum_def split: sum.splits if_splits dest!: word intro!: set)
qed

lemma parse_schema_wf:
  assumes "conf_wf c" "conf_parse_storage_schema_file P fs c = Inr (st, c')"
  shows "conf_wf c'"
proof -
  consider "c' = c"
    | content s' where "read_lines (schema_line P) content \<lparr>sp_conf = c, sp_found = False, sp_entries = []\<rparr> = Inr (st, s')"
        "c' = sp_conf s'"
    using assms(2) by (auto simp: conf_parse_storage_schema_file_def bind_sum_def split: sum.splits option.splits)
  then show ?thesis
  proof cases
    case 2
    have "schema_parser_wf \<lparr>sp_conf = c, sp_found = False, sp_entries = []\<rparr>"
      using assms(1) by (simp add: schema_parser_wf_def)
    then have "schema_parser_wf s'"
      using 2(1) by (rule read_lines_keeps [rotated 2]) (erule (2) schema_line_wf, use schema_line_flags(2) in blast)
    then show ?thesis using 2(2) by (simp add: schema_parser_wf_def)
  qed (use assms(1) in simp)
qed

definition agg_parser_wf :: "agg_parser \<Rightarrow> bool" where
  "agg_parser_wf s \<longleftrightarrow> conf_wf (ap_conf s) \<and> (\<forall>w. ap_pattern s = Some w \<longrightarrow> word_fits w)"

lemma aggregation_line_wf:
  assumes "line_fits l" "agg_parser_wf s" "aggregation_line P l s = Inr (Go s')"
  shows "agg_parser_wf s'"
proof -
  have word: "word_fits w" if "scan_value key l (ap_pattern s) = Some w" for key w
    using scan_value_fits [OF assms(1) that] assms(2) by (simp add: agg_parser_wf_def)
  show ?thesis
    using assms(2,3)
    by (auto simp: aggregation_line_def agg_parser_wf_def conf_add_pattern_aggregation_def bind_sum_def conf_wf_def
        dest: word split: sum.splits if_splits option.splits)
qed

lemma parse_aggregation_wf:
  assumes "conf_wf c" "conf_parse_storage_aggregation_file P fs c = Inr (st, c')"
  shows "conf_wf c'"
proof -
  let ?s = "\<lparr>ap_conf = c, ap_found = False, ap_pattern = None, ap_xff_s = None, ap_method_s = None, ap_xff = 0\<rparr>"
  consider "c' = c" | content s' where "read_lines (aggregation_line P) content ?s = Inr (st, s')" "c' = ap_conf s'"
    using assms(2) by (auto simp: conf_parse_storage_aggregation_file_def bind_sum_def split: sum.splits option.splits)
  then show ?thesis
  proof cases
    case 2
    have "agg_parser_wf ?s" using assms(1) by (simp add: agg_parser_wf_def)
    then have "agg_parser_wf s'"
      using 2(1) by (rule read_lines_keeps [rotated 2]) (erule (2) aggregation_line_wf, use aggregation_line_flags(2) in blast)
    then show ?thesis using 2(2) by (simp add: agg_parser_wf_def)
  qed (use assms(1) in simp)
qed

lemma conf_parse_wf:
  assumes "conf_wf c" "conf_parse P fs c = Inr (st, c')"
  shows "conf_wf c'"
proof -
  obtain st1 c1 where 1: "conf_parse_carbon_file fs c = Inr (st1, c1)"
    using assms(2) by (auto simp: conf_parse_def bind_sum_def split: sum.splits)
  note wf1 = parse_carbon_wf [OF assms(1) 1]
  show ?thesis
  proof (cases "st1 = 0")
    case True
    then obtain st2 c2 where 2: "conf_parse_storage_schema_file P fs c1 = Inr (st2, c2)"
      using assms(2) 1 by (auto simp: conf_parse_def bind_sum_def split: sum.splits)
    note wf2 = parse_schema_wf [OF wf1 2]
    show ?thesis
    proof (cases "st2 = 0")
      case st2: True
      then have "conf_parse_storage_aggregation_file P fs c2 = Inr (st, c')"
        using assms(2) 1 2 True by (simp add: conf_parse_def)
      then show ?thesis by (rule parse_aggregation_wf [OF wf2])
    next
      case False
      then show ?thesis using assms(2) 1 2 True wf2 by (simp add: conf_parse_def)
    qed
  next
    case False
    then show ?thesis using assms(2) 1 wf1 by (simp add: conf_parse_def)
  qed
qed

lemma conf_reload_wf:
  assumes "conf_wf c" "conf_reload P fs ts c = Inr c'"
  shows "conf_wf c'"
proof -
  have "conf_wf (conf_copy c)" using assms(1) by (simp add: conf_wf_def conf_copy_def)
  with conf_parse_wf have "conf_parse P fs (conf_copy c) = Inr (0, c') \<Longrightarrow> conf_wf c'" by blast
  then show ?thesis using conf_reload_cases [OF assms(2)] assms(1) by auto
qed

text \<open>Any number of reloads, each with the files as they are then.\<close>

fun conf_reloads :: "platform \<Rightarrow> 'a fsys_scheme list \<Rightarrow> carbon_conf \<Rightarrow> stop + carbon_conf" where
  "conf_reloads P [] c = Inr c"
| "conf_reloads P (fs # fss) c = bind_sum (conf_reload P fs UNIV c) (conf_reloads P fss)"

lemma conf_reloads_wf: "conf_wf c \<Longrightarrow> conf_reloads P fss c = Inr c' \<Longrightarrow> conf_wf c'"
proof (induction P fss c rule: conf_reloads.induct)
  case (2 P fs fss c)
  then show ?case by (auto simp: bind_sum_def split: sum.splits dest: conf_reload_wf)
qed simp

lemma parse_args_wf:
  "conf_wf c \<Longrightarrow> set opts \<subseteq> {OptHelp, OptDebug, OptOther} \<Longrightarrow> parse_args P opts c = Inr c' \<Longrightarrow> conf_wf c'"
proof (induction P opts c rule: parse_args.induct)
  case (4 P opts c)
  have "conf_wf (c\<lparr>tracing := True, conf_log_level := LOG_LEVEL_DEBUG\<rparr>)" using "4.prems"(1) by (simp add: conf_wf_def)
  then show ?case using 4 by simp
qed simp_all

lemma main_start_wf:
  assumes "main_start P i sys loc opts = Inr (c, d)" "set opts \<subseteq> {OptHelp, OptDebug, OptOther}"
    and "path_fits (sys @ ''/carbon.conf'')" "path_fits loc"
  shows "conf_wf c"
proof -
  obtain c0 where c0: "parse_args P opts (default_conf sys loc) = Inr c0" "conf_parse P i c0 = Inr (0, c)"
    by (rule main_start_cases [OF assms(1)])
  have "conf_wf (default_conf sys loc)"
    using assms(3,4) by (auto simp: conf_wf_def default_conf_def path_fits_def)
  from conf_parse_wf [OF parse_args_wf [OF this assms(2) c0(1)] c0(2)] show ?thesis .
qed

end
