(* ===== verification/Conf_Print.thy ===== *)
theory Conf_Print
  imports Log Conf_Carbon
begin

text \<open>
  What the daemon prints of its configuration: \<open>print_usage\<close> and \<open>print_conf\<close> of \<open>main.c\<close>
  and \<open>print_storage_schema\<close> of \<open>conf.c\<close>. The name of the source file is an argument, as the
  compiler is called with it; so are the line numbers of calls that span several lines.
\<close>

section \<open>Formats\<close>

text \<open>The conversions \<open>%d\<close> and \<open>%s\<close>; the library prints a null pointer in parentheses. A word that was
  not given is the empty string here.\<close>

definition print_d :: "int \<Rightarrow> string" where
  "print_d i = (if i < 0 then ''-'' @ decimal (nat (- i)) else decimal (nat i))"

definition print_s :: "string \<Rightarrow> string" where
  "print_s s = (if s = [] then ''(null)'' else s)"

definition shown :: "(stream \<times> string) option \<Rightarrow> (stream \<times> string) list" where
  "shown m = (case m of None \<Rightarrow> [] | Some out \<Rightarrow> [out])"

lemma length_shown: "length (shown m) = (if m \<noteq> None then 1 else 0)"
  by (simp add: shown_def split: option.splits)

section \<open>The functions\<close>

definition print_usage :: string where
  "print_usage = unlines
     [''usage: carbon [-h] [-d] [-c CONF]'',
      ''-h, --help         Print this help'',
      ''-d, --debug        Debug mode'',
      ''-c, --conf CONF    Specify an alternative configuration file'',
      ''                     (default: %sysconfdir/carbon/carbon.conf)'',
      '''']"

text \<open>The messages of \<open>print_conf\<close> with the lines they come from.\<close>

definition conf_messages :: "carbon_conf \<Rightarrow> (nat \<times> string) list" where
  "conf_messages conf =
     [(189, ''runtime configuration:''),
      (190, ''  conf_dir: '' @ conf_dir conf),
      (191, ''  conf_file: '' @ conf_file conf),
      (192, ''  storage_dir: '' @ storage_dir conf),
      (193, ''  tracing: '' @ print_d (if tracing conf then 1 else 0)),
      (194, ''  log_level: '' @ print_d (int (level_code (conf_log_level conf)))),
      (195, ''  line_receiver_port: '' @ print_d (line_receiver_port conf)),
      (196, ''  udp_receiver_port: '' @ print_d (udp_receiver_port conf))]"

definition print_conf :: "string \<Rightarrow> carbon_conf \<Rightarrow> (stream \<times> string) list" where
  "print_conf src_file conf =
     concat (map (\<lambda>(line, msg). shown (debug_macro conf src_file ''print_conf'' (decimal line) msg)) (conf_messages conf))"

fun print_retentions_loop :: "(string \<Rightarrow> (stream \<times> string) option) \<Rightarrow> retention list \<Rightarrow> (stream \<times> string) list" where
  "print_retentions_loop debug [] = []"
| "print_retentions_loop debug (cur_rt # rts) =
     shown (debug (''  time_per_point: '' @ decimal (unat (time_per_point cur_rt)) @
        '' time_to_store: '' @ decimal (unat (time_to_store cur_rt)))) @ print_retentions_loop debug rts"

fun print_schema_loop ::
    "(string \<Rightarrow> (stream \<times> string) option) \<Rightarrow> (string \<Rightarrow> (stream \<times> string) option) \<Rightarrow>
     pattern_retention list \<Rightarrow> (stream \<times> string) list" where
  "print_schema_loop debug_pt debug_rt [] = []"
| "print_schema_loop debug_pt debug_rt (cur_pt # pts) =
     shown (debug_pt (''pattern: '' @ print_s (str_pattern cur_pt) @ '' retention: '' @ print_s (str_retention cur_pt))) @
     print_retentions_loop debug_rt (retention_list cur_pt) @ print_schema_loop debug_pt debug_rt pts"

definition print_storage_schema :: "string \<Rightarrow> string \<Rightarrow> string \<Rightarrow> carbon_conf \<Rightarrow> (stream \<times> string) list" where
  "print_storage_schema src_file line_pt line_rt conf =
     print_schema_loop (debug_macro conf src_file ''print_storage_schema'' line_pt)
       (debug_macro conf src_file ''print_storage_schema'' line_rt) (schema conf)"

section \<open>What is printed\<close>

lemma debug_macro_level:
  "debug_macro conf src_file func line msg \<noteq> None \<longleftrightarrow> LOG_LEVEL_DEBUG \<le> conf_log_level conf"
  by (simp add: debug_macro_def log_debug_def log_msg_def)

lemma print_conf_lines:
  "length (print_conf src_file conf) = (if LOG_LEVEL_DEBUG \<le> conf_log_level conf then 8 else 0)"
  using debug_macro_level [of conf src_file "''print_conf''"]
  by (simp add: print_conf_def conf_messages_def length_shown del: not_None_eq)

lemma print_retentions_lines:
  assumes "\<And>m. debug m \<noteq> None \<longleftrightarrow> on"
  shows "length (print_retentions_loop debug rts) = (if on then length rts else 0)"
  using assms by (induction rts) (simp_all add: length_shown del: not_None_eq)

text \<open>At the level of debugging each schema and each of its retentions has a line, at the others
  nothing is printed.\<close>

lemma print_schema_lines:
  "length (print_storage_schema src_file l m conf) =
     (if LOG_LEVEL_DEBUG \<le> conf_log_level conf then \<Sum>p\<leftarrow>schema conf. 1 + length (retention_list p) else 0)"
proof -
  let ?on = "LOG_LEVEL_DEBUG \<le> conf_log_level conf"
  have "length (print_schema_loop d e ps) = (if ?on then \<Sum>p\<leftarrow>ps. 1 + length (retention_list p) else 0)"
    if "\<And>m. d m \<noteq> None \<longleftrightarrow> ?on" "\<And>m. e m \<noteq> None \<longleftrightarrow> ?on" for d e ps
    using that print_retentions_lines [of e ?on] by (induction ps) (simp_all add: length_shown del: not_None_eq)
  then show ?thesis unfolding print_storage_schema_def using debug_macro_level by blast
qed

text \<open>When a short message is printed without tracing, the configured ports can be read off it.\<close>

lemma print_conf_ports:
  assumes "conf_log_level conf = LOG_LEVEL_DEBUG" "\<not> tracing conf"
    and "0 \<le> line_receiver_port conf" "line_receiver_port conf < 2 ^ 31"
  shows "print_conf src_file conf ! 6 =
    (Stdout, ''DEBUG:   line_receiver_port: '' @ decimal (nat (line_receiver_port conf)) @ [CHR 0x0A])"
proof -
  have "nat (line_receiver_port conf) < 10 ^ Suc 9" using assms(3,4) by simp
  from decimal_length [OF this] show ?thesis
    using assms
    by (simp add: print_conf_def conf_messages_def shown_def debug_macro_def log_debug_def log_msg_def
        print_d_def LOG_BUF_MAXSIZE_def)
qed

end
