(* ===== verification/Process_Properties.thy ===== *)
theory Process_Properties
  imports Workers Launch Conf_Bounds Conf_Print Control_Properties Store_Properties
begin

text \<open>
  The properties of the daemon as a whole: its start, the turns of its workers in any
  order, and what happens when calls of the operating system fail.
\<close>

section \<open>The start\<close>

text \<open>C10: started with files that hold the given settings, schemas and aggregations, \<open>main\<close> gets to
  its wait for the threads with this configuration and an empty database; the datagram socket
  and the listening socket have the configured ports modulo \<open>2 ^ 16\<close> and a timeout of half a
  second; the four threads are at the start of the pause protocol; and once each of them has
  blocked the signals, only the main thread handles them.\<close>

theorem daemon_starts:
  assumes "conf_files P i (default_conf sysconfdir localstatedir) ss es as" "allocator_ok P"
    and "set opts \<subseteq> {OptDebug, OptOther}"
    and "c0 = (if OptDebug \<in> set opts
      then (default_conf sysconfdir localstatedir)\<lparr>tracing := True, conf_log_level := LOG_LEVEL_DEBUG\<rparr>
      else default_conf sysconfdir localstatedir)"
    and "c = (fold apply_setting ss c0)\<lparr>schema := map schema_entry es, aggregation := agg_entries 0 as\<rparr>"
  shows "\<exists>pr. main_run P i sysconfdir localstatedir opts no_process = Inr (c, new_daemon i, pr) \<and>
    net_socks (pr_net pr) =
      [\<lparr>sk_open = True, sk_type = SOCK_DGRAM, sk_reuseaddr = True, sk_rcvtimeo = Some (0, 500000),
        sk_port = Some (word_of_int (udp_receiver_port c)), sk_backlog = None\<rparr>,
       \<lparr>sk_open = True, sk_type = SOCK_STREAM, sk_reuseaddr = True, sk_rcvtimeo = Some (0, 500000),
        sk_port = Some (word_of_int (line_receiver_port c)), sk_backlog = Some 10\<rparr>] \<and>
    system_of c pr = thread_start \<and>
    (\<forall>sig\<in>{SIGINT, SIGHUP}. \<forall>ts who. set ts = UNIV \<longrightarrow>
      (may_handle sig (fold worker_blocks ts pr) who \<longleftrightarrow> who = None))"
proof -
  have start: "main_start P i sysconfdir localstatedir opts = Inr (c, new_daemon i)"
    using main_start_files [OF assms(1-4)] by (simp add: settings_def assms(5))
  let ?pr = "no_process\<lparr>pr_net := \<lparr>net_socks = [udp_sock c, tcp_sock c], net_faults = []\<rparr>, pr_threads := launched_threads\<rparr>"
  have "main_run P i sysconfdir localstatedir opts no_process = Inr (c, new_daemon i, ?pr)"
    by (simp add: main_run_def start launch_threads)
  moreover have "system_of c ?pr = thread_start"
    using main_start_ready [OF start] by (intro launched_system) simp_all
  ultimately show ?thesis
    by (intro exI [of _ ?pr]) (simp add: udp_sock_def tcp_sock_def blocked_handles)
qed

theorem daemon_starts_witness:
  "\<exists>c pr. main_run tiny_platform conf_fs ''/e'' ''/s'' [OptDebug] no_process = Inr (c, new_daemon conf_fs, pr) \<and>
     map sk_port (net_socks (pr_net pr)) = [Some 2003, Some 2004] \<and> system_of c pr = thread_start"
proof -
  define c where "c = (fold apply_setting two_settings ((default_conf ''/e'' ''/s'')\<lparr>tracing := True,
      conf_log_level := LOG_LEVEL_DEBUG\<rparr>))\<lparr>schema := map schema_entry [tiny_entry], aggregation := agg_entries 0 two_stanzas\<rparr>"
  have "udp_receiver_port c = 2003" "line_receiver_port c = 2004"
    by (simp_all add: c_def two_settings_def default_conf_def)
  then show ?thesis
    using daemon_starts [OF conf_fs_files tiny_alloc _ refl, of "[OptDebug]" c] by (auto simp: c_def)
qed

text \<open>A receiver whose port is taken gets a socket without an address, and a thread that
  cannot be created is not noticed for the monitoring and the datagram receiver: \<open>main\<close>
  goes on and later joins a thread that was never started.\<close>

lemma receiver_without_address:
  assumes "net_faults s = []" "k \<in> set (net_socks s)"
    and "sk_open k" "sk_type k = SOCK_DGRAM" "sk_port k = Some (word_of_int (udp_receiver_port conf))"
  shows "\<exists>s'. receiver_udp_socket conf s = Inr (int (length (net_socks s)), s') \<and>
    sk_port (net_socks s' ! length (net_socks s)) = None"
  using socket_udp_port_taken [OF assms] by simp

lemma thread_not_created:
  "launch_monitoring_thread (no_process\<lparr>pr_create := [False]\<rparr>) = Inr (thread_init ''monitoring'', no_process) \<and>
   launch_writer_thread (no_process\<lparr>pr_create := [False]\<rparr>) = Inl (Exit 1)"
  by (simp add: launch_monitoring_thread_def launch_writer_thread_def pthread_create_def andthen_def ret_def halt_def
      thread_init_def no_process_def)

section \<open>Well formed configurations\<close>

text \<open>C11: whatever the files hold, the configuration that \<open>main\<close> starts with is well formed: its
  paths fit their buffers and its patterns are words of one line. It stays so through any
  number of reloads, and therefore the copy that the next reload makes fits its blocks.\<close>

theorem configuration_wf:
  assumes "main_start P i sysconfdir localstatedir opts = Inr (c, d)" "set opts \<subseteq> {OptHelp, OptDebug, OptOther}"
    and "path_fits (sysconfdir @ ''/carbon.conf'')" "path_fits localstatedir"
    and "conf_reloads P fss c = Inr c'" "allocator_ok P"
  shows "conf_wf c' \<and>
    (\<forall>m n. conf_at (blocks m) n c' \<and> owned m (conf_foot n) \<longrightarrow>
      (\<exists>n' m'. new_conf_copy P (cn_addr n) m = Inr (cn_addr n', m') \<and> conf_at (blocks m') n' (conf_copy c')))"
proof -
  have wf: "conf_wf c'" by (rule conf_reloads_wf [OF main_start_wf [OF assms(1-4)] assms(5)])
  have "\<exists>n' m'. new_conf_copy P (cn_addr n) m = Inr (cn_addr n', m') \<and> conf_at (blocks m') n' (conf_copy c')"
    if "conf_at (blocks m) n c'" "owned m (conf_foot n)" for m n
    using new_conf_copy_spec [OF that assms(6) conf_wf_paths [OF wf]]
    by (intro exI [of _ "copy_node (fresh m)"]) (auto simp: copy_node_def conf_copy_def)
  then show ?thesis using wf by blast
qed

theorem configuration_wf_witness:
  "\<exists>c c'. main_start tiny_platform conf_fs ''/e'' ''/s'' [] = Inr (c, new_daemon conf_fs) \<and>
     conf_reloads tiny_platform [conf_fs] c = Inr c' \<and> conf_wf c'"
proof -
  let ?c0 = "default_conf ''/e'' ''/s''"
  define c where "c = (settings two_settings ?c0)\<lparr>schema := map schema_entry [tiny_entry], aggregation := agg_entries 0 two_stanzas\<rparr>"
  have start: "main_start tiny_platform conf_fs ''/e'' ''/s'' [] = Inr (c, new_daemon conf_fs)"
    using main_start_files [OF conf_fs_files tiny_alloc _ refl, of "[]"] by (simp add: c_def)
  have "conf_files tiny_platform conf_fs c two_settings [tiny_entry] two_stanzas"
    using conf_fs_files by (rule conf_files_cong) (simp_all add: c_def settings_lists settings_twice)
  then have re: "conf_reloads tiny_platform [conf_fs] c = Inr (settings two_settings c\<lparr>schema := map schema_entry [tiny_entry], aggregation := agg_entries 0 two_stanzas\<rparr>)"
    using conf_reload_files [of tiny_platform conf_fs c two_settings "[tiny_entry]" two_stanzas] tiny_alloc by simp
  have "path_fits (''/e'' @ ''/carbon.conf'')" "path_fits ''/s''" by (simp_all add: path_fits_def)
  then show ?thesis using configuration_wf [OF start _ _ _ re tiny_alloc] start re by simp
qed

section \<open>Calls that fail\<close>

text \<open>C6: whatever calls fail or are cut short, a write of a value changes no file but the one of
  its metric and does not remove that one; it removes no directory and makes none but the
  storage directory and those on the way to the file; and it touches no descriptor but one that was
  free before. When it reports success it leaves no descriptor open.\<close>

theorem write_value_confined:
  assumes "whisper_write_value P cf name ts v s = Inr (r, s')" "whisper_metric_filename P cf name = Inr fn"
  shows "\<exists>fd. lookup_fd s fd = None \<and> (\<forall>k. k \<noteq> fd \<longrightarrow> lookup_fd s' k = lookup_fd s k) \<and>
    (\<forall>q. q \<noteq> components fn \<longrightarrow> fs_files s' q = fs_files s q) \<and>
    (fs_files s (components fn) \<noteq> None \<longrightarrow> fs_files s' (components fn) \<noteq> None) \<and>
    (\<forall>q. fs_dirs s q \<longrightarrow> fs_dirs s' q) \<and>
    (\<forall>q. fs_dirs s' q \<longrightarrow> fs_dirs s q \<or> q = components (storage_dir cf) \<or> prefix q (components fn)) \<and>
    (r = EXIT_SUCCESS \<longrightarrow> lookup_fd s' = lookup_fd s)"
  using write_value_frame [OF assms refl] unfolding confined_def by blast

text \<open>When the header cannot be read, the write fails and its descriptor stays open.\<close>

lemma read_failure_leaks:
  assumes "whisper_metric_filename P cf name = Inr fn" "fs_faults s = [NoFault, NoFault, Fail e]" "fn \<noteq> []"
    and "\<not> fs_dirs s (components fn)" "fs_files s (components fn) = Some c" "fs_fds s = []"
  shows "\<exists>s'. whisper_write_value P cf name ts v s = Inr (EXIT_FAILURE, s') \<and> lookup_fd s' 0 \<noteq> None"
  using assms
  by (simp add: whisper_write_value_def whisper_open_def whisper_update_def whisper_read_metadata_def whisper_seek_def
      posix_open_def posix_lseek_def posix_read_def new_fd_def next_fault_def fails_def set_pos_def lookup_fd_def andthen_def ret_def)

definition broken_disk :: wsp_state where
  "broken_disk = sample_stored\<lparr>fs_faults := [NoFault, NoFault, Fail EIO]\<rparr>"

theorem write_value_confined_witness:
  "\<exists>s' fd. whisper_write_value sample_platform sample_conf ''a.b'' 35 7 broken_disk = Inr (EXIT_FAILURE, s') \<and>
     lookup_fd s' 0 \<noteq> None \<and> (\<forall>k. k \<noteq> fd \<longrightarrow> lookup_fd s' k = None) \<and>
     (\<forall>q. q \<noteq> metric_path sample_conf ''a.b'' \<longrightarrow> fs_files s' q = None)"
proof -
  note fn = metric_filename_ready [OF sample_ready(2)]
  have "fs_files broken_disk (metric_path sample_conf ''a.b'') = Some sample_file"
    "\<not> fs_dirs broken_disk (metric_path sample_conf ''a.b'')" "lookup_fd broken_disk = (\<lambda>_. None)"
    "\<And>q. q \<noteq> metric_path sample_conf ''a.b'' \<Longrightarrow> fs_files broken_disk q = None"
    by (auto simp: sample_path sample_stored_def sample_state_def broken_disk_def lookup_fd_def)
  note disk = this
  obtain s' where s': "whisper_write_value sample_platform sample_conf ''a.b'' 35 7 broken_disk = Inr (EXIT_FAILURE, s')"
    "lookup_fd s' 0 \<noteq> None"
    using read_failure_leaks [OF fn(1), of broken_disk EIO sample_file 35 7] fn disk
    by (auto simp: broken_disk_def sample_stored_def sample_state_def)
  show ?thesis using write_value_confined [OF s'(1) fn(1)] s' disk(3,4) by (auto simp: fn(3))
qed

text \<open>C35: the writer does not look at the result of a write. While the files cannot be opened, a
  turn takes all points of a metric out of the database, and no file has them.\<close>

theorem failed_writes_lose:
  assumes "db_inv s" "counts_fit (db_abs s)" "pending (db_abs s) \<noteq> 0" "e \<noteq> ENOENT"
    and "\<forall>n\<in>fst ` set (db_abs s). \<exists>fn. whisper_metric_filename P cf n = Inr fn"
    and "\<forall>n. length (points_of n (db_abs s)) \<le> k" "fs_faults (io s) = replicate k (Fail e)"
  shows "\<exists>n s'. writer_turn P cf s = Inr (True, s') \<and> db_inv s' \<and> points_of n (db_abs s) \<noteq> [] \<and>
    db_abs s' = drain n (db_abs s) \<and> fs_files (io s') = fs_files (io s)"
proof -
  obtain n where n: "n \<in> fst ` set (db_abs s)" "points_of n (db_abs s) \<noteq> []"
    "case write_all P cf n (points_of n (db_abs s)) (io s) of
          Inl e \<Rightarrow> writer_turn P cf s = Inl e
        | Inr (_, i) \<Rightarrow> \<exists>s'. writer_turn P cf s = Inr (True, s') \<and> db_inv s' \<and>
            db_abs s' = drain n (db_abs s) \<and> io s' = i"
    using writer_turn_refines [OF assms(1,2), of P cf] assms(3) by blast
  let ?ps = "points_of n (db_abs s)"
  obtain fn where fn: "whisper_metric_filename P cf n = Inr fn" using assms(5) n(1) by blast
  have "k = length ?ps + (k - length ?ps)" using assms(6) by simp
  then have "fs_faults (io s) = replicate (length ?ps) (Fail e) @ replicate (k - length ?ps) (Fail e)"
    unfolding assms(7) by (metis replicate_add)
  with write_all_fails [OF assms(4) fn] obtain i where "write_all P cf n ?ps (io s) = Inr ((), i)"
    "fs_files i = fs_files (io s)" by blast
  then show ?thesis using n(2,3) by auto
qed

definition full_disk :: daemon where
  "full_disk = one_daemon\<lparr>io := (io one_daemon)\<lparr>fs_faults := [Fail EACCES]\<rparr>\<rparr>"

theorem failed_writes_lose_witness:
  "\<exists>n s'. writer_turn plain_platform plain_conf full_disk = Inr (True, s') \<and> points_of n (db_abs full_disk) \<noteq> [] \<and>
     points_of n (db_abs s') = [] \<and> fs_files (io s') = fs_files (io full_disk)"
proof -
  have db: "db_inv full_disk" "db_abs full_disk = [(''a'', [(30, 7)])]"
    using one_daemon_inv by (simp_all add: full_disk_def db_abs_io)
  have "tokens ''.'' ''a'' = [''a'']" using tokens_join [of "[''a'']" "''.''" "CHR ''.''"] by simp
  then have "\<exists>fn. whisper_metric_filename plain_platform plain_conf ''a'' = Inr fn"
    by (simp add: metric_filename_spec plain_platform_def plain_conf_def glibc_usable_def below_def)
  then have fn: "\<forall>n\<in>fst ` set (db_abs full_disk). \<exists>fn. whisper_metric_filename plain_platform plain_conf n = Inr fn"
    by (simp add: db)
  have "counts_fit (db_abs full_disk)" "pending (db_abs full_disk) \<noteq> 0" "EACCES \<noteq> ENOENT"
    "\<forall>n. length (points_of n (db_abs full_disk)) \<le> 1" "fs_faults (io full_disk) = replicate 1 (Fail EACCES)"
    by (simp_all add: db counts_fit_def pending_def points_of_def) (simp add: full_disk_def)
  from failed_writes_lose [OF db(1) this(1-3) fn this(4,5)] show ?thesis
    by (metis points_of_drain)
qed

section \<open>The writer alone\<close>

text \<open>C18: as many turns of the writer as there are metrics with points hand every point that waits to
  the storage, each of them once and those of a metric in their order, and leave the
  database empty, unless a write stops the process; what was handed on by then is the
  beginning of that.\<close>

theorem writer_drains:
  assumes "db_inv s" "pending (db_abs s) < 2 ^ 32" "length (filter (\<lambda>(n, ps). ps \<noteq> []) (db_abs s)) \<le> k"
  shows "(\<exists>es e. writer_turns P cf k s = Inl e \<and> replay P es (io s) = Inl e \<and>
      (\<forall>n. prefix (written n es) (points_of n (db_abs s)))) \<or>
    (\<exists>es s'. writer_turns P cf k s = Inr ((), s') \<and> db_inv s' \<and> pending (db_abs s') = 0 \<and>
      replay P es (io s) = Inr ((), io s') \<and> (\<forall>n. written n es = points_of n (db_abs s)))"
proof -
  have empty: "pending (db_abs s') = 0" if "writer_turns P cf k s = Inr ((), s')" for s'
    using writer_turns_backlog [OF assms(1) pending_counts [OF assms(2)], of P cf k] assms(3) that
    by (auto simp flip: backlog_pending simp: backlog_def)
  then show ?thesis
    using writer_turns_hand_on [OF assms(1,2), of P cf k] pending_zero
    by (fastforce simp: begins_with_def hands_on_def of_metric_def)
qed

theorem writer_drains_witness:
  "\<exists>es. (\<exists>e. writer_turns plain_platform plain_conf 1 one_daemon = Inl e \<and> replay plain_platform es (io one_daemon) = Inl e) \<or>
    (\<exists>s'. writer_turns plain_platform plain_conf 1 one_daemon = Inr ((), s') \<and> pending (db_abs s') = 0 \<and>
      written ''a'' es = [(30, 7)])"
proof -
  have "pending (db_abs one_daemon) < 2 ^ 32" "length (filter (\<lambda>(n, ps). ps \<noteq> []) (db_abs one_daemon)) \<le> 1"
    "points_of ''a'' (db_abs one_daemon) = [(30, 7)]"
    by (simp_all add: one_daemon_inv pending_def points_of_def)
  with writer_drains [OF one_daemon_inv(1) this(1,2), of plain_platform plain_conf] show ?thesis by metis
qed

end
