(* ===== verification/Conf_Heap.thy ===== *)
theory Conf_Heap
  imports Conf_Bounds Conf_Append
begin

text \<open>
  The means to relate an operation on the blocks of a configuration with the operation on
  the configuration itself: a refinement of results with rules for sequences, what a
  memory with one configuration looks like, and lists that grow at their end. The first use is
  the parser of the retentions, which builds a linked list.
\<close>

section \<open>Refinement of results\<close>

text \<open>
  The program \<open>f\<close> run on \<open>m\<close> stops for the reason for which the specification \<open>g\<close> stops, and
  otherwise ends with a result and a memory that \<open>R\<close> relates to the result of \<open>g\<close>.
\<close>

definition refines :: "('x \<Rightarrow> mem \<Rightarrow> 'y \<Rightarrow> bool) \<Rightarrow> (mem, 'x) prog \<Rightarrow> mem \<Rightarrow> stop + 'y \<Rightarrow> bool" where
  "refines R f m g \<longleftrightarrow> (case g of Inl e \<Rightarrow> f m = Inl e | Inr y \<Rightarrow> \<exists>x m'. f m = Inr (x, m') \<and> R x m' y)"

named_theorems refine_intros

lemma refines_bind [refine_intros]:
  assumes "refines R f m g" "\<And>x m' y. R x m' y \<Longrightarrow> refines S (k x) m' (h y)"
  shows "refines S (andthen f k) m (bind_sum g h)"
proof (cases g)
  case (Inr y)
  then obtain x m' where "f m = Inr (x, m')" "R x m' y" using assms(1) by (auto simp: refines_def)
  with assms(2) [of x m' y] Inr show ?thesis by (simp add: refines_def andthen_def bind_sum_def split: sum.splits)
qed (use assms(1) in \<open>simp add: refines_def andthen_def bind_sum_def\<close>)

lemma refines_step:
  assumes "f m = Inr (x, m')" "refines R (k x) m' g"
  shows "refines R (andthen f k) m g"
  using assms by (simp add: refines_def andthen_def split: sum.splits)

lemma refines_stop: "f m = Inl e \<Longrightarrow> refines R (andthen f k) m (Inl e)"
  by (simp add: refines_def andthen_def)

lemma refines_ret [refine_intros]: "R x m y \<Longrightarrow> refines R (ret x) m (Inr y)"
  by (simp add: refines_def)

lemma refines_Inr: "f m = Inr (x, m') \<Longrightarrow> R x m' y \<Longrightarrow> refines R f m (Inr y)"
  by (simp add: refines_def)

lemma refines_halt [refine_intros]: "refines R (halt e) m (Inl e)"
  by (simp add: refines_def)

text \<open>A computation without state is its own specification.\<close>

lemma refines_pure [refine_intros]:
  assumes "\<And>y. g = Inr y \<Longrightarrow> refines R (k y) m (h y)"
  shows "refines R (andthen (pure_prog g) k) m (bind_sum g h)"
  using assms by (cases g) (simp_all add: refines_def andthen_def bind_sum_def pure_prog_def)

lemma refines_weaken: "refines R f m g \<Longrightarrow> (\<And>x m' y. R x m' y \<Longrightarrow> S x m' y) \<Longrightarrow> refines S f m g"
  by (auto simp: refines_def split: sum.splits)

text \<open>A further step behind a refinement that only changes the memory.\<close>

lemma refines_then:
  assumes "refines R f m g" "\<And>x m' y. R x m' y \<Longrightarrow> \<exists>z m''. k x m' = Inr (z, m'') \<and> S z m'' y"
  shows "refines S (andthen f k) m g"
  using assms by (cases g) (fastforce simp: refines_def andthen_def)+

lemma refines_Inl_iff [simp]: "refines R f m (Inl e) \<longleftrightarrow> f m = Inl e"
  by (simp add: refines_def)

lemma refinesE:
  assumes "refines R f m (Inr y)"
  obtains x m' where "f m = Inr (x, m')" "R x m' y"
  using assms by (auto simp: refines_def)

section \<open>A memory with a configuration\<close>

text \<open>
  The memory consists of the blocks of the configuration \<open>c\<close>, given by \<open>n\<close>, and of the blocks
  \<open>F\<close>. Addresses from \<open>fresh\<close> on are not in use.
\<close>

definition holds :: "block heap \<Rightarrow> mem \<Rightarrow> conf_node \<Rightarrow> carbon_conf \<Rightarrow> bool" where
  "holds F m n c \<longleftrightarrow> conf_at (blocks m) n c \<and> owned m (conf_foot n) \<and>
     blocks m |` (- set (conf_foot n)) = F \<and> dom F \<subseteq> {..<fresh m}"

lemma holds_unused:
  assumes "holds F m n c" "fresh m \<le> a"
  shows "blocks m a = None" "F a = None" "a \<notin> set (conf_foot n)"
proof -
  show F: "F a = None" using assms by (force simp: holds_def)
  show out: "a \<notin> set (conf_foot n)" using assms by (force simp: holds_def owned_def)
  have "(blocks m |` (- set (conf_foot n))) a = None" using assms(1) F by (simp add: holds_def)
  then show "blocks m a = None" using out by simp
qed

lemma rets_foot: "list_at ret_at h p rs \<Longrightarrow> set (concat (map ret_foot rs)) \<subseteq> dom h"
proof (induction rs arbitrary: p)
  case (Cons r rs)
  then show ?case by (cases r) (auto split: option.splits block.splits if_splits)
qed simp

lemma pret_foot_used: "pret_at h p e = Some nx \<Longrightarrow> set (pret_foot e) \<subseteq> dom h"
proof -
  assume "pret_at h p e = Some nx"
  then obtain c where c: "h (pn_addr e) = Some (Pret c)" "h (pn_pattern e) = Some (Str (str_pattern (pn_entry e)))"
    "if pn_retention e = None then str_retention (pn_entry e) = [] else str_at h (pn_retention e) (str_retention (pn_entry e))"
    "list_at ret_at h (pc_list c) (pn_rets e)"
    by (elim pret_at_cases)
  have "set (ptr_foot (pn_retention e)) \<subseteq> dom h"
    using c(3) by (cases "pn_retention e") (auto simp: ptr_foot_def str_at_def)
  then show ?thesis using c(1,2) rets_foot [OF c(4)] by (auto simp: pret_foot_def)
qed

lemma list_foot_used:
  assumes "\<And>p e nx. at h p e = Some nx \<Longrightarrow> set (foot e) \<subseteq> dom h"
  shows "list_at at h p es \<Longrightarrow> set (concat (map foot es)) \<subseteq> dom h"
proof (induction es arbitrary: p)
  case (Cons e es)
  then obtain nx where nx: "at h p e = Some nx" "list_at at h nx es" by (auto split: option.splits)
  then show ?case using assms [OF nx(1)] Cons.IH [OF nx(2)] by simp
qed simp

lemma conf_at_foot:
  assumes "conf_at h n c"
  shows "set (conf_foot n) \<subseteq> dom h"
proof -
  obtain cc where cc: "h (cn_addr n) = Some (Conf cc)" "h (cn_dir n) = Some (Str (conf_dir c))"
    "h (cn_file n) = Some (Str (conf_file c))" "h (cn_storage n) = Some (Str (storage_dir c))"
    "list_at pret_at h (cc_schema cc) (cn_schema n)" "list_at agg_at h (cc_aggregation cc) (cn_aggs n)"
    using assms by (elim conf_at_cases)
  have "set (agg_foot e) \<subseteq> dom h" if "agg_at h p e = Some nx" for p e nx
    using that by (elim agg_at_cases) (auto simp: agg_foot_def)
  from list_foot_used [OF this cc(6)] list_foot_used [OF pret_foot_used cc(5)]
  show ?thesis using cc(1-4) by (auto simp: conf_foot_def)
qed

lemma holds_dom:
  assumes "holds F m n c"
  shows "dom (blocks m) = dom F \<union> set (conf_foot n)" "dom F \<inter> set (conf_foot n) = {}" "F \<subseteq>\<^sub>m blocks m"
proof -
  have F: "F = blocks m |` (- set (conf_foot n))" using assms by (simp add: holds_def)
  have "set (conf_foot n) \<subseteq> dom (blocks m)" using assms conf_at_foot [of "blocks m" n c] by (simp add: holds_def)
  then show "dom (blocks m) = dom F \<union> set (conf_foot n)" by (auto simp: F)
  show "dom F \<inter> set (conf_foot n) = {}" by (auto simp: F)
  show "F \<subseteq>\<^sub>m blocks m" unfolding F map_le_def by (simp add: restrict_map_def dom_def)
qed

text \<open>A step that works on the blocks of the configuration and on new ones.\<close>

lemma holds_step:
  assumes old: "holds F m n c" and new: "conf_at (blocks m') n' c'" "owned m' (conf_foot n')"
    and grow: "fresh m \<le> fresh m'" "\<And>a. a \<in> set (conf_foot n') \<Longrightarrow> a \<notin> set (conf_foot n) \<Longrightarrow> fresh m \<le> a"
    and rest: "\<And>a. a \<notin> set (conf_foot n') \<Longrightarrow>
      blocks m' a = (if a \<in> set (conf_foot n) then None else blocks m a)"
  shows "holds F m' n' c'"
proof -
  have F: "F = blocks m |` (- set (conf_foot n))" using old by (simp add: holds_def)
  have "(blocks m' |` (- set (conf_foot n'))) a = F a" for a
  proof (cases "a \<in> set (conf_foot n')")
    case True
    then have "a \<in> set (conf_foot n) \<or> fresh m \<le> a" using grow(2) by blast
    then show ?thesis using True holds_unused(2) [OF old] by (auto simp: F)
  next
    case False
    then show ?thesis using rest [OF False] by (simp add: F)
  qed
  moreover have "dom F \<subseteq> {..<fresh m'}" using old grow(1) by (auto simp: holds_def)
  ultimately show ?thesis using new by (simp add: holds_def fun_eq_iff)
qed

lemma owned_insert:
  assumes "owned m (as @ bs)" "distinct cs" "\<And>a. a \<in> set cs \<Longrightarrow> fresh m \<le> a \<and> a < fresh m'" "fresh m \<le> fresh m'"
  shows "owned m' (as @ cs @ bs)"
proof -
  have "a < fresh m" if "a \<in> set as \<union> set bs" for a using assms(1) that by (auto simp: owned_def)
  then have "set as \<inter> set cs = {}" "set cs \<inter> set bs = {}" "\<forall>a\<in>set as \<union> set bs. a < fresh m'"
    using assms(3,4) by (fastforce dest: leD)+
  then show ?thesis using assms(1-3) by (auto simp: owned_def)
qed

section \<open>Lists that grow at their end\<close>

fun walk :: "(block heap \<Rightarrow> ptr \<Rightarrow> 'e \<Rightarrow> ptr option) \<Rightarrow> block heap \<Rightarrow> ptr \<Rightarrow> 'e list \<Rightarrow> ptr option" where
  "walk at h p [] = Some p"
| "walk at h p (e # es) = (case at h p e of None \<Rightarrow> None | Some nx \<Rightarrow> walk at h nx es)"

lemma list_at_walk: "list_at at h p es \<longleftrightarrow> walk at h p es = Some None"
  by (induction es arbitrary: p) (auto split: option.splits)

lemma walk_append: "walk at h p (es @ fs) = (case walk at h p es of None \<Rightarrow> None | Some q \<Rightarrow> walk at h q fs)"
  by (induction es arbitrary: p) (auto split: option.splits)

lemma list_at_append: "list_at at h p (es @ fs) \<longleftrightarrow> (\<exists>q. walk at h p es = Some q \<and> list_at at h q fs)"
  by (auto simp: list_at_walk walk_append split: option.splits)

context freed_entries
begin

lemma walk_cong:
  "walk at h p es = Some q \<Longrightarrow> (\<And>a. a \<in> set (concat (map foot es)) \<Longrightarrow> h' a = h a) \<Longrightarrow> walk at h' p es = Some q"
proof (induction es arbitrary: p)
  case (Cons e es)
  obtain nx where nx: "at h p e = Some nx" "walk at h nx es = Some q"
    using Cons.prems(1) by (auto split: option.splits)
  have "at h' p e = Some nx" by (rule at_cong [OF nx(1)]) (use Cons.prems(2) in auto)
  then show ?case using Cons.IH [OF nx(2)] Cons.prems(2) by simp
qed simp

text \<open>The last entry is replaced by the entries \<open>fs\<close>, the others keep their blocks.\<close>

lemma list_at_last:
  assumes "list_at at h p (es @ [e])"
    and "\<And>a. a \<in> set (concat (map foot es)) \<Longrightarrow> h' a = h a"
    and "\<And>q. at h q e = Some None \<Longrightarrow> list_at at h' q fs"
  shows "list_at at h' p (es @ fs)"
proof -
  obtain q where q: "walk at h p es = Some q" "list_at at h q [e]"
    using assms(1) by (auto simp: list_at_append)
  then have "at h q e = Some None" by (auto split: option.splits)
  then show ?thesis using walk_cong [OF q(1) assms(2)] assms(3) by (auto simp: list_at_append)
qed

end

section \<open>Retentions\<close>

definition ret_block :: "retention \<Rightarrow> ptr \<Rightarrow> ret_cell" where
  "ret_block r nx = \<lparr>time_per_point = time_per_point r, time_to_store = time_to_store r, rc_next = nx\<rparr>"

lemma ret_block_simps [simp]: "retention.truncate (ret_block r nx) = r" "rc_next (ret_block r nx) = nx"
  by (simp_all add: ret_block_def retention.defs)

text \<open>\<open>parse_retention_item_str\<close>: a cleared block that gets its two durations.\<close>

definition parse_retention_item_mem :: "string \<Rightarrow> (mem, addr) prog" where
  "parse_retention_item_mem str_retention_item =
     andthen (alloc (Ret \<lparr>time_per_point = 0, time_to_store = 0, rc_next = None\<rparr>)) (\<lambda>retention_res.
     case strtok_r '':'' str_retention_item of
       None \<Rightarrow> halt NullDeref
     | Some (time_per_point_str, saveptr) \<Rightarrow>
         andthen (pure_prog (str_to_seconds time_per_point_str)) (\<lambda>tpp.
         andthen (store retention_res (Ret \<lparr>time_per_point = tpp, time_to_store = 0, rc_next = None\<rparr>)) (\<lambda>_.
         case strtok_r '':'' saveptr of
           None \<Rightarrow> halt NullDeref
         | Some (time_to_store_str, _) \<Rightarrow>
             andthen (pure_prog (str_to_seconds time_to_store_str)) (\<lambda>tts.
             andthen (store retention_res (Ret \<lparr>time_per_point = tpp, time_to_store = tts, rc_next = None\<rparr>)) (\<lambda>_.
             ret retention_res)))))"

text \<open>The loop of \<open>parse_retention_list_str\<close> behind the first item.\<close>

function retention_items_loop :: "addr \<Rightarrow> string \<Rightarrow> (mem, unit) prog" where
  "retention_items_loop cur_retention pair_list =
     (case strtok_r '','' pair_list of
        None \<Rightarrow> ret ()
      | Some (str_retention_item, pair_list') \<Rightarrow>
          andthen (parse_retention_item_mem str_retention_item) (\<lambda>new.
          andthen (load_ret cur_retention) (\<lambda>c.
          andthen (store cur_retention (Ret (c\<lparr>rc_next := Some new\<rparr>))) (\<lambda>_.
          retention_items_loop new pair_list'))))"
  by pat_completeness auto
termination
  by (relation "measure (\<lambda>(a, s). length s)") (auto simp: strtok_r_shorter)

declare retention_items_loop.simps [simp del]

text \<open>The copy of the string is a block of its own, cut by \<open>strtok_r\<close> and freed at the end.\<close>

definition parse_retention_list_mem :: "platform \<Rightarrow> string \<Rightarrow> (mem, ptr) prog" where
  "parse_retention_list_mem P str_retention_list =
     (if usable P (length str_retention_list + 1) < length str_retention_list + 1 then halt HeapOverflow
      else andthen (alloc (Str str_retention_list)) (\<lambda>tmp.
           andthen (case strtok_r '','' str_retention_list of
               None \<Rightarrow> ret None
             | Some (str_retention_item, pair_list) \<Rightarrow>
                 andthen (parse_retention_item_mem str_retention_item) (\<lambda>first.
                 andthen (retention_items_loop first pair_list) (\<lambda>_. ret (Some first)))) (\<lambda>retention_list.
           andthen (free (Some tmp)) (\<lambda>_. ret retention_list))))"

text \<open>The blocks of a list that was made one entry after the other, from the address \<open>f\<close> on.\<close>

fun put_rets :: "addr \<Rightarrow> retention list \<Rightarrow> block heap \<Rightarrow> block heap" where
  "put_rets f [] h = h"
| "put_rets f (r # rs) h = (put_rets (Suc f) rs h)(f \<mapsto> Ret (ret_block r (if rs = [] then None else Some (Suc f))))"

fun ret_nodes :: "addr \<Rightarrow> retention list \<Rightarrow> ret_node list" where
  "ret_nodes f [] = []"
| "ret_nodes f (r # rs) = (f, r) # ret_nodes (Suc f) rs"

lemma ret_nodes_foot: "concat (map ret_foot (ret_nodes f rs)) = [f..<f + length rs]"
  by (induction rs arbitrary: f) (simp_all add: upt_rec)

lemma ret_nodes_entries [simp]: "map snd (ret_nodes f rs) = rs"
  by (induction rs arbitrary: f) simp_all

lemma put_rets_outside: "a \<notin> {f..<f + length rs} \<Longrightarrow> put_rets f rs h a = h a"
  by (induction rs arbitrary: f) auto

lemma put_rets_upd: "a < f \<Longrightarrow> put_rets f rs (h(a := x)) = (put_rets f rs h)(a := x)"
  by (induction rs arbitrary: f) (auto simp: fun_upd_twist)

lemma put_rets_single: "h f = Some (Ret (ret_block r None)) \<Longrightarrow> put_rets f [r] h = h"
  by (simp add: fun_upd_idem)

lemma put_rets_at:
  "list_at ret_at (put_rets f rs h) (if rs = [] then None else Some f) (ret_nodes f rs)"
proof (induction rs arbitrary: f)
  case (Cons r rs)
  have "list_at ret_at (put_rets f (r # rs) h) (if rs = [] then None else Some (Suc f)) (ret_nodes (Suc f) rs)"
    using Cons.IH by (rule rets.entries_cong) (auto simp: ret_nodes_foot)
  moreover have "ret_at (put_rets f (r # rs) h) (Some f) (f, r) = Some (if rs = [] then None else Some (Suc f))" by simp
  ultimately show ?case by (simp del: put_rets.simps ret_at.simps)
qed simp

lemma parse_item_refines:
  "refines (\<lambda>a m' r. a = fresh m \<and> m' = m\<lparr>blocks := (blocks m)(fresh m \<mapsto> Ret (ret_block r None)), fresh := Suc (fresh m)\<rparr>)
     (parse_retention_item_mem item) m (parse_retention_item_str item)"
  by (auto simp: refines_def parse_retention_item_mem_def parse_retention_item_str_def mem_simps bind_sum_def
      pure_prog_def ret_block_def split: option.splits sum.splits)

lemma items_loop_refines:
  "blocks m cur = Some (Ret (ret_block r None)) \<Longrightarrow> fresh m = Suc cur \<Longrightarrow>
   refines (\<lambda>_ m' rs. m' = m\<lparr>blocks := put_rets cur (r # rs) (blocks m), fresh := Suc cur + length rs\<rparr>)
     (retention_items_loop cur s) m (parse_retention_list_str s)"
proof (induction s arbitrary: cur r m rule: parse_retention_list_str.induct)
  case (1 s)
  show ?case
  proof (cases "strtok_r '','' s")
    case None
    then have "retention_items_loop cur s m = Inr ((), m)" "parse_retention_list_str s = Inr []"
      by (simp_all add: retention_items_loop.simps [of _ s] parse_retention_list_str.simps [of s])
    then show ?thesis
      using "1.prems" by (simp add: refines_def put_rets_single del: put_rets.simps)
  next
    case (Some ir)
    obtain item rest where ir: "ir = (item, rest)" by (cases ir)
    show ?thesis
    proof (cases "parse_retention_item_str item")
      case (Inl e)
      then show ?thesis
        using parse_item_refines [of m item] Some ir
        by (simp add: retention_items_loop.simps [of _ s] parse_retention_list_str.simps [of s] bind_sum_def andthen_def)
    next
      case (Inr r')
      let ?m1 = "m\<lparr>blocks := (blocks m)(Suc cur \<mapsto> Ret (ret_block r' None)), fresh := Suc (Suc cur)\<rparr>"
      let ?m2 = "?m1\<lparr>blocks := (blocks ?m1)(cur \<mapsto> Ret (ret_block r (Some (Suc cur))))\<rparr>"
      have step: "retention_items_loop cur s m = retention_items_loop (Suc cur) rest ?m2"
        using parse_item_refines [of m item] Some ir Inr "1.prems"
        by (simp add: retention_items_loop.simps [of cur s] refines_def mem_simps) (simp add: ret_block_def)
      have "refines (\<lambda>_ m' rs. m' = ?m2\<lparr>blocks := put_rets (Suc cur) (r' # rs) (blocks ?m2), fresh := Suc (Suc cur) + length rs\<rparr>)
          (retention_items_loop (Suc cur) rest) ?m2 (parse_retention_list_str rest)"
        by (rule "1.IH" [OF Some ir [symmetric]]) (simp_all add: ir)
      moreover have "put_rets (Suc cur) (r' # rs) (blocks ?m2) = put_rets cur (r # r' # rs) (blocks m)" for rs
        by (simp add: put_rets_upd fun_upd_twist)
      ultimately have loop: "refines (\<lambda>_ m' rs. m' = m\<lparr>blocks := put_rets cur (r # r' # rs) (blocks m), fresh := Suc (Suc cur) + length rs\<rparr>)
          (retention_items_loop (Suc cur) rest) ?m2 (parse_retention_list_str rest)"
        by (simp del: put_rets.simps add: "1.prems")
      show ?thesis
        using Some ir Inr loop
        by (cases "parse_retention_list_str rest")
          (simp_all add: parse_retention_list_str.simps [of s] refines_def bind_sum_def step del: put_rets.simps)
    qed
  qed
qed

lemma first_retention_refines:
  assumes alloc: "allocator_ok P" and none: "blocks m (fresh m) = None"
    and some: "strtok_r '','' s = Some (item, rest)" and r: "parse_retention_item_str item = Inr r"
  shows "refines (\<lambda>p m' rs. p = (if rs = [] then None else Some (Suc (fresh m))) \<and>
      m' = m\<lparr>blocks := put_rets (Suc (fresh m)) rs (blocks m), fresh := Suc (fresh m) + length rs\<rparr>)
    (parse_retention_list_mem P s) m (parse_retention_list_str s)"
proof -
  let ?f = "fresh m"
  let ?m0 = "m\<lparr>blocks := (blocks m)(?f \<mapsto> Str s), fresh := Suc ?f\<rparr>"
  let ?m1 = "?m0\<lparr>blocks := (blocks ?m0)(Suc ?f \<mapsto> Ret (ret_block r None)), fresh := Suc (Suc ?f)\<rparr>"
  have room: "\<not> usable P (length s + 1) < length s + 1" using alloc by (simp add: allocator_ok_def not_less)
  have freed: "(put_rets (Suc ?f) rs ((blocks m)(?f \<mapsto> Str s)))(?f := None) = put_rets (Suc ?f) rs (blocks m)" for rs
    using none by (simp add: put_rets_outside put_rets_upd fun_upd_idem)
  have item: "parse_retention_item_mem item ?m0 = Inr (Suc ?f, ?m1)"
    using parse_item_refines [of ?m0 item] r by (simp add: refines_def)
  note loop = items_loop_refines [of ?m1 "Suc ?f" r rest]
  have eq: "put_rets (Suc ?f) (r # rs) (blocks ?m1) = put_rets (Suc ?f) (r # rs) ((blocks m)(?f \<mapsto> Str s))" for rs
    by (simp add: put_rets_upd)
  show ?thesis
  proof (cases "parse_retention_list_str rest")
    case (Inl e)
    then have "retention_items_loop (Suc ?f) rest ?m1 = Inl e" using loop by simp
    then show ?thesis
      using some r Inl room item
      by (simp add: parse_retention_list_mem_def parse_retention_list_str.simps [of s] bind_sum_def andthen_def alloc_def)
  next
    case rs: (Inr rs)
    let ?m2 = "m\<lparr>blocks := put_rets (Suc ?f) (r # rs) ((blocks m)(?f \<mapsto> Str s)), fresh := Suc (Suc ?f) + length rs\<rparr>"
    have "retention_items_loop (Suc ?f) rest ?m1 = Inr ((), ?m2)"
      using loop eq [of rs] by (simp add: rs refines_def del: put_rets.simps)
    moreover have "blocks ?m2 ?f = Some (Str s)" by (simp add: put_rets_outside del: put_rets.simps)
    ultimately have "parse_retention_list_mem P s m =
        Inr (Some (Suc ?f), m\<lparr>blocks := put_rets (Suc ?f) (r # rs) (blocks m), fresh := Suc ?f + length (r # rs)\<rparr>)"
      using some room item freed [of "r # rs"]
      by (simp add: parse_retention_list_mem_def andthen_def alloc_def del: put_rets.simps)
    then show ?thesis
      using some r rs
      by (simp add: parse_retention_list_str.simps [of s] bind_sum_def refines_def del: put_rets.simps)
  qed
qed

lemma parse_retentions_refine:
  assumes "allocator_ok P" "blocks m (fresh m) = None"
  shows "refines (\<lambda>p m' rs. p = (if rs = [] then None else Some (Suc (fresh m))) \<and>
      m' = m\<lparr>blocks := put_rets (Suc (fresh m)) rs (blocks m), fresh := Suc (fresh m) + length rs\<rparr>)
    (parse_retention_list_mem P s) m (parse_retention_list_str s)"
proof -
  let ?m0 = "m\<lparr>blocks := (blocks m)(fresh m \<mapsto> Str s), fresh := Suc (fresh m)\<rparr>"
  have room: "\<not> usable P (length s + 1) < length s + 1" using assms(1) by (simp add: allocator_ok_def not_less)
  consider "strtok_r '','' s = None"
    | item rest e where "strtok_r '','' s = Some (item, rest)" "parse_retention_item_str item = Inl e"
    | item rest r where "strtok_r '','' s = Some (item, rest)" "parse_retention_item_str item = Inr r"
    by (metis option.exhaust old.prod.exhaust old.sum.exhaust)
  then show ?thesis
  proof cases
    case 1
    have "(blocks m)(fresh m := None) = blocks m" using assms(2) by (simp add: fun_upd_idem)
    then show ?thesis
      using 1 room by (simp add: parse_retention_list_mem_def parse_retention_list_str.simps [of s] refines_def mem_simps)
  next
    case (2 item rest e)
    then show ?thesis
      using parse_item_refines [of ?m0 item] room
      by (simp add: parse_retention_list_mem_def parse_retention_list_str.simps [of s] bind_sum_def mem_simps)
  next
    case (3 item rest r)
    then show ?thesis by (rule first_retention_refines [OF assms])
  qed
qed

end
