(* ===== verification/Conf_Heap_Schema.thy ===== *)
theory Conf_Heap_Schema
  imports Conf_Heap
begin

text \<open>
  The loop over the lines of a file, and the parser of the schemas on the blocks of the
  configuration. The parser appends the entry of each pattern to the linked list and fills
  it in when the retentions come; it refines the parser on lists of \<open>Conf\<close>.
\<close>

section \<open>Reading lines\<close>

text \<open>The loop of the parsers, around a body that works on memory.\<close>

function read_lines_mem :: "(string \<Rightarrow> 's \<Rightarrow> (mem, 's flow) prog) \<Rightarrow> string \<Rightarrow> 's \<Rightarrow> (mem, int \<times> 's) prog" where
  "read_lines_mem f text s =
     (case fgets (READ_BUF_MAX - 2) text of
        None \<Rightarrow> ret (0, s)
      | Some (buffer, rest) \<Rightarrow>
          andthen (f (trim_string (cstr buffer)) s) (\<lambda>r. case r of
             Leave status s' \<Rightarrow> ret (status, s')
           | Go s' \<Rightarrow> read_lines_mem f rest s'))"
  by pat_completeness auto
termination
  by (relation "measure (\<lambda>(f, text, s). length text)") (auto dest: fgets_shorter [rotated])

declare read_lines_mem.simps [simp del]

text \<open>The variables after a line, or after the parser has been left with a status.\<close>

fun flow_rel :: "('x \<Rightarrow> mem \<Rightarrow> 'y \<Rightarrow> bool) \<Rightarrow> 'x flow \<Rightarrow> mem \<Rightarrow> 'y flow \<Rightarrow> bool" where
  "flow_rel R (Go x) m (Go y) = R x m y"
| "flow_rel R (Leave st x) m (Leave st' y) = (st = st' \<and> R x m y)"
| "flow_rel R _ m _ = False"

lemma read_lines_refines:
  assumes "\<And>l x m y. line_fits l \<Longrightarrow> R x m y \<Longrightarrow> refines (flow_rel R) (f l x) m (g l y)"
  shows "R x m y \<Longrightarrow> refines (\<lambda>(st, x) m (st', y). st = st' \<and> R x m y) (read_lines_mem f content x) m (read_lines g content y)"
proof (induction "length content" arbitrary: content x m y rule: less_induct)
  case less
  show ?case
  proof (cases "fgets (READ_BUF_MAX - 2) content")
    case None
    then show ?thesis
      using less.prems by (simp add: read_lines_mem.simps [of f content] read_lines.simps [of g content] refines_def)
  next
    case (Some br)
    obtain b rest where br: "br = (b, rest)" by (cases br)
    let ?l = "trim_string (cstr b)"
    have short: "length rest < length content"
      using Some br fgets_shorter [of "READ_BUF_MAX - 2" content b rest] by simp
    have line: "refines (flow_rel R) (f ?l x) m (g ?l y)"
      using fgets_line_fits [of content b rest] Some br less.prems by (intro assms) simp_all
    show ?thesis
    proof (cases "g ?l y")
      case (Inl e)
      then show ?thesis
        using line Some br by (simp add: read_lines_mem.simps [of f content] read_lines.simps [of g content] andthen_def)
    next
      case (Inr w)
      then obtain u m' where u: "f ?l x m = Inr (u, m')" "flow_rel R u m' w" using line by (auto simp: refines_def)
      have step: "read_lines_mem f content x m = (case u of Leave st s \<Rightarrow> Inr ((st, s), m') | Go s \<Rightarrow> read_lines_mem f rest s m')"
        "read_lines g content y = (case w of Leave st s \<Rightarrow> Inr (st, s) | Go s \<Rightarrow> read_lines g rest s)"
        using Some br u(1) Inr
        by (simp_all add: read_lines_mem.simps [of f content] read_lines.simps [of g content] andthen_def split: flow.split)
      show ?thesis
      proof (cases u)
        case (Go x')
        with u(2) obtain y' where y': "w = Go y'" "R x' m' y'" by (cases w) auto
        have "read_lines_mem f content x m = read_lines_mem f rest x' m'" "read_lines g content y = read_lines g rest y'"
          using step by (simp_all add: Go y'(1))
        then show ?thesis using less.hyps [OF short y'(2)] unfolding refines_def by (simp only:)
      next
        case (Leave st x')
        with u(2) show ?thesis by (cases w) (auto simp: refines_def step)
      qed
    qed
  qed
qed

section \<open>The parser of the schemas\<close>

record schema_locals =
  sl_found :: bool
  sl_first :: ptr
  sl_cur :: ptr

definition empty_pret_cell :: pret_cell where
  "empty_pret_cell = \<lparr>pc_pattern = None, pc_retention = None, pc_list = None, pc_next = None\<rparr>"

text \<open>A cleared entry, as the first one of the configuration or behind the current one.\<close>

definition new_schema_entry :: "addr \<Rightarrow> schema_locals \<Rightarrow> (mem, addr) prog" where
  "new_schema_entry new_conf l =
     andthen (alloc (Pret empty_pret_cell)) (\<lambda>new.
     case sl_first l of
       None \<Rightarrow>
         andthen (load_conf new_conf) (\<lambda>c.
         andthen (store new_conf (Conf (c\<lparr>cc_schema := Some new\<rparr>))) (\<lambda>_. ret new))
     | Some first \<Rightarrow>
         (case sl_cur l of
            None \<Rightarrow> halt NullDeref
          | Some cur \<Rightarrow>
              andthen (load_pret cur) (\<lambda>c.
              andthen (store cur (Pret (c\<lparr>pc_next := Some new\<rparr>))) (\<lambda>_. ret new))))"

text \<open>The word behind a key, scanned into a new block which \<open>put\<close> hangs into the entry.\<close>

definition scan_to_block ::
    "platform \<Rightarrow> nat \<Rightarrow> string \<Rightarrow> string \<Rightarrow> (addr \<Rightarrow> pret_cell \<Rightarrow> pret_cell) \<Rightarrow> addr \<Rightarrow> (mem, string) prog" where
  "scan_to_block P bytes key buffer put cur =
     andthen (pure_prog (store_word P bytes (scan_value key buffer None))) (\<lambda>w.
     andthen (alloc (Str w)) (\<lambda>s.
     andthen (load_pret cur) (\<lambda>c.
     andthen (store cur (Pret (put s c))) (\<lambda>_. ret w))))"

definition schema_line_mem ::
    "platform \<Rightarrow> addr \<Rightarrow> string \<Rightarrow> schema_locals \<Rightarrow> (mem, schema_locals flow) prog" where
  "schema_line_mem P new_conf buffer l =
     (if \<not> sl_found l
      then (if string_starts_with buffer ''pattern=''
            then andthen (new_schema_entry new_conf l) (\<lambda>cur.
                 andthen (scan_to_block P PATTERN_MAX ''pattern='' buffer
                     (\<lambda>s c. c\<lparr>pc_pattern := Some s, pc_next := None\<rparr>) cur) (\<lambda>_.
                 ret (Go \<lparr>sl_found = True,
                   sl_first = (if sl_first l = None then Some cur else sl_first l), sl_cur = Some cur\<rparr>)))
            else ret (Go l))
      else if string_starts_with buffer ''retentions=''
      then (case sl_cur l of
              None \<Rightarrow> halt NullDeref
            | Some cur \<Rightarrow>
                andthen (scan_to_block P RETENTION_MAX ''retentions='' buffer
                    (\<lambda>s c. c\<lparr>pc_retention := Some s\<rparr>) cur) (\<lambda>str_retention.
                andthen (parse_retention_list_mem P str_retention) (\<lambda>rets.
                andthen (load_pret cur) (\<lambda>c.
                andthen (store cur (Pret (c\<lparr>pc_list := rets\<rparr>))) (\<lambda>_.
                ret (Go (l\<lparr>sl_found := False\<rparr>)))))))
      else ret (Go l))"

definition parse_schema_mem :: "platform \<Rightarrow> 'a fsys_scheme \<Rightarrow> addr \<Rightarrow> (mem, int) prog" where
  "parse_schema_mem P fs new_conf =
     andthen (load_conf new_conf) (\<lambda>c.
     andthen (load_str (cc_conf_dir c)) (\<lambda>conf_dir.
     andthen (pure_prog (conf_filepath conf_dir ''storage-schemas.conf'')) (\<lambda>filepath.
     case fopen_read fs filepath of
       None \<Rightarrow> ret 1
     | Some text \<Rightarrow>
         andthen (read_lines_mem (schema_line_mem P new_conf) text
             \<lparr>sl_found = False, sl_first = None, sl_cur = None\<rparr>) (\<lambda>(status, _). ret status))))"

section \<open>Another schema in the same configuration\<close>

lemma conf_at_other_schema:
  assumes at: "conf_at h n c" and cell: "h (cn_addr n) = Some (Conf cc)"
    and cell': "h' (cn_addr n) = Some (Conf (cc\<lparr>cc_schema := p\<rparr>))"
    and same: "\<And>a. a \<in> set (tl (conf_foot (n\<lparr>cn_schema := []\<rparr>))) \<Longrightarrow> h' a = h a"
    and entries: "list_at pret_at h' p ps"
  shows "conf_at h' (n\<lparr>cn_schema := ps\<rparr>) (c\<lparr>schema := map pn_entry ps\<rparr>)"
proof -
  have "list_at agg_at h q (cn_aggs n) \<Longrightarrow> list_at agg_at h' q (cn_aggs n)" for q
    by (erule aggs.entries_cong) (use same in \<open>auto simp: conf_foot_def\<close>)
  moreover have "h' (cn_dir n) = h (cn_dir n)" "h' (cn_file n) = h (cn_file n)" "h' (cn_storage n) = h (cn_storage n)"
    using same by (simp_all add: conf_foot_def)
  ultimately show ?thesis using at cell cell' entries by (simp add: conf_at_def)
qed

text \<open>The last entry of the schema: its block, and what is in it.\<close>

definition bare_node :: "addr \<Rightarrow> string \<Rightarrow> pret_node" where
  "bare_node f p = \<lparr>pn_addr = f, pn_pattern = f + 1, pn_retention = None, pn_rets = [],
     pn_entry = \<lparr>str_pattern = p, str_retention = [], retention_list = []\<rparr>\<rparr>"

definition full_node :: "pret_node \<Rightarrow> addr \<Rightarrow> string \<Rightarrow> retention list \<Rightarrow> pret_node" where
  "full_node e f s rs = e\<lparr>pn_retention := Some f, pn_rets := ret_nodes (f + 2) rs,
     pn_entry := (pn_entry e)\<lparr>str_retention := s, retention_list := rs\<rparr>\<rparr>"

text \<open>The variables of the parser and the memory, for the variables of the parser on lists.\<close>

definition schema_rel :: "block heap \<Rightarrow> addr \<Rightarrow> schema_locals \<Rightarrow> mem \<Rightarrow> schema_parser \<Rightarrow> bool" where
  "schema_rel F a l m s \<longleftrightarrow> (\<exists>n. cn_addr n = a \<and> holds F m n (sp_conf s) \<and>
     schema (sp_conf s) = sp_entries s \<and> sl_found l = sp_found s \<and>
     (sl_first l = None \<longleftrightarrow> cn_schema n = []) \<and>
     (cn_schema n \<noteq> [] \<longrightarrow> sl_cur l = Some (pn_addr (last (cn_schema n)))) \<and>
     (sp_found s \<longrightarrow> cn_schema n \<noteq> [] \<and> pn_retention (last (cn_schema n)) = None \<and> pn_rets (last (cn_schema n)) = []))"

lemma bare_node_foot: "pret_foot (bare_node f p) = [f, f + 1]"
  by (simp add: bare_node_def pret_foot_def ptr_foot_def)

lemma full_node_foot:
  "pret_foot (full_node e f s rs) = pn_addr e # pn_pattern e # f # [f + 2..<f + 2 + length rs]"
  by (simp add: full_node_def pret_foot_def ptr_foot_def ret_nodes_foot)

lemma pret_at_link:
  assumes "pret_at h p e = Some nx" "h (pn_addr e) = Some (Pret c)"
    and "h' (pn_addr e) = Some (Pret (c\<lparr>pc_next := q\<rparr>))" "\<And>a. a \<in> set (tl (pret_foot e)) \<Longrightarrow> h' a = h a"
  shows "pret_at h' p e = Some q"
proof -
  have same: "h' (pn_pattern e) = h (pn_pattern e)" using assms(4) by (simp add: pret_foot_def)
  have "list_at ret_at h r (pn_rets e) \<Longrightarrow> list_at ret_at h' r (pn_rets e)" for r
    by (erule rets.entries_cong) (use assms(4) in \<open>auto simp: pret_foot_def\<close>)
  moreover have "str_at h (pn_retention e) t \<Longrightarrow> str_at h' (pn_retention e) t" for t
    by (erule str_at_cong) (use assms(4) in \<open>auto simp: pret_foot_def\<close>)
  ultimately show ?thesis
    using assms(1-3) same by (auto simp: pret_at_def str_at_def [of _ "Some _"] split: if_splits)
qed

lemma pret_at_fill:
  assumes "pret_at h p e = Some nx" "h (pn_addr e) = Some (Pret c)"
    and "h' (pn_addr e) = Some (Pret (c\<lparr>pc_retention := Some f, pc_list := q\<rparr>))" "h' (pn_pattern e) = h (pn_pattern e)"
    and "h' f = Some (Str s)" "list_at ret_at h' q (ret_nodes (f + 2) rs)"
  shows "pret_at h' p (full_node e f s rs) = Some nx"
  using assms by (auto simp: pret_at_def full_node_def str_at_def split: if_splits)

lemma bare_node_at:
  assumes "h' f = Some (Pret \<lparr>pc_pattern = Some (f + 1), pc_retention = None, pc_list = None, pc_next = None\<rparr>)"
    and "h' (f + 1) = Some (Str p)"
  shows "pret_at h' (Some f) (bare_node f p) = Some None"
  using assms by (simp add: pret_at_def bare_node_def str_at_def)

section \<open>One line\<close>

lemma scan_to_block_run:
  assumes "store_word P k (scan_value key buffer None) = Inr w" "blocks m cur = Some (Pret c)" "cur < fresh m"
  shows "scan_to_block P k key buffer put cur m =
    Inr (w, m\<lparr>blocks := (blocks m)(fresh m \<mapsto> Str w, cur \<mapsto> Pret (put (fresh m) c)), fresh := Suc (fresh m)\<rparr>)"
  using assms by (simp add: scan_to_block_def mem_simps)

lemma scan_to_block_stop:
  "store_word P k (scan_value key buffer None) = Inl e \<Longrightarrow> scan_to_block P k key buffer put cur m = Inl e"
  by (simp add: scan_to_block_def andthen_def pure_prog_def)

text \<open>A new entry: the block \<open>l\<close>, which becomes \<open>b\<close>, points to it.\<close>

definition entry_added :: "addr \<Rightarrow> block \<Rightarrow> string \<Rightarrow> mem \<Rightarrow> mem" where
  "entry_added l b p m = m\<lparr>blocks := (blocks m)(l \<mapsto> b,
     fresh m \<mapsto> Pret \<lparr>pc_pattern = Some (fresh m + 1), pc_retention = None, pc_list = None, pc_next = None\<rparr>,
     fresh m + 1 \<mapsto> Str p), fresh := fresh m + 2\<rparr>"

definition with_entry :: "addr \<Rightarrow> string \<Rightarrow> conf_node \<Rightarrow> conf_node" where
  "with_entry f p n = n\<lparr>cn_schema := cn_schema n @ [bare_node f p]\<rparr>"

lemma with_entry_foot: "set (conf_foot (with_entry f p n)) = set (conf_foot n) \<union> {f, f + 1}"
  by (auto simp: with_entry_def conf_foot_def bare_node_foot)

lemma with_entry_owned:
  assumes "owned m (conf_foot n)" "fresh m' = fresh m + 2"
  shows "owned m' (conf_foot (with_entry (fresh m) p n))"
proof -
  let ?A = "[cn_addr n, cn_dir n, cn_file n, cn_storage n] @ concat (map pret_foot (cn_schema n))"
    and ?B = "concat (map agg_foot (cn_aggs n))"
  have "owned m (?A @ ?B)" using assms(1) by (simp add: conf_foot_def)
  then have "owned m' (?A @ [fresh m, fresh m + 1] @ ?B)" by (rule owned_insert) (use assms(2) in auto)
  then show ?thesis by (simp add: with_entry_def conf_foot_def bare_node_foot)
qed

lemma entry_added_holds:
  assumes old: "holds F m n c" and l: "l \<in> set (conf_foot n)"
    and at: "conf_at (blocks (entry_added l b p m)) (with_entry (fresh m) p n) c'"
  shows "holds F (entry_added l b p m) (with_entry (fresh m) p n) c'"
proof (rule holds_step [OF old at])
  show "owned (entry_added l b p m) (conf_foot (with_entry (fresh m) p n))"
    using old by (intro with_entry_owned) (simp_all add: holds_def entry_added_def)
qed (use l in \<open>auto simp: entry_added_def with_entry_foot\<close>)

text \<open>The program for a line with a pattern, when the new entry was hung on the block at \<open>x\<close>.\<close>

lemma pattern_line_mem:
  assumes "\<not> sl_found l" "string_starts_with buffer ''pattern=''"
    and "store_word P PATTERN_MAX (scan_value ''pattern='' buffer None) = Inr p"
    and "new_schema_entry a l m = Inr (fresh m, m\<lparr>blocks := (blocks m)(fresh m \<mapsto> Pret empty_pret_cell, x \<mapsto> b),
      fresh := Suc (fresh m)\<rparr>)" "x < fresh m"
  shows "schema_line_mem P a buffer l m =
    Inr (Go \<lparr>sl_found = True, sl_first = (if sl_first l = None then Some (fresh m) else sl_first l), sl_cur = Some (fresh m)\<rparr>,
      entry_added x b p m)"
proof -
  let ?m1 = "m\<lparr>blocks := (blocks m)(fresh m \<mapsto> Pret empty_pret_cell, x \<mapsto> b), fresh := Suc (fresh m)\<rparr>"
  have "scan_to_block P PATTERN_MAX ''pattern='' buffer (\<lambda>s c. c\<lparr>pc_pattern := Some s, pc_next := None\<rparr>) (fresh m) ?m1 =
      Inr (p, entry_added x b p m)"
    using assms(5)
    by (subst scan_to_block_run [OF assms(3), where c = empty_pret_cell])
      (simp_all add: entry_added_def empty_pret_cell_def fun_upd_twist)
  then show ?thesis using assms(1,2,4) by (simp add: schema_line_mem_def andthen_def)
qed

lemma first_entry:
  assumes old: "holds F m n c" and none: "cn_schema n = []" "sl_first l = None"
    and cell: "blocks m (cn_addr n) = Some (Conf cc)"
  defines "b \<equiv> Conf (cc\<lparr>cc_schema := Some (fresh m)\<rparr>)"
  shows "new_schema_entry (cn_addr n) l m = Inr (fresh m, m\<lparr>blocks := (blocks m)(fresh m \<mapsto> Pret empty_pret_cell,
      cn_addr n \<mapsto> b), fresh := Suc (fresh m)\<rparr>)"
    and "holds F (entry_added (cn_addr n) b p m) (with_entry (fresh m) p n)
      (c\<lparr>schema := [pn_entry (bare_node (fresh m) p)]\<rparr>)"
proof -
  have at: "conf_at (blocks m) n c" and own: "owned m (conf_foot n)" using old by (simp_all add: holds_def)
  have lt: "cn_addr n < fresh m" "\<forall>a\<in>set (conf_foot n). a < fresh m" "cn_addr n \<notin> set (tl (conf_foot n))"
    using own by (simp_all add: owned_def conf_foot_def)
  show "new_schema_entry (cn_addr n) l m = Inr (fresh m, m\<lparr>blocks := (blocks m)(fresh m \<mapsto> Pret empty_pret_cell,
      cn_addr n \<mapsto> b), fresh := Suc (fresh m)\<rparr>)"
    using cell none(2) lt(1) by (simp add: new_schema_entry_def mem_simps b_def)
  let ?m' = "entry_added (cn_addr n) b p m"
  have "conf_at (blocks ?m') (n\<lparr>cn_schema := [bare_node (fresh m) p]\<rparr>) (c\<lparr>schema := map pn_entry [bare_node (fresh m) p]\<rparr>)"
  proof (rule conf_at_other_schema [OF at cell])
    show "list_at pret_at (blocks ?m') (Some (fresh m)) [bare_node (fresh m) p]"
      by (simp add: bare_node_at entry_added_def)
  next
    fix x
    assume "x \<in> set (tl (conf_foot (n\<lparr>cn_schema := []\<rparr>)))"
    then have "x \<in> set (tl (conf_foot n))" by (auto simp: conf_foot_def)
    moreover from this have "x < fresh m" using lt(2) by (auto simp: conf_foot_def)
    ultimately show "blocks ?m' x = blocks m x" using lt(3) by (auto simp: entry_added_def)
  qed (use lt(1) in \<open>simp_all add: entry_added_def b_def\<close>)
  then show "holds F ?m' (with_entry (fresh m) p n) (c\<lparr>schema := [pn_entry (bare_node (fresh m) p)]\<rparr>)"
    by (intro entry_added_holds [OF old]) (simp_all add: with_entry_def none conf_foot_def)
qed

text \<open>The block of the last entry is not one of the blocks of the others.\<close>

lemma last_entry_apart:
  assumes "distinct (conf_foot n)" "cn_schema n = es @ [e]"
  shows "pn_addr e \<in> set (conf_foot n)" "pn_addr e \<notin> set (concat (map pret_foot es))"
    "pn_addr e \<notin> set (tl (pret_foot e))" "pn_addr e \<notin> set (conf_foot (n\<lparr>cn_schema := []\<rparr>))"
    "set (conf_foot n) = set (conf_foot (n\<lparr>cn_schema := []\<rparr>)) \<union> set (concat (map pret_foot es)) \<union> set (pret_foot e)"
    "set (conf_foot (n\<lparr>cn_schema := []\<rparr>)) \<inter> set (pret_foot e) = {}"
    "set (concat (map pret_foot es)) \<inter> set (pret_foot e) = {}" "distinct (pret_foot e)"
proof -
  obtain t where foot: "pret_foot e = pn_addr e # t" by (simp add: pret_foot_def)
  have dist: "distinct (conf_foot (n\<lparr>cn_schema := []\<rparr>) @ concat (map pret_foot es) @ pret_foot e)"
    using assms by (auto simp: conf_foot_def)
  then show "pn_addr e \<notin> set (concat (map pret_foot es))" "pn_addr e \<notin> set (tl (pret_foot e))"
    "pn_addr e \<notin> set (conf_foot (n\<lparr>cn_schema := []\<rparr>))"
    by (simp_all add: foot del: set_concat)
  show set: "set (conf_foot n) = set (conf_foot (n\<lparr>cn_schema := []\<rparr>)) \<union> set (concat (map pret_foot es)) \<union> set (pret_foot e)"
    using assms(2) by (auto simp: conf_foot_def)
  show "pn_addr e \<in> set (conf_foot n)" by (simp add: set foot)
  show "set (conf_foot (n\<lparr>cn_schema := []\<rparr>)) \<inter> set (pret_foot e) = {}"
    "set (concat (map pret_foot es)) \<inter> set (pret_foot e) = {}" "distinct (pret_foot e)"
    using dist by (auto simp del: set_concat)
qed

lemma next_entry:
  assumes old: "holds F m n c" and es: "cn_schema n = es @ [e]" "sl_first l \<noteq> None" "sl_cur l = Some (pn_addr e)"
    and cell: "blocks m (cn_addr n) = Some (Conf cc)" and last: "blocks m (pn_addr e) = Some (Pret ec)"
  defines "b \<equiv> Pret (ec\<lparr>pc_next := Some (fresh m)\<rparr>)"
  shows "new_schema_entry (cn_addr n) l m = Inr (fresh m, m\<lparr>blocks := (blocks m)(fresh m \<mapsto> Pret empty_pret_cell,
      pn_addr e \<mapsto> b), fresh := Suc (fresh m)\<rparr>)"
    and "holds F (entry_added (pn_addr e) b p m) (with_entry (fresh m) p n)
      (c\<lparr>schema := schema c @ [pn_entry (bare_node (fresh m) p)]\<rparr>)"
proof -
  have at: "conf_at (blocks m) n c" and own: "owned m (conf_foot n)" using old by (simp_all add: holds_def)
  have list: "list_at pret_at (blocks m) (cc_schema cc) (es @ [e])" "map pn_entry (cn_schema n) = schema c"
    using at cell es(1) by (simp_all add: conf_at_def)
  have dist: "distinct (conf_foot n)" using own by (simp add: owned_def)
  note apart = last_entry_apart [OF dist es(1)]
  have lt: "\<forall>a\<in>set (conf_foot n). a < fresh m" using own by (simp add: owned_def)
  then have new: "fresh m \<notin> set (conf_foot n)" "fresh m + 1 \<notin> set (conf_foot n)" by fastforce+
  have ef: "pn_addr e < fresh m" "cn_addr n < fresh m" using lt apart(1) by (auto simp: conf_foot_def)
  show "new_schema_entry (cn_addr n) l m = Inr (fresh m, m\<lparr>blocks := (blocks m)(fresh m \<mapsto> Pret empty_pret_cell,
      pn_addr e \<mapsto> b), fresh := Suc (fresh m)\<rparr>)"
    using es(2,3) last ef by (auto simp: new_schema_entry_def mem_simps b_def)
  let ?m' = "entry_added (pn_addr e) b p m" and ?new = "bare_node (fresh m) p"
  have same: "blocks ?m' a = blocks m a" if "a \<in> set (conf_foot n)" "a \<noteq> pn_addr e" for a
    using that new by (auto simp: entry_added_def)
  have "conf_at (blocks ?m') (n\<lparr>cn_schema := es @ [e, ?new]\<rparr>) (c\<lparr>schema := map pn_entry (es @ [e, ?new])\<rparr>)"
  proof (rule conf_at_other_schema [OF at cell])
    show "list_at pret_at (blocks ?m') (cc_schema cc) (es @ [e, ?new])"
    proof (rule prets.list_at_last [OF list(1)])
      show "blocks ?m' a = blocks m a" if "a \<in> set (concat (map pret_foot es))" for a
        using that apart(2,5) by (intro same) auto
      show "list_at pret_at (blocks ?m') q [e, ?new]" if "pret_at (blocks m) q e = Some None" for q
      proof -
        have "blocks ?m' a = blocks m a" if "a \<in> set (tl (pret_foot e))" for a
          using that apart(3,5) by (intro same) (auto simp: pret_foot_def)
        then have "pret_at (blocks ?m') q e = Some (Some (fresh m))"
          using ef(1) by (intro pret_at_link [OF that last]) (simp_all add: entry_added_def b_def)
        moreover have "pret_at (blocks ?m') (Some (fresh m)) ?new = Some None"
          by (simp add: bare_node_at entry_added_def)
        ultimately show ?thesis by simp
      qed
    qed
  next
    show "blocks ?m' (cn_addr n) = Some (Conf (cc\<lparr>cc_schema := cc_schema cc\<rparr>))"
      using apart(4) cell by (subst same) (auto simp: conf_foot_def)
    show "blocks ?m' a = blocks m a" if "a \<in> set (tl (conf_foot (n\<lparr>cn_schema := []\<rparr>)))" for a
      using that apart(4,5) by (intro same) (auto simp: conf_foot_def)
  qed
  then have "conf_at (blocks ?m') (with_entry (fresh m) p n) (c\<lparr>schema := schema c @ [pn_entry ?new]\<rparr>)"
    by (simp add: with_entry_def es(1) flip: list(2))
  then show "holds F ?m' (with_entry (fresh m) p n) (c\<lparr>schema := schema c @ [pn_entry ?new]\<rparr>)"
    by (intro entry_added_holds [OF old]) (rule apart(1))
qed

text \<open>The retentions of the entry at \<open>cur\<close>: a string and a list, one behind the other, with the freed copy between.\<close>

definition entry_filled :: "addr \<Rightarrow> pret_cell \<Rightarrow> string \<Rightarrow> retention list \<Rightarrow> mem \<Rightarrow> mem" where
  "entry_filled cur ec w rs m = m\<lparr>blocks := (put_rets (fresh m + 2) rs ((blocks m)(fresh m \<mapsto> Str w)))(cur \<mapsto>
       Pret (ec\<lparr>pc_retention := Some (fresh m), pc_list := if rs = [] then None else Some (fresh m + 2)\<rparr>)),
     fresh := fresh m + 2 + length rs\<rparr>"

lemma retentions_line_mem:
  assumes cur: "sl_found l" "sl_cur l = Some cur" "blocks m cur = Some (Pret ec)" "cur < fresh m"
    and line: "string_starts_with buffer ''retentions=''"
    and w: "store_word P RETENTION_MAX (scan_value ''retentions='' buffer None) = Inr w"
    and mem: "allocator_ok P" "blocks m (Suc (fresh m)) = None"
  shows "refines (\<lambda>x m' rs. x = Go (l\<lparr>sl_found := False\<rparr>) \<and> m' = entry_filled cur ec w rs m)
    (schema_line_mem P a buffer l) m (parse_retention_list_str w)"
proof -
  let ?m1 = "m\<lparr>blocks := (blocks m)(fresh m \<mapsto> Str w, cur \<mapsto> Pret (ec\<lparr>pc_retention := Some (fresh m)\<rparr>)),
    fresh := Suc (fresh m)\<rparr>"
  have scan: "scan_to_block P RETENTION_MAX ''retentions='' buffer (\<lambda>s c. c\<lparr>pc_retention := Some s\<rparr>) cur m = Inr (w, ?m1)"
    by (rule scan_to_block_run [OF w cur(3,4)])
  have list: "refines (\<lambda>p m' rs. p = (if rs = [] then None else Some (Suc (fresh ?m1))) \<and>
      m' = ?m1\<lparr>blocks := put_rets (Suc (fresh ?m1)) rs (blocks ?m1), fresh := Suc (fresh ?m1) + length rs\<rparr>)
      (parse_retention_list_mem P w) ?m1 (parse_retention_list_str w)"
    by (rule parse_retentions_refine [OF mem(1)]) (use mem(2) cur(4) in simp)
  have parse: "refines (\<lambda>x m' rs. x = Go (l\<lparr>sl_found := False\<rparr>) \<and> m' = entry_filled cur ec w rs m)
      (andthen (parse_retention_list_mem P w) (\<lambda>rets.
        andthen (load_pret cur) (\<lambda>c. andthen (store cur (Pret (c\<lparr>pc_list := rets\<rparr>))) (\<lambda>_.
        ret (Go (l\<lparr>sl_found := False\<rparr>)))))) ?m1 (parse_retention_list_str w)"
    by (rule refines_then [OF list]) (use cur(4) in \<open>auto simp: mem_simps entry_filled_def put_rets_outside put_rets_upd simp del: put_rets.simps\<close>)
  then show ?thesis
    using cur(1,2) line scan by (simp add: schema_line_mem_def refines_step)
qed

lemma filled_elsewhere:
  assumes "a < fresh m" "a \<noteq> cur"
  shows "blocks (entry_filled cur ec w rs m) a = blocks m a"
  using assms by (auto simp: entry_filled_def put_rets_outside simp del: put_rets.simps)

lemma filled_entry_at:
  assumes e: "pret_at (blocks m) q e = Some None" and bare: "pn_retention e = None" "pn_rets e = []"
    and last: "blocks m (pn_addr e) = Some (Pret ec)"
    and ef: "pn_addr e < fresh m" "pn_pattern e < fresh m" "pn_pattern e \<noteq> pn_addr e"
  shows "pret_at (blocks (entry_filled (pn_addr e) ec w rs m)) q (full_node e (fresh m) w rs) = Some None"
proof -
  let ?f = "fresh m" and ?m' = "entry_filled (pn_addr e) ec w rs m"
  have "list_at ret_at (blocks ?m') (if rs = [] then None else Some (?f + 2)) (ret_nodes (?f + 2) rs)"
    by (rule rets.entries_cong [OF put_rets_at [of "?f + 2" rs "(blocks m)(?f \<mapsto> Str w)"]])
      (use ef(1) in \<open>auto simp: entry_filled_def ret_nodes_foot simp del: put_rets.simps\<close>)
  then show ?thesis
    using ef bare by (intro pret_at_fill [OF e last]) (auto simp: entry_filled_def put_rets_outside simp del: put_rets.simps)
qed

lemma filled_conf_at:
  assumes at: "conf_at (blocks m) n c" and es: "cn_schema n = es @ [e]"
    and distinct: "distinct (conf_foot n)" and lt: "\<forall>a\<in>set (conf_foot n). a < fresh m"
    and bare: "pn_retention e = None" "pn_rets e = []" and last: "blocks m (pn_addr e) = Some (Pret ec)"
  shows "conf_at (blocks (entry_filled (pn_addr e) ec w rs m)) (n\<lparr>cn_schema := es @ [full_node e (fresh m) w rs]\<rparr>)
    (c\<lparr>schema := map pn_entry es @ [(pn_entry e)\<lparr>str_retention := w, retention_list := rs\<rparr>]\<rparr>)"
proof -
  let ?m' = "entry_filled (pn_addr e) ec w rs m" and ?new = "full_node e (fresh m) w rs"
  obtain cc where cell: "blocks m (cn_addr n) = Some (Conf cc)" by (rule conf_at_cases [OF at])
  have list: "list_at pret_at (blocks m) (cc_schema cc) (es @ [e])" using at cell es by (simp add: conf_at_def)
  note apart = last_entry_apart [OF distinct es]
  have efoot: "pret_foot e = [pn_addr e, pn_pattern e]" using bare by (simp add: pret_foot_def ptr_foot_def)
  have ef: "pn_addr e < fresh m" "pn_pattern e < fresh m" "pn_pattern e \<noteq> pn_addr e"
    using lt apart(5,8) by (simp_all add: efoot)
  have same: "blocks ?m' a = blocks m a" if "a \<in> set (conf_foot n)" "a \<noteq> pn_addr e" for a
    using that lt by (intro filled_elsewhere) auto
  have "conf_at (blocks ?m') (n\<lparr>cn_schema := es @ [?new]\<rparr>) (c\<lparr>schema := map pn_entry (es @ [?new])\<rparr>)"
  proof (rule conf_at_other_schema [OF at cell])
    show "list_at pret_at (blocks ?m') (cc_schema cc) (es @ [?new])"
    proof (rule prets.list_at_last [OF list])
      show "blocks ?m' a = blocks m a" if "a \<in> set (concat (map pret_foot es))" for a
        using that apart(2,5) by (intro same) auto
      show "list_at pret_at (blocks ?m') q [?new]" if "pret_at (blocks m) q e = Some None" for q
        using filled_entry_at [OF that bare last ef] by simp
    qed
  next
    show "blocks ?m' (cn_addr n) = Some (Conf (cc\<lparr>cc_schema := cc_schema cc\<rparr>))"
      using apart(4) cell by (subst same) (auto simp: conf_foot_def)
    show "blocks ?m' a = blocks m a" if "a \<in> set (tl (conf_foot (n\<lparr>cn_schema := []\<rparr>)))" for a
      using that apart(4,5) by (intro same) (auto simp: conf_foot_def)
  qed
  then show ?thesis by (simp add: full_node_def)
qed

lemma fill_entry:
  assumes old: "holds F m n c" and es: "cn_schema n = es @ [e]"
    and bare: "pn_retention e = None" "pn_rets e = []" and last: "blocks m (pn_addr e) = Some (Pret ec)"
  shows "holds F (entry_filled (pn_addr e) ec w rs m) (n\<lparr>cn_schema := es @ [full_node e (fresh m) w rs]\<rparr>)
    (c\<lparr>schema := map pn_entry es @ [(pn_entry e)\<lparr>str_retention := w, retention_list := rs\<rparr>]\<rparr>)"
proof -
  let ?f = "fresh m" and ?m' = "entry_filled (pn_addr e) ec w rs m"
  let ?n' = "n\<lparr>cn_schema := es @ [full_node e ?f w rs]\<rparr>"
  have at: "conf_at (blocks m) n c" and own: "owned m (conf_foot n)" using old by (simp_all add: holds_def)
  have distinct: "distinct (conf_foot n)" and lt: "\<forall>a\<in>set (conf_foot n). a < ?f" using own by (simp_all add: owned_def)
  note apart = last_entry_apart [OF distinct es]
  have efoot: "pret_foot e = [pn_addr e, pn_pattern e]" using bare by (simp add: pret_foot_def ptr_foot_def)
  have foot: "set (conf_foot ?n') = set (conf_foot n) \<union> {?f} \<union> {?f + 2..<?f + 2 + length rs}"
    unfolding apart(5) by (auto simp: conf_foot_def full_node_foot efoot)
  show ?thesis
  proof (rule holds_step [OF old filled_conf_at [OF at es distinct lt bare last]])
    let ?A = "[cn_addr n, cn_dir n, cn_file n, cn_storage n] @ concat (map pret_foot (cn_schema n))"
      and ?B = "concat (map agg_foot (cn_aggs n))"
    have "owned m (?A @ ?B)" using own by (simp add: conf_foot_def)
    then have "owned ?m' (?A @ (?f # [?f + 2..<?f + 2 + length rs]) @ ?B)"
      by (rule owned_insert) (auto simp: entry_filled_def)
    then show "owned ?m' (conf_foot ?n')" by (simp add: conf_foot_def es full_node_foot efoot)
  next
    fix a
    assume "a \<notin> set (conf_foot ?n')"
    then show "blocks ?m' a = (if a \<in> set (conf_foot n) then None else blocks m a)"
      using apart(1) unfolding foot
      by (auto simp: entry_filled_def put_rets_outside simp del: put_rets.simps)
  qed (auto simp: foot entry_filled_def)
qed

text \<open>A line keeps the relation of the two parsers, and stops one exactly when it stops the other.\<close>

lemma holds_conf: "holds F m n c \<Longrightarrow> conf_at (blocks m) n c"
  by (simp add: holds_def)

lemma schema_relE:
  assumes "schema_rel F a l m s"
  obtains n cc where "cn_addr n = a" "holds F m n (sp_conf s)" "blocks m (cn_addr n) = Some (Conf cc)"
    "schema (sp_conf s) = sp_entries s" "sp_entries s = map pn_entry (cn_schema n)" "sl_found l = sp_found s"
    "sl_first l = None \<longleftrightarrow> cn_schema n = []"
    "cn_schema n \<noteq> [] \<longrightarrow> sl_cur l = Some (pn_addr (last (cn_schema n)))"
    "sp_found s \<longrightarrow> cn_schema n \<noteq> [] \<and> pn_retention (last (cn_schema n)) = None \<and> pn_rets (last (cn_schema n)) = []"
proof -
  obtain n where "cn_addr n = a \<and> holds F m n (sp_conf s) \<and> schema (sp_conf s) = sp_entries s \<and> sl_found l = sp_found s \<and>
     (sl_first l = None \<longleftrightarrow> cn_schema n = []) \<and>
     (cn_schema n \<noteq> [] \<longrightarrow> sl_cur l = Some (pn_addr (last (cn_schema n)))) \<and>
     (sp_found s \<longrightarrow> cn_schema n \<noteq> [] \<and> pn_retention (last (cn_schema n)) = None \<and> pn_rets (last (cn_schema n)) = [])"
    using assms unfolding schema_rel_def ..
  then have n: "cn_addr n = a" "holds F m n (sp_conf s)" "schema (sp_conf s) = sp_entries s" "sl_found l = sp_found s"
    "sl_first l = None \<longleftrightarrow> cn_schema n = []" "cn_schema n \<noteq> [] \<longrightarrow> sl_cur l = Some (pn_addr (last (cn_schema n)))"
    "sp_found s \<longrightarrow> cn_schema n \<noteq> [] \<and> pn_retention (last (cn_schema n)) = None \<and> pn_rets (last (cn_schema n)) = []"
    by simp_all
  note at = holds_conf [OF n(2)]
  obtain cc where cc: "blocks m (cn_addr n) = Some (Conf cc)" by (rule conf_at_cases [OF at])
  have "sp_entries s = map pn_entry (cn_schema n)" using at cc n(3) by (simp add: conf_at_def)
  then show ?thesis by (rule that [OF n(1,2) cc n(3) _ n(4,5,6,7)])
qed

lemma last_entry_cell:
  assumes "conf_at (blocks m) n c" "cn_schema n = es @ [e]"
  obtains ec where "blocks m (pn_addr e) = Some (Pret ec)"
proof -
  obtain p where "list_at pret_at (blocks m) p (cn_schema n)" by (rule conf_at_cases [OF assms(1)]) blast
  then obtain q where "list_at pret_at (blocks m) q [e]" by (auto simp: assms(2) list_at_append)
  then obtain nx where "pret_at (blocks m) q e = Some nx" by (auto split: option.splits)
  then show ?thesis using that by (elim pret_at_cases)
qed

lemma new_entry_rel:
  assumes rel: "schema_rel F a l m s" and idle: "\<not> sp_found s"
  obtains x b where "new_schema_entry a l m = Inr (fresh m, m\<lparr>blocks := (blocks m)(fresh m \<mapsto> Pret empty_pret_cell, x \<mapsto> b),
      fresh := Suc (fresh m)\<rparr>)" "x < fresh m"
    "\<forall>p. schema_rel F a \<lparr>sl_found = True, sl_first = (if sl_first l = None then Some (fresh m) else sl_first l), sl_cur = Some (fresh m)\<rparr>
      (entry_added x b p m) (set_entries (sp_entries s @ [\<lparr>str_pattern = p, str_retention = [], retention_list = []\<rparr>])
        (s\<lparr>sp_found := True\<rparr>))"
proof -
  obtain n cc where n: "cn_addr n = a" "holds F m n (sp_conf s)" "blocks m (cn_addr n) = Some (Conf cc)"
    "schema (sp_conf s) = sp_entries s" "sp_entries s = map pn_entry (cn_schema n)" "sl_found l = sp_found s"
    "sl_first l = None \<longleftrightarrow> cn_schema n = []"
    "cn_schema n \<noteq> [] \<longrightarrow> sl_cur l = Some (pn_addr (last (cn_schema n)))"
    "sp_found s \<longrightarrow> cn_schema n \<noteq> [] \<and> pn_retention (last (cn_schema n)) = None \<and> pn_rets (last (cn_schema n)) = []"
    by (rule schema_relE [OF rel])
  have lt: "x < fresh m" if "x \<in> set (conf_foot n)" for x using n(2) that by (simp add: holds_def owned_def)
  have rel': "schema_rel F a \<lparr>sl_found = True, sl_first = (if sl_first l = None then Some (fresh m) else sl_first l), sl_cur = Some (fresh m)\<rparr>
      (entry_added x b p m) (set_entries (sp_entries s @ [\<lparr>str_pattern = p, str_retention = [], retention_list = []\<rparr>])
        (s\<lparr>sp_found := True\<rparr>))"
    if "holds F (entry_added x b p m) (with_entry (fresh m) p n) ((sp_conf s)\<lparr>schema := sp_entries s @ [pn_entry (bare_node (fresh m) p)]\<rparr>)"
    for x b p
    unfolding schema_rel_def using that n(1)
    by (intro exI [of _ "with_entry (fresh m) p n"]) (simp add: set_entries_def with_entry_def bare_node_def)
  show ?thesis
  proof (cases "cn_schema n" rule: rev_cases)
    case Nil
    then have "sl_first l = None" "sp_entries s = []" using n(5,7) by simp_all
    then show ?thesis
      using that first_entry [OF n(2) Nil _ n(3)] rel' lt n(1) by (simp add: conf_foot_def)
  next
    case (snoc es e)
    obtain ec where ec: "blocks m (pn_addr e) = Some (Pret ec)"
      by (rule last_entry_cell [OF holds_conf [OF n(2)] snoc])
    have "pn_addr e < fresh m" using lt [of "pn_addr e"] by (simp add: conf_foot_def snoc pret_foot_def)
    then show ?thesis
      using that next_entry [OF n(2) snoc _ _ n(3) ec] rel' n snoc by simp
  qed
qed

lemma pattern_line_refines:
  assumes rel: "schema_rel F a l m s" and line: "\<not> sp_found s" "string_starts_with buffer ''pattern=''"
  shows "refines (flow_rel (schema_rel F a)) (schema_line_mem P a buffer l) m (schema_line P buffer s)"
proof -
  have found: "\<not> sl_found l" using rel line(1) by (auto simp: schema_rel_def)
  obtain x b where x: "new_schema_entry a l m = Inr (fresh m, m\<lparr>blocks := (blocks m)(fresh m \<mapsto> Pret empty_pret_cell, x \<mapsto> b),
      fresh := Suc (fresh m)\<rparr>)" "x < fresh m"
    "\<forall>p. schema_rel F a \<lparr>sl_found = True, sl_first = (if sl_first l = None then Some (fresh m) else sl_first l), sl_cur = Some (fresh m)\<rparr>
    (entry_added x b p m) (set_entries (sp_entries s @ [\<lparr>str_pattern = p, str_retention = [], retention_list = []\<rparr>])
      (s\<lparr>sp_found := True\<rparr>))"
    by (rule new_entry_rel [OF rel line(1)])
  show ?thesis
  proof (cases "store_word P PATTERN_MAX (scan_value ''pattern='' buffer None)")
    case (Inl e)
    then show ?thesis
      using line found x(1) by (simp add: schema_line_def schema_line_mem_def bind_sum_def andthen_def scan_to_block_stop)
  next
    case (Inr p)
    then show ?thesis
      using pattern_line_mem [OF found line(2) Inr x(1,2)] line x(3)
      by (simp add: schema_line_def bind_sum_def refines_def)
  qed
qed

lemma retentions_line_refines:
  assumes alloc: "allocator_ok P" and rel: "schema_rel F a l m s"
    and line: "sp_found s" "string_starts_with buffer ''retentions=''"
  shows "refines (flow_rel (schema_rel F a)) (schema_line_mem P a buffer l) m (schema_line P buffer s)"
proof -
  obtain n cc where n: "cn_addr n = a" "holds F m n (sp_conf s)" "blocks m (cn_addr n) = Some (Conf cc)"
    "schema (sp_conf s) = sp_entries s" "sp_entries s = map pn_entry (cn_schema n)" "sl_found l = sp_found s"
    "sl_first l = None \<longleftrightarrow> cn_schema n = []"
    "cn_schema n \<noteq> [] \<longrightarrow> sl_cur l = Some (pn_addr (last (cn_schema n)))"
    "sp_found s \<longrightarrow> cn_schema n \<noteq> [] \<and> pn_retention (last (cn_schema n)) = None \<and> pn_rets (last (cn_schema n)) = []"
    by (rule schema_relE [OF rel])
  obtain es e where es: "cn_schema n = es @ [e]" using n(9) line(1) by (cases "cn_schema n" rule: rev_cases) simp_all
  obtain ec where ec: "blocks m (pn_addr e) = Some (Pret ec)"
    by (rule last_entry_cell [OF holds_conf [OF n(2)] es])
  have cur: "sl_found l" "sl_cur l = Some (pn_addr e)" "pn_retention e = None" "pn_rets e = []"
    using line n(6,8,9) es by simp_all
  show ?thesis
  proof (cases "store_word P RETENTION_MAX (scan_value ''retentions='' buffer None)")
    case (Inl e)
    then show ?thesis
      using line cur by (simp add: schema_line_def schema_line_mem_def bind_sum_def andthen_def scan_to_block_stop)
  next
    case (Inr w)
    have "pn_addr e < fresh m" using n(2) by (simp add: holds_def owned_def conf_foot_def es pret_foot_def)
    then have run: "refines (\<lambda>x m' rs. x = Go (l\<lparr>sl_found := False\<rparr>) \<and> m' = entry_filled (pn_addr e) ec w rs m)
        (schema_line_mem P a buffer l) m (parse_retention_list_str w)"
      using holds_unused(1) [OF n(2)] by (intro retentions_line_mem [OF cur(1,2) ec _ line(2) Inr alloc]) simp_all
    have rel': "schema_rel F a (l\<lparr>sl_found := False\<rparr>) (entry_filled (pn_addr e) ec w rs m)
        (set_entries (butlast (sp_entries s) @ [(last (sp_entries s))\<lparr>str_retention := w, retention_list := rs\<rparr>])
          (s\<lparr>sp_found := False\<rparr>))" for rs
      unfolding schema_rel_def using fill_entry [OF n(2) es cur(3,4) ec, of w rs] n(1,5,7) es cur(2)
      by (intro exI [of _ "n\<lparr>cn_schema := es @ [full_node e (fresh m) w rs]\<rparr>"]) (simp add: set_entries_def full_node_def)
    have "schema_line P buffer s = bind_sum (parse_retention_list_str w) (\<lambda>rs. Inr (Go (set_entries
        (butlast (sp_entries s) @ [(last (sp_entries s))\<lparr>str_retention := w, retention_list := rs\<rparr>]) (s\<lparr>sp_found := False\<rparr>))))"
      using line Inr by (simp add: schema_line_def)
    then show ?thesis
      using run rel' by (cases "parse_retention_list_str w") (simp_all add: refines_def)
  qed
qed

lemma schema_line_refines:
  assumes "allocator_ok P" "schema_rel F a l m s"
  shows "refines (flow_rel (schema_rel F a)) (schema_line_mem P a buffer l) m (schema_line P buffer s)"
proof -
  consider "\<not> sp_found s" "string_starts_with buffer ''pattern=''" | "sp_found s" "string_starts_with buffer ''retentions=''"
    | "if sp_found s then \<not> string_starts_with buffer ''retentions='' else \<not> string_starts_with buffer ''pattern=''"
    by (cases "sp_found s") argo+
  then show ?thesis
  proof cases
    case 3
    have "sl_found l = sp_found s" using assms(2) by (auto simp: schema_rel_def)
    then show ?thesis
      using assms(2) 3 by (simp add: schema_line_def schema_line_mem_def refines_def split: if_splits)
  qed (rule pattern_line_refines [OF assms(2)] retentions_line_refines [OF assms]; assumption)+
qed

section \<open>The file\<close>

lemma parse_schema_refines:
  assumes alloc: "allocator_ok P" and old: "holds F m n c" and empty: "schema c = []"
  shows "refines (\<lambda>st m' (st', c'). st = st' \<and> (\<exists>n'. cn_addr n' = cn_addr n \<and> holds F m' n' c'))
    (parse_schema_mem P fs (cn_addr n)) m (conf_parse_storage_schema_file P fs c)"
proof -
  have at: "conf_at (blocks m) n c" using old by (simp add: holds_def)
  obtain cc where cc: "blocks m (cn_addr n) = Some (Conf cc)" "cc_conf_dir cc = Some (cn_dir n)"
    "blocks m (cn_dir n) = Some (Str (conf_dir c))"
    by (rule conf_at_cases [OF at])
  have none: "cn_schema n = []" using at cc(1) empty by (simp add: conf_at_def)
  have start: "schema_rel F (cn_addr n) \<lparr>sl_found = False, sl_first = None, sl_cur = None\<rparr> m
      \<lparr>sp_conf = c, sp_found = False, sp_entries = []\<rparr>"
    unfolding schema_rel_def using old none empty by (intro exI [of _ n]) simp
  have conf: "load_conf (cn_addr n) m = Inr (cc, m)" "load_str (cc_conf_dir cc) m = Inr (conf_dir c, m)"
    using cc by (simp_all add: mem_simps)
  have lines: "refines (\<lambda>(st, l) m' (st', s). st = st' \<and> schema_rel F (cn_addr n) l m' s)
      (read_lines_mem (schema_line_mem P (cn_addr n)) content \<lparr>sl_found = False, sl_first = None, sl_cur = None\<rparr>) m
      (read_lines (schema_line P) content \<lparr>sp_conf = c, sp_found = False, sp_entries = []\<rparr>)" for content
    by (rule read_lines_refines [where R = "schema_rel F (cn_addr n)", OF schema_line_refines [OF alloc] start])
  have parse: "refines (\<lambda>st m' (st', c'). st = st' \<and> (\<exists>n'. cn_addr n' = cn_addr n \<and> holds F m' n' c'))
      (andthen (read_lines_mem (schema_line_mem P (cn_addr n)) content \<lparr>sl_found = False, sl_first = None, sl_cur = None\<rparr>)
        (\<lambda>(status, _). ret status)) m
      (bind_sum (read_lines (schema_line P) content \<lparr>sp_conf = c, sp_found = False, sp_entries = []\<rparr>)
        (\<lambda>(status, s). Inr (status, sp_conf s)))" for content
    by (rule refines_bind [OF lines]) (auto simp: refines_def schema_rel_def)
  show ?thesis
    unfolding parse_schema_mem_def conf_parse_storage_schema_file_def
    by (rule refines_step, rule conf(1), rule refines_step, rule conf(2), rule refines_pure)
      (use parse old in \<open>auto simp: refines_def [of _ "ret 1"] split: option.split\<close>)
qed

end
