(* ===== verification/Conf_Heap_Parse.thy ===== *)
theory Conf_Heap_Parse
  imports Conf_Heap_Schema
begin

text \<open>
  The other two parsers on the blocks of the configuration, all three one behind the
  other, and the reload of the configuration that parses into a copy and frees the
  original. Each operation refines the one on the configuration of \<open>Conf\<close> and \<open>Daemon\<close>.
\<close>

section \<open>The parser of the aggregations\<close>

text \<open>The variables of the parser, as in \<^typ>\<open>agg_parser\<close> but without the configuration.\<close>

record agg_locals =
  al_found :: bool
  al_pattern :: "string option"
  al_xff_s :: "string option"
  al_method_s :: "string option"
  al_xff :: cfloat

definition aggregation_line_mem ::
    "platform \<Rightarrow> addr \<Rightarrow> string \<Rightarrow> agg_locals \<Rightarrow> (mem, agg_locals flow) prog" where
  "aggregation_line_mem P new_conf buffer l =
     (if \<not> al_found l
      then (if string_starts_with buffer ''pattern=''
            then ret (Go (l\<lparr>al_found := True, al_pattern := scan_value ''pattern='' buffer (al_pattern l)\<rparr>))
            else ret (Go l))
      else if string_starts_with buffer ''xFilesFactor=''
      then (case scan_value ''xFilesFactor='' buffer (al_xff_s l) of
              None \<Rightarrow> halt UninitRead
            | Some x \<Rightarrow> ret (Go (l\<lparr>al_xff_s := Some x, al_xff := strtof x\<rparr>)))
      else if string_starts_with buffer ''aggregationMethod=''
      then (case scan_value ''aggregationMethod='' buffer (al_method_s l) of
              None \<Rightarrow> halt UninitRead
            | Some m \<Rightarrow>
                (case al_pattern l of
                   None \<Rightarrow> halt UninitRead
                 | Some pattern \<Rightarrow>
                     andthen (add_aggregation_mem P new_conf pattern (al_xff l) (conf_get_aggregation_method m)) (\<lambda>_.
                     ret (Go (l\<lparr>al_found := False, al_method_s := Some m\<rparr>)))))
      else ret (Go l))"

definition parse_aggregation_mem :: "platform \<Rightarrow> 'a fsys_scheme \<Rightarrow> addr \<Rightarrow> (mem, int) prog" where
  "parse_aggregation_mem P fs new_conf =
     andthen (load_conf new_conf) (\<lambda>c.
     andthen (load_str (cc_conf_dir c)) (\<lambda>conf_dir.
     andthen (pure_prog (conf_filepath conf_dir ''storage-aggregation.conf'')) (\<lambda>filepath.
     case fopen_read fs filepath of
       None \<Rightarrow> ret 1
     | Some text \<Rightarrow>
         andthen (read_lines_mem (aggregation_line_mem P new_conf) text
             \<lparr>al_found = False, al_pattern = None, al_xff_s = None, al_method_s = None, al_xff = 0\<rparr>) (\<lambda>(status, _).
         ret status))))"

text \<open>The walk to the last entry always ends, so that what stops is the copy of the pattern.\<close>

lemma hang_agg_ends:
  assumes "conf_at (blocks m) n c" "owned m (conf_foot n)"
  obtains x m' where "hang_agg (cn_addr n) m = Inr (x, m')"
proof -
  let ?P = "\<lparr>host = undefined, usable = \<lambda>n. n + 3, pcre_compiles = \<lambda>_. True, pcre_exec = \<lambda>_ _. 0\<rparr>"
    and ?e = "\<lparr>agg_pattern = ''a'', agg_xff = 0, agg_method = AGG_TYPE_UNDEF\<rparr>"
  have "dup_pattern ?P (agg_pattern ?e) = alloc (Str (agg_pattern ?e))" by (simp add: dup_pattern_def)
  from add_aggregation_refines [OF assms this] obtain m' where
    "add_aggregation_mem ?P (cn_addr n) (agg_pattern ?e) (agg_xff ?e) (agg_method ?e) m = Inr ((), m')" by blast
  then show ?thesis using that by (auto simp: add_aggregation_mem_def andthen_eq_Inr)
qed

lemma add_aggregation_holds:
  assumes old: "holds F m n c"
  shows "refines (\<lambda>_ m' c'. \<exists>n'. cn_addr n' = cn_addr n \<and> holds F m' n' c')
    (add_aggregation_mem P (cn_addr n) pattern xff method) m (conf_add_pattern_aggregation P c pattern xff method)"
proof -
  let ?e = "\<lparr>agg_pattern = pattern, agg_xff = xff, agg_method = method\<rparr>"
  have at: "conf_at (blocks m) n c" and own: "owned m (conf_foot n)" using old by (simp_all add: holds_def)
  show ?thesis
  proof (cases "conf_add_pattern_aggregation P c pattern xff method")
    case (Inl e)
    then have "dup_pattern P pattern = halt e"
      by (auto simp: conf_add_pattern_aggregation_def dup_pattern_def split: if_splits)
    moreover obtain x m' where "hang_agg (cn_addr n) m = Inr (x, m')" by (rule hang_agg_ends [OF at own])
    ultimately show ?thesis by (simp add: Inl add_aggregation_mem_def andthen_def)
  next
    case (Inr c')
    then have dup: "dup_pattern P (agg_pattern ?e) = alloc (Str (agg_pattern ?e))"
      and c': "c' = c\<lparr>aggregation := aggregation c @ [?e]\<rparr>"
      by (auto simp: conf_add_pattern_aggregation_def dup_pattern_def split: if_splits)
    let ?n' = "append_agg (fresh m) ?e n"
    obtain m' where m': "add_aggregation_mem P (cn_addr n) pattern xff method m = Inr ((), m')"
      "conf_at (blocks m') ?n' c'" "owned m' (conf_foot ?n')"
      "\<forall>a. a \<notin> set (conf_foot ?n') \<longrightarrow> blocks m' a = blocks m a"
      using add_aggregation_refines [OF at own dup] c' by auto
    have "fresh m \<in> set (conf_foot ?n')" by (simp add: append_agg_foot)
    then have "fresh m < fresh m'" using m'(3) by (simp add: owned_def)
    then have "holds F m' ?n' c'"
      using m'(4) by (intro holds_step [OF old m'(2,3)]) (auto simp: append_agg_foot)
    moreover have "cn_addr ?n' = cn_addr n" by (simp add: append_agg_def)
    ultimately show ?thesis using m'(1) by (auto simp: Inr refines_def)
  qed
qed

definition agg_rel :: "block heap \<Rightarrow> addr \<Rightarrow> agg_locals \<Rightarrow> mem \<Rightarrow> agg_parser \<Rightarrow> bool" where
  "agg_rel F a l m s \<longleftrightarrow> (\<exists>n. cn_addr n = a \<and> holds F m n (ap_conf s)) \<and>
     l = \<lparr>al_found = ap_found s, al_pattern = ap_pattern s, al_xff_s = ap_xff_s s, al_method_s = ap_method_s s,
       al_xff = ap_xff s\<rparr>"

lemma aggregation_line_refines:
  assumes "agg_rel F a l m s"
  shows "refines (flow_rel (agg_rel F a)) (aggregation_line_mem P a buffer l) m (aggregation_line P buffer s)"
proof -
  obtain n where n: "cn_addr n = a" "holds F m n (ap_conf s)" using assms by (auto simp: agg_rel_def)
  have add: "refines (\<lambda>_ m' c'. \<exists>n'. cn_addr n' = a \<and> holds F m' n' c') (add_aggregation_mem P a pattern x k) m
      (conf_add_pattern_aggregation P (ap_conf s) pattern x k)" for pattern x k
    using add_aggregation_holds [OF n(2)] n(1) by simp
  have "refines (flow_rel (agg_rel F a))
      (andthen (add_aggregation_mem P a pattern (ap_xff s) k) (\<lambda>_. ret (Go (l\<lparr>al_found := False, al_method_s := Some w\<rparr>)))) m
      (bind_sum (conf_add_pattern_aggregation P (ap_conf s) pattern (ap_xff s) k) (\<lambda>c.
        Inr (Go (s\<lparr>ap_conf := c, ap_found := False, ap_method_s := Some w\<rparr>))))" for pattern k w
    by (rule refines_bind [OF add], rule refines_ret) (use assms in \<open>auto simp: agg_rel_def\<close>)
  moreover have "al_found l = ap_found s" "al_pattern l = ap_pattern s" "al_xff_s l = ap_xff_s s"
    "al_method_s l = ap_method_s s" "al_xff l = ap_xff s"
    using assms by (simp_all add: agg_rel_def)
  ultimately show ?thesis
    using assms
    by (auto simp: aggregation_line_def aggregation_line_mem_def agg_rel_def intro!: refines_ret split: option.split)
qed

lemma parse_aggregation_refines:
  assumes old: "holds F m n c"
  shows "refines (\<lambda>st m' (st', c'). st = st' \<and> (\<exists>n'. cn_addr n' = cn_addr n \<and> holds F m' n' c'))
    (parse_aggregation_mem P fs (cn_addr n)) m (conf_parse_storage_aggregation_file P fs c)"
proof -
  let ?l = "\<lparr>al_found = False, al_pattern = None, al_xff_s = None, al_method_s = None, al_xff = 0\<rparr>"
    and ?s = "\<lparr>ap_conf = c, ap_found = False, ap_pattern = None, ap_xff_s = None, ap_method_s = None, ap_xff = 0\<rparr>"
  obtain cc where cc: "blocks m (cn_addr n) = Some (Conf cc)" "cc_conf_dir cc = Some (cn_dir n)"
    "blocks m (cn_dir n) = Some (Str (conf_dir c))"
    by (rule conf_at_cases [OF holds_conf [OF old]])
  have conf: "load_conf (cn_addr n) m = Inr (cc, m)" "load_str (cc_conf_dir cc) m = Inr (conf_dir c, m)"
    using cc by (simp_all add: mem_simps)
  have start: "agg_rel F (cn_addr n) ?l m ?s" using old by (auto simp: agg_rel_def)
  have lines: "refines (\<lambda>(st, l) m' (st', s). st = st' \<and> agg_rel F (cn_addr n) l m' s)
      (read_lines_mem (aggregation_line_mem P (cn_addr n)) content ?l) m
      (read_lines (aggregation_line P) content ?s)" for content
    by (rule read_lines_refines [where R = "agg_rel F (cn_addr n)", OF aggregation_line_refines start])
  have parse: "refines (\<lambda>st m' (st', c'). st = st' \<and> (\<exists>n'. cn_addr n' = cn_addr n \<and> holds F m' n' c'))
      (andthen (read_lines_mem (aggregation_line_mem P (cn_addr n)) content ?l) (\<lambda>(status, _). ret status)) m
      (bind_sum (read_lines (aggregation_line P) content ?s) (\<lambda>(status, s). Inr (status, ap_conf s)))" for content
    by (rule refines_bind [OF lines]) (auto simp: refines_def agg_rel_def)
  show ?thesis
    unfolding parse_aggregation_mem_def conf_parse_storage_aggregation_file_def
    by (rule refines_step, rule conf(1), rule refines_step, rule conf(2), rule refines_pure)
      (use parse old in \<open>auto simp: refines_def [of _ "ret 1"] split: option.split\<close>)
qed

section \<open>Blocks that are not part of the configuration\<close>

lemma holds_frame:
  assumes old: "holds F m n c" and same: "\<And>a. a \<in> set (conf_foot n) \<Longrightarrow> blocks m' a = blocks m a"
    and new: "fresh m \<le> fresh m'" "blocks m' |` (- set (conf_foot n)) = F'" "dom F' \<subseteq> {..<fresh m'}"
  shows "holds F' m' n c"
proof -
  have "conf_at (blocks m') n c" by (rule conf_at_cong [OF holds_conf [OF old] same])
  moreover have "owned m' (conf_foot n)" using old new(1) by (auto simp: holds_def owned_def)
  ultimately show ?thesis using new(2,3) by (simp add: holds_def)
qed

lemma holds_alloc:
  fixes b :: block
  assumes "holds F m n c"
  defines "m' \<equiv> m\<lparr>blocks := (blocks m)(fresh m \<mapsto> b), fresh := Suc (fresh m)\<rparr>"
  shows "alloc b m = Inr (fresh m, m')" "holds (F(fresh m \<mapsto> b)) m' n c"
proof -
  have F: "F = blocks m |` (- set (conf_foot n))" "dom F \<subseteq> {..<fresh m}" using assms(1) by (simp_all add: holds_def)
  have out: "fresh m \<notin> set (conf_foot n)" using holds_unused(3) [OF assms(1)] by simp
  show "alloc b m = Inr (fresh m, m')" by (simp add: alloc_def m'_def)
  have "dom (F(fresh m \<mapsto> b)) \<subseteq> {..<fresh m'}" using F(2) by (auto simp: m'_def)
  then show "holds (F(fresh m \<mapsto> b)) m' n c"
    using out by (intro holds_frame [OF assms(1)]) (auto simp: m'_def F(1) restrict_map_def fun_eq_iff)
qed

lemma holds_store:
  fixes b :: block
  assumes old: "holds (F(x \<mapsto> b0)) m n c"
  defines "m' \<equiv> m\<lparr>blocks := (blocks m)(x \<mapsto> b)\<rparr>"
  shows "store x b m = Inr ((), m')" "holds (F(x \<mapsto> b)) m' n c"
proof -
  have F: "F(x \<mapsto> b0) = blocks m |` (- set (conf_foot n))" "dom (F(x \<mapsto> b0)) \<subseteq> {..<fresh m}"
    using old by (simp_all add: holds_def)
  have x: "x \<notin> set (conf_foot n)" using holds_dom(2) [OF old] by simp
  moreover from fun_cong [OF F(1), of x] this have "blocks m x = Some b0" by simp
  ultimately show "store x b m = Inr ((), m')" by (simp add: store_def m'_def)
  have "F(x \<mapsto> b) = (F(x \<mapsto> b0))(x \<mapsto> b)" by simp
  then have "F(x \<mapsto> b) = (blocks m |` (- set (conf_foot n)))(x \<mapsto> b)" by (simp only: F(1))
  then have "blocks m' |` (- set (conf_foot n)) = F(x \<mapsto> b)"
    using x by (auto simp: m'_def restrict_map_def fun_eq_iff)
  then show "holds (F(x \<mapsto> b)) m' n c"
    using x F(2) by (intro holds_frame [OF old]) (auto simp: m'_def)
qed

lemma holds_free:
  assumes old: "holds (F(x \<mapsto> b)) m n c" and none: "F x = None"
  defines "m' \<equiv> m\<lparr>blocks := (blocks m)(x := None)\<rparr>"
  shows "free (Some x) m = Inr ((), m')" "holds F m' n c"
proof -
  have F: "F(x \<mapsto> b) = blocks m |` (- set (conf_foot n))" "dom (F(x \<mapsto> b)) \<subseteq> {..<fresh m}"
    using old by (simp_all add: holds_def)
  have x: "x \<notin> set (conf_foot n)" using holds_dom(2) [OF old] by simp
  moreover from fun_cong [OF F(1), of x] this have "blocks m x = Some b" by simp
  ultimately show "free (Some x) m = Inr ((), m')" by (simp add: m'_def)
  have "F = (F(x \<mapsto> b))(x := None)" using none by auto
  then have "F = (blocks m |` (- set (conf_foot n)))(x := None)" by (simp only: F(1))
  then have "blocks m' |` (- set (conf_foot n)) = F"
    using x by (auto simp: m'_def restrict_map_def fun_eq_iff)
  then show "holds F m' n c"
    using x F(2) none by (intro holds_frame [OF old]) (auto simp: m'_def)
qed

section \<open>The parser of the settings\<close>

text \<open>The path behind a pointer of the configuration is freed and replaced by a copy of \<open>v\<close>.\<close>

definition replace_path ::
    "platform \<Rightarrow> addr \<Rightarrow> (conf_cell \<Rightarrow> ptr) \<Rightarrow> (ptr \<Rightarrow> conf_cell \<Rightarrow> conf_cell) \<Rightarrow> string \<Rightarrow> (mem, unit) prog" where
  "replace_path P new_conf get put v =
     andthen (load_conf new_conf) (\<lambda>c.
     andthen (free (get c)) (\<lambda>_.
     andthen (store new_conf (Conf (put None c))) (\<lambda>_.
     andthen (dup_path P v) (\<lambda>d.
     store new_conf (Conf (put (Some d) c))))))"

definition set_port :: "addr \<Rightarrow> (int \<Rightarrow> conf_cell \<Rightarrow> conf_cell) \<Rightarrow> string \<Rightarrow> (mem, unit flow) prog" where
  "set_port new_conf put v =
     (case strtol10 v of (n, erange) \<Rightarrow>
        andthen (load_conf new_conf) (\<lambda>c.
        andthen (store new_conf (Conf (put (int32 n) c))) (\<lambda>_.
        ret (if erange then Leave 1 () else Go ()))))"

text \<open>A line in the block \<open>buf\<close>, which stays allocated until the end of the file.\<close>

definition carbon_line_mem :: "platform \<Rightarrow> addr \<Rightarrow> addr \<Rightarrow> string \<Rightarrow> unit \<Rightarrow> (mem, unit flow) prog" where
  "carbon_line_mem P buf new_conf read_buffer _ =
     andthen (store buf (Str read_buffer)) (\<lambda>_.
     case strtok_r ''='' read_buffer of
       None \<Rightarrow> ret (Go ())
     | Some (cnf_key, saveptr) \<Rightarrow>
         (case strtok_r ''='' saveptr of
            None \<Rightarrow> ret (Go ())
          | Some (cnf_val, _) \<Rightarrow>
              if strncmp_eq cnf_key ''CONF_DIR'' 8
              then andthen (replace_path P new_conf cc_conf_dir (\<lambda>p c. c\<lparr>cc_conf_dir := p\<rparr>) cnf_val) (\<lambda>_. ret (Go ()))
              else if strncmp_eq cnf_key ''STORAGE_DIR'' 11
              then andthen (replace_path P new_conf cc_storage_dir (\<lambda>p c. c\<lparr>cc_storage_dir := p\<rparr>) cnf_val) (\<lambda>_. ret (Go ()))
              else if strncmp_eq cnf_key ''LINE_RECEIVER_PORT'' 18
              then set_port new_conf (\<lambda>i c. c\<lparr>cc_line_receiver_port := i\<rparr>) cnf_val
              else if strncmp_eq cnf_key ''UDP_RECEIVER_PORT'' 17
              then set_port new_conf (\<lambda>i c. c\<lparr>cc_udp_receiver_port := i\<rparr>) cnf_val
              else ret (Leave 1 ())))"

text \<open>The buffer is freed at the end of the file only: every other way out leaks it.\<close>

definition parse_carbon_mem :: "platform \<Rightarrow> 'a fsys_scheme \<Rightarrow> addr \<Rightarrow> (mem, int) prog" where
  "parse_carbon_mem P fs new_conf =
     andthen (alloc (Str [])) (\<lambda>read_buffer.
     andthen (load_conf new_conf) (\<lambda>c.
     andthen (load_str (cc_conf_file c)) (\<lambda>conf_file.
     case fopen_read fs conf_file of
       None \<Rightarrow> ret 1
     | Some text \<Rightarrow>
         andthen (read_lines_mem (carbon_line_mem P read_buffer new_conf) text ()) (\<lambda>(status, _).
         if status \<noteq> 0 then ret status
         else andthen (free (Some read_buffer)) (\<lambda>_. ret 0)))))"

text \<open>Another cell and other paths, with the same lists.\<close>

lemma conf_at_keep_lists:
  assumes at: "conf_at h n c" "h (cn_addr n) = Some (Conf cc)" and cell: "h' (cn_addr n') = Some (Conf cc')"
    and lists: "cc_schema cc' = cc_schema cc" "cc_aggregation cc' = cc_aggregation cc" "cn_schema n' = cn_schema n"
      "cn_aggs n' = cn_aggs n" "schema c' = schema c" "aggregation c' = aggregation c"
    and same: "\<And>a. a \<in> set (concat (map pret_foot (cn_schema n)) @ concat (map agg_foot (cn_aggs n))) \<Longrightarrow> h' a = h a"
    and paths: "cc_conf_dir cc' = Some (cn_dir n')" "cc_conf_file cc' = Some (cn_file n')" "cc_storage_dir cc' = Some (cn_storage n')"
      "h' (cn_dir n') = Some (Str (conf_dir c'))" "h' (cn_file n') = Some (Str (conf_file c'))"
      "h' (cn_storage n') = Some (Str (storage_dir c'))"
    and vals: "cc_line_receiver_port cc' = line_receiver_port c'" "cc_udp_receiver_port cc' = udp_receiver_port c'"
      "cc_run cc' = run c'" "cc_tracing cc' = tracing c'" "cc_log_level cc' = conf_log_level c'"
  shows "conf_at h' n' c'"
proof -
  have "list_at pret_at h (cc_schema cc) (cn_schema n)" "list_at agg_at h (cc_aggregation cc) (cn_aggs n)"
    "map pn_entry (cn_schema n) = schema c" "map an_entry (cn_aggs n) = aggregation c"
    using at by (simp_all add: conf_at_def)
  moreover from this(1) have "list_at pret_at h' (cc_schema cc) (cn_schema n)"
    by (rule prets.entries_cong) (rule same, simp)
  moreover from calculation(2) have "list_at agg_at h' (cc_aggregation cc) (cn_aggs n)"
    by (rule aggs.entries_cong) (rule same, simp)
  ultimately show ?thesis using cell lists paths vals by (simp add: conf_at_def)
qed

lemma conf_values:
  assumes "conf_at h n c" "h (cn_addr n) = Some (Conf cc)"
  shows "cc_conf_dir cc = Some (cn_dir n)" "cc_conf_file cc = Some (cn_file n)" "cc_storage_dir cc = Some (cn_storage n)"
    "h (cn_dir n) = Some (Str (conf_dir c))" "h (cn_file n) = Some (Str (conf_file c))"
    "h (cn_storage n) = Some (Str (storage_dir c))"
    "cc_line_receiver_port cc = line_receiver_port c" "cc_udp_receiver_port cc = udp_receiver_port c"
    "cc_run cc = run c" "cc_tracing cc = tracing c" "cc_log_level cc = conf_log_level c"
  using assms by (simp_all add: conf_at_def)

lemma conf_at_other_values:
  assumes at: "conf_at h n c" and cell: "h (cn_addr n) = Some (Conf cc)" and dist: "distinct (conf_foot n)"
    and a: "a = cn_addr n"
    and cc': "cc_schema cc' = cc_schema cc" "cc_aggregation cc' = cc_aggregation cc" "cc_conf_dir cc' = cc_conf_dir cc"
      "cc_conf_file cc' = cc_conf_file cc" "cc_storage_dir cc' = cc_storage_dir cc"
    and c': "schema c' = schema c" "aggregation c' = aggregation c" "conf_dir c' = conf_dir c" "conf_file c' = conf_file c"
      "storage_dir c' = storage_dir c"
    and vals: "cc_line_receiver_port cc' = line_receiver_port c'" "cc_udp_receiver_port cc' = udp_receiver_port c'"
      "cc_run cc' = run c'" "cc_tracing cc' = tracing c'" "cc_log_level cc' = conf_log_level c'"
  shows "conf_at (h(a \<mapsto> Conf cc')) n c'"
  by (rule conf_at_keep_lists [OF at cell])
    (use dist a cc' c' vals conf_values [OF at cell] in \<open>auto simp: conf_foot_def\<close>)

definition path_replaced :: "addr \<Rightarrow> addr \<Rightarrow> conf_cell \<Rightarrow> string \<Rightarrow> mem \<Rightarrow> mem" where
  "path_replaced a p c v m = m\<lparr>blocks := (blocks m)(p := None, fresh m \<mapsto> Str v, a \<mapsto> Conf c), fresh := Suc (fresh m)\<rparr>"

lemma replace_path_run:
  assumes "blocks m a = Some (Conf c)" "get c = Some p" "blocks m p = Some b" "p \<noteq> a" "a < fresh m" "p < fresh m"
    and "dup_path P v = alloc (Str v)"
  shows "replace_path P a get put v m = Inr ((), path_replaced a p (put (Some (fresh m)) c) v m)"
  using assms by (simp add: replace_path_def path_replaced_def mem_simps fun_upd_twist)

text \<open>One of the paths, at \<open>p\<close>, is replaced: the rest of the footprint stays.\<close>

lemma path_replaced_holds:
  assumes old: "holds F m n c" and cell: "blocks m (cn_addr n) = Some (Conf cc)"
    and foot: "conf_foot n = as @ p # bs" "conf_foot n' = as @ fresh m # bs" "cn_addr n \<in> set as"
    and at: "conf_at (blocks (path_replaced (cn_addr n) p cc' v m)) n' c'"
  shows "holds F (path_replaced (cn_addr n) p cc' v m) n' c'"
proof (rule holds_step [OF old at])
  have own: "owned m (as @ p # bs)" using old foot(1) by (simp add: holds_def)
  then have "owned m (as @ bs)" by (auto simp: owned_def)
  then have "owned (path_replaced (cn_addr n) p cc' v m) (as @ [fresh m] @ bs)"
    by (rule owned_insert) (simp_all add: path_replaced_def)
  then show "owned (path_replaced (cn_addr n) p cc' v m) (conf_foot n')" by (simp add: foot(2))
  show "blocks (path_replaced (cn_addr n) p cc' v m) a = (if a \<in> set (conf_foot n) then None else blocks m a)"
    if "a \<notin> set (conf_foot n')" for a
    using that foot own by (auto simp: path_replaced_def owned_def)
qed (use foot in \<open>auto simp: path_replaced_def\<close>)

lemma replace_dir:
  assumes old: "holds F m n c" and fit: "dup_path P v = alloc (Str v)"
  shows "\<exists>m' n'. replace_path P (cn_addr n) cc_conf_dir (\<lambda>p c. c\<lparr>cc_conf_dir := p\<rparr>) v m = Inr ((), m') \<and>
    cn_addr n' = cn_addr n \<and> holds F m' n' (c\<lparr>conf_dir := v\<rparr>)"
proof -
  note at = holds_conf [OF old]
  obtain cc where cell: "blocks m (cn_addr n) = Some (Conf cc)" by (rule conf_at_cases [OF at])
  note vals = conf_values [OF at cell]
  let ?cc = "cc\<lparr>cc_conf_dir := Some (fresh m)\<rparr>"
  let ?m' = "path_replaced (cn_addr n) (cn_dir n) ?cc v m"
  have own: "distinct (conf_foot n)" "\<forall>a\<in>set (conf_foot n). a < fresh m" using old by (simp_all add: holds_def owned_def)
  have run: "replace_path P (cn_addr n) cc_conf_dir (\<lambda>p c. c\<lparr>cc_conf_dir := p\<rparr>) v m = Inr ((), ?m')"
    using cell vals(1,4) own fit by (subst replace_path_run) (auto simp: conf_foot_def)
  have "conf_at (blocks ?m') (n\<lparr>cn_dir := fresh m\<rparr>) (c\<lparr>conf_dir := v\<rparr>)"
    by (rule conf_at_keep_lists [OF at cell, where cc' = ?cc])
      (use own vals in \<open>auto simp: path_replaced_def conf_foot_def\<close>)
  then have "holds F ?m' (n\<lparr>cn_dir := fresh m\<rparr>) (c\<lparr>conf_dir := v\<rparr>)"
    by (intro path_replaced_holds [OF old cell, where as = "[cn_addr n]"]) (simp_all add: conf_foot_def)
  then show ?thesis using run by (intro exI conjI) simp_all
qed

lemma replace_storage:
  assumes old: "holds F m n c" and fit: "dup_path P v = alloc (Str v)"
  shows "\<exists>m' n'. replace_path P (cn_addr n) cc_storage_dir (\<lambda>p c. c\<lparr>cc_storage_dir := p\<rparr>) v m = Inr ((), m') \<and>
    cn_addr n' = cn_addr n \<and> holds F m' n' (c\<lparr>storage_dir := v\<rparr>)"
proof -
  note at = holds_conf [OF old]
  obtain cc where cell: "blocks m (cn_addr n) = Some (Conf cc)" by (rule conf_at_cases [OF at])
  note vals = conf_values [OF at cell]
  let ?cc = "cc\<lparr>cc_storage_dir := Some (fresh m)\<rparr>"
  let ?m' = "path_replaced (cn_addr n) (cn_storage n) ?cc v m"
  have own: "distinct (conf_foot n)" "\<forall>a\<in>set (conf_foot n). a < fresh m" using old by (simp_all add: holds_def owned_def)
  have run: "replace_path P (cn_addr n) cc_storage_dir (\<lambda>p c. c\<lparr>cc_storage_dir := p\<rparr>) v m = Inr ((), ?m')"
    using cell vals(3,6) own fit by (subst replace_path_run) (auto simp: conf_foot_def)
  have "conf_at (blocks ?m') (n\<lparr>cn_storage := fresh m\<rparr>) (c\<lparr>storage_dir := v\<rparr>)"
    by (rule conf_at_keep_lists [OF at cell, where cc' = ?cc])
      (use own vals in \<open>auto simp: path_replaced_def conf_foot_def\<close>)
  then have "holds F ?m' (n\<lparr>cn_storage := fresh m\<rparr>) (c\<lparr>storage_dir := v\<rparr>)"
    by (intro path_replaced_holds [OF old cell, where as = "[cn_addr n, cn_dir n, cn_file n]"]) (simp_all add: conf_foot_def)
  then show ?thesis using run by (intro exI conjI) simp_all
qed

text \<open>A store to the block of the configuration that keeps its pointers.\<close>

lemma store_values:
  assumes old: "holds F m n c" and cell: "blocks m (cn_addr n) = Some (Conf cc)"
    and at: "conf_at ((blocks m)(cn_addr n \<mapsto> Conf cc')) n c'"
  shows "holds F (m\<lparr>blocks := (blocks m)(cn_addr n \<mapsto> Conf cc')\<rparr>) n c'"
  by (rule holds_step [OF old]) (use at old holds_unused [OF old] in \<open>auto simp: holds_def conf_foot_def owned_def\<close>)

lemma refines_if: "refines R f m g \<Longrightarrow> refines R f' m g' \<Longrightarrow> refines R (if b then f else f') m (if b then g else g')"
  by simp

lemma flow_rel_weaken: "flow_rel R x m y \<Longrightarrow> (\<And>u v. R u m v \<Longrightarrow> S u m v) \<Longrightarrow> flow_rel S x m y"
  by (cases x; cases y) auto

definition carbon_rel :: "block heap \<Rightarrow> addr \<Rightarrow> addr \<Rightarrow> unit \<Rightarrow> mem \<Rightarrow> carbon_conf \<Rightarrow> bool" where
  "carbon_rel F a buf _ m c \<longleftrightarrow> (\<exists>n s. cn_addr n = a \<and> holds (F(buf \<mapsto> Str s)) m n c)"

lemma set_port_refines:
  assumes old: "holds F m n c"
    and put: "\<And>cc i. conf_at (blocks m) n c \<Longrightarrow> blocks m (cn_addr n) = Some (Conf cc) \<Longrightarrow>
      conf_at ((blocks m)(cn_addr n \<mapsto> Conf (put i cc))) n (upd i c)"
  shows "refines (flow_rel (\<lambda>_ m' c'. \<exists>n'. cn_addr n' = cn_addr n \<and> holds F m' n' c')) (set_port (cn_addr n) put v) m
    (case strtol10 v of (i, erange) \<Rightarrow> let c' = upd (int32 i) c in Inr (if erange then Leave 1 c' else Go c'))"
proof -
  note at = holds_conf [OF old]
  obtain cc where cell: "blocks m (cn_addr n) = Some (Conf cc)" by (rule conf_at_cases [OF at])
  obtain i e where i: "strtol10 v = (i, e)" by (cases "strtol10 v")
  have "set_port (cn_addr n) put v m =
      Inr (if e then Leave 1 () else Go (), m\<lparr>blocks := (blocks m)(cn_addr n \<mapsto> Conf (put (int32 i) cc))\<rparr>)"
    using cell by (simp add: set_port_def i mem_simps)
  moreover have "holds F (m\<lparr>blocks := (blocks m)(cn_addr n \<mapsto> Conf (put (int32 i) cc))\<rparr>) n (upd (int32 i) c)"
    by (rule store_values [OF old cell put [OF at cell]])
  ultimately show ?thesis by (auto simp: refines_def i Let_def)
qed

text \<open>The three kinds of lines with a key and a value, with the line in the buffer.\<close>

lemma carbon_path_refines:
  assumes ends: "\<exists>m' n'. f m = Inr ((), m') \<and> cn_addr n' = a \<and> holds (F(buf \<mapsto> Str l)) m' n' c'"
  shows "refines (flow_rel (carbon_rel F a buf)) (andthen f (\<lambda>_. ret (Go ()))) m (Inr (Go c'))"
proof -
  obtain m' n' where f: "f m = Inr ((), m')" "cn_addr n' = a" "holds (F(buf \<mapsto> Str l)) m' n' c'" using ends by blast
  then have "carbon_rel F a buf () m' c'" unfolding carbon_rel_def by blast
  then show ?thesis using f(1) by (simp add: refines_def andthen_def)
qed

lemma carbon_port_refines:
  assumes old: "holds (F(buf \<mapsto> Str l)) m n c" and n: "cn_addr n = a"
  shows "refines (flow_rel (carbon_rel F a buf)) (set_port a (\<lambda>i c. c\<lparr>cc_line_receiver_port := i\<rparr>) v) m
      (case strtol10 v of (i, erange) \<Rightarrow> let c' = c\<lparr>line_receiver_port := int32 i\<rparr> in Inr (if erange then Leave 1 c' else Go c'))"
    and "refines (flow_rel (carbon_rel F a buf)) (set_port a (\<lambda>i c. c\<lparr>cc_udp_receiver_port := i\<rparr>) v) m
      (case strtol10 v of (i, erange) \<Rightarrow> let c' = c\<lparr>udp_receiver_port := int32 i\<rparr> in Inr (if erange then Leave 1 c' else Go c'))"
proof -
  have weaken: "refines (flow_rel (\<lambda>_ m' c'. \<exists>n'. cn_addr n' = a \<and> holds (F(buf \<mapsto> Str l)) m' n' c')) f m g \<Longrightarrow>
      refines (flow_rel (carbon_rel F a buf)) f m g" for f g
    by (erule refines_weaken, erule flow_rel_weaken) (auto simp: carbon_rel_def)
  have dist: "distinct (conf_foot n)" using old by (simp add: holds_def owned_def)
  note at = holds_conf [OF old]
  have line_value: "conf_at ((blocks m)(cn_addr n \<mapsto> Conf (cc\<lparr>cc_line_receiver_port := i\<rparr>))) n (c\<lparr>line_receiver_port := i\<rparr>)"
    and udp_value: "conf_at ((blocks m)(cn_addr n \<mapsto> Conf (cc\<lparr>cc_udp_receiver_port := i\<rparr>))) n (c\<lparr>udp_receiver_port := i\<rparr>)"
    if "blocks m (cn_addr n) = Some (Conf cc)" for cc i
    by (rule conf_at_other_values [OF at that dist refl]; simp add: conf_values [OF at that])+
  show "refines (flow_rel (carbon_rel F a buf)) (set_port a (\<lambda>i c. c\<lparr>cc_line_receiver_port := i\<rparr>) v) m
      (case strtol10 v of (i, erange) \<Rightarrow> let c' = c\<lparr>line_receiver_port := int32 i\<rparr> in Inr (if erange then Leave 1 c' else Go c'))"
    by (rule weaken)
      (rule set_port_refines [where put = "\<lambda>i c. c\<lparr>cc_line_receiver_port := i\<rparr>" and
          upd = "\<lambda>i c. c\<lparr>line_receiver_port := i\<rparr>", OF old line_value, unfolded n])
  show "refines (flow_rel (carbon_rel F a buf)) (set_port a (\<lambda>i c. c\<lparr>cc_udp_receiver_port := i\<rparr>) v) m
      (case strtol10 v of (i, erange) \<Rightarrow> let c' = c\<lparr>udp_receiver_port := int32 i\<rparr> in Inr (if erange then Leave 1 c' else Go c'))"
    by (rule weaken)
      (rule set_port_refines [where put = "\<lambda>i c. c\<lparr>cc_udp_receiver_port := i\<rparr>" and
          upd = "\<lambda>i c. c\<lparr>udp_receiver_port := i\<rparr>", OF old udp_value, unfolded n])
qed

lemma carbon_line_refines:
  assumes alloc: "allocator_ok P" and fits: "line_fits l" and rel: "carbon_rel F a buf x m c"
  shows "refines (flow_rel (carbon_rel F a buf)) (carbon_line_mem P buf a l x) m (carbon_line l c)"
proof -
  obtain n s where n: "cn_addr n = a" "holds (F(buf \<mapsto> Str s)) m n c" using rel by (auto simp: carbon_rel_def)
  let ?m = "m\<lparr>blocks := (blocks m)(buf \<mapsto> Str l)\<rparr>"
  have st: "store buf (Str l) m = Inr ((), ?m)" and old: "holds (F(buf \<mapsto> Str l)) ?m n c"
    using holds_store [OF n(2), of "Str l"] by simp_all
  have same: "carbon_rel F a buf () ?m c" using old n(1) by (auto simp: carbon_rel_def)
  have line: "refines (flow_rel (carbon_rel F a buf)) (carbon_line_mem P buf a l x) m g"
    if "refines (flow_rel (carbon_rel F a buf)) k ?m g"
      "carbon_line_mem P buf a l x = andthen (store buf (Str l)) (\<lambda>_. k)" for k g
    unfolding that(2) by (rule refines_step, rule st, rule that(1))
  consider "strtok_r ''='' l = None" | k r where "strtok_r ''='' l = Some (k, r)" "strtok_r ''='' r = None"
    | k r v t where "strtok_r ''='' l = Some (k, r)" "strtok_r ''='' r = Some (v, t)"
    by (cases "strtok_r ''='' l") fastforce+
  then show ?thesis
  proof cases
    case 1
    show ?thesis
      by (rule line [where k = "ret (Go ())"]) (use same 1 in \<open>simp_all add: carbon_line_mem_def carbon_line_def refines_def\<close>)
  next
    case 2
    show ?thesis
      by (rule line [where k = "ret (Go ())"]) (use same 2 in \<open>simp_all add: carbon_line_mem_def carbon_line_def refines_def\<close>)
  next
    case 3
    have "path_fits v" using strtok_fits(2) [OF 3(1) fits] strtok_fits(1) [OF 3(2)] by blast
    then have dup: "dup_path P v = alloc (Str v)" by (intro dup_path_fits [OF alloc]) (simp add: path_fits_def)
    note dir = replace_dir [OF old dup, unfolded n(1)] and storage = replace_storage [OF old dup, unfolded n(1)]
    have unknown: "refines (flow_rel (carbon_rel F a buf)) (ret (Leave 1 ())) ?m (Inr (Leave 1 c))"
      using same by (simp add: refines_def)
    show ?thesis
      unfolding carbon_line_def 3 option.case prod.case
      by (rule line, rule refines_if, rule carbon_path_refines, rule dir, rule refines_if, rule carbon_path_refines, rule storage,
          rule refines_if, rule carbon_port_refines(1) [OF old n(1)], rule refines_if, rule carbon_port_refines(2) [OF old n(1)], rule unknown)
        (simp only: carbon_line_mem_def 3 option.case prod.case)
  qed
qed

end
