(* ===== verification/Conf_Heap_Reload.thy ===== *)
theory Conf_Heap_Reload
  imports Conf_Heap_Parse
begin

text \<open>
  The settings file as a whole, the three files one behind the other, and \<open>conf_reload\<close> of
  \<open>main.c\<close> on the blocks of the configuration: it parses into a copy, and frees the original
  when the files could be parsed. The reload refines the one of \<open>Daemon\<close>, and what it
  allocates and frees is exact.
\<close>

section \<open>The settings file\<close>

text \<open>The other blocks after a parser that may have left its buffer, allocated at \<open>f\<close>, behind.\<close>

definition leaks :: "block heap \<Rightarrow> addr \<Rightarrow> block heap \<Rightarrow> bool" where
  "leaks F f F' \<longleftrightarrow> F' = F \<or> (\<exists>s. F' = F(f \<mapsto> Str s))"

definition parse_rel :: "block heap \<Rightarrow> addr \<Rightarrow> addr \<Rightarrow> int \<Rightarrow> mem \<Rightarrow> int \<times> carbon_conf \<Rightarrow> bool" where
  "parse_rel F f a st m r \<longleftrightarrow> st = fst r \<and> (\<exists>n F'. cn_addr n = a \<and> holds F' m n (snd r) \<and>
     leaks F f F' \<and> (st = 0 \<longrightarrow> F' = F))"

lemma parse_relI: "cn_addr n = a \<Longrightarrow> holds F m n c \<Longrightarrow> parse_rel F f a st m (st, c)"
  by (auto simp: parse_rel_def leaks_def)

lemma parse_carbon_refines:
  assumes alloc: "allocator_ok P" and old: "holds F m n c"
  shows "refines (parse_rel F (fresh m) (cn_addr n)) (parse_carbon_mem P fs (cn_addr n)) m (conf_parse_carbon_file fs c)"
proof -
  let ?f = "fresh m" and ?m1 = "m\<lparr>blocks := (blocks m)(fresh m \<mapsto> Str []), fresh := Suc (fresh m)\<rparr>"
  note new = holds_alloc [OF old, of "Str []"]
  have none: "F ?f = None" using holds_unused(2) [OF old] by simp
  obtain cc where cell: "blocks ?m1 (cn_addr n) = Some (Conf cc)"
    by (rule conf_at_cases [OF holds_conf [OF new(2)]]) blast
  have conf: "load_conf (cn_addr n) ?m1 = Inr (cc, ?m1)" "load_str (cc_conf_file cc) ?m1 = Inr (conf_file c, ?m1)"
    using cell conf_values(2,5) [OF holds_conf [OF new(2)] cell] by (simp_all add: mem_simps)
  have start: "carbon_rel F (cn_addr n) ?f () ?m1 c" using new(2) by (auto simp: carbon_rel_def)
  have closed: "refines (parse_rel F ?f (cn_addr n)) (if st \<noteq> 0 then ret st else andthen (free (Some ?f)) (\<lambda>_. ret 0)) m' (Inr (st, c'))"
    if rel: "carbon_rel F (cn_addr n) ?f u m' c'" for st u m' c'
  proof -
    obtain n' s where n': "cn_addr n' = cn_addr n" "holds (F(?f \<mapsto> Str s)) m' n' c'" using rel by (auto simp: carbon_rel_def)
    show ?thesis
    proof (cases "st = 0")
      case True
      have "free (Some ?f) m' = Inr ((), m'\<lparr>blocks := (blocks m')(?f := None)\<rparr>)"
        "holds F (m'\<lparr>blocks := (blocks m')(?f := None)\<rparr>) n' c'"
        by (rule holds_free [OF n'(2) none])+
      then show ?thesis using True n'(1) by (simp add: refines_def andthen_def parse_relI del: free.simps)
    next
      case False
      have "leaks F ?f (F(?f \<mapsto> Str s))" by (auto simp: leaks_def)
      then show ?thesis using False n' by (auto simp: refines_def parse_rel_def)
    qed
  qed
  have lines: "refines (\<lambda>(st, u) m' (st', c'). st = st' \<and> carbon_rel F (cn_addr n) ?f u m' c')
      (read_lines_mem (carbon_line_mem P ?f (cn_addr n)) content ()) ?m1 (read_lines carbon_line content c)" for content
    by (rule read_lines_refines [where R = "carbon_rel F (cn_addr n) ?f", OF carbon_line_refines [OF alloc] start])
  have parse: "refines (parse_rel F ?f (cn_addr n)) (andthen (read_lines_mem (carbon_line_mem P ?f (cn_addr n)) content ())
      (\<lambda>(status, _). if status \<noteq> 0 then ret status else andthen (free (Some ?f)) (\<lambda>_. ret 0))) ?m1
      (bind_sum (read_lines carbon_line content c) Inr)" for content
    by (rule refines_bind [OF lines]) (clarsimp simp only: prod.case, rule closed)
  have failed: "refines (parse_rel F ?f (cn_addr n)) (ret 1) ?m1 (Inr (1, c))"
    using closed [OF start, of 1] by simp
  have same: "bind_sum r Inr = r" for r :: "stop + int \<times> carbon_conf" by (cases r) simp_all
  show ?thesis
    unfolding parse_carbon_mem_def conf_parse_carbon_file_def
    by (rule refines_step, rule new(1), rule refines_step, rule conf(1), rule refines_step, rule conf(2))
      (use parse failed in \<open>auto simp: same split: option.split\<close>)
qed

section \<open>The three files\<close>

definition conf_parse_mem :: "platform \<Rightarrow> 'a fsys_scheme \<Rightarrow> addr \<Rightarrow> (mem, int) prog" where
  "conf_parse_mem P fs new_conf =
     andthen (parse_carbon_mem P fs new_conf) (\<lambda>status.
     if status \<noteq> 0 then ret status
     else andthen (parse_schema_mem P fs new_conf) (\<lambda>status.
     if status \<noteq> 0 then ret status
     else parse_aggregation_mem P fs new_conf))"

lemma parse_carbon_keeps_schema:
  assumes "conf_parse_carbon_file fs c = Inr (st, c')"
  shows "schema c' = schema c"
proof (cases "fopen_read fs (conf_file c)")
  case None
  then show ?thesis using assms by (simp add: conf_parse_carbon_file_def)
next
  case (Some content)
  then have "read_lines carbon_line content c = Inr (st, c')" using assms by (simp add: conf_parse_carbon_file_def)
  with refl show ?thesis
    by (rule read_lines_keeps [where Q = "\<lambda>d. schema d = schema c", rotated 2])
      (auto simp: carbon_line_def Let_def split: option.splits prod.splits if_splits)
qed

lemma conf_parse_refines:
  assumes alloc: "allocator_ok P" and old: "holds F m n c" and empty: "schema c = []"
  shows "refines (parse_rel F (fresh m) (cn_addr n)) (conf_parse_mem P fs (cn_addr n)) m (conf_parse P fs c)"
proof -
  let ?a = "cn_addr n" and ?R = "parse_rel F (fresh m) (cn_addr n)"
  have keep: "refines ?R f m' g" if "refines (\<lambda>st m' (st', c'). st = st' \<and> (\<exists>n'. cn_addr n' = ?a \<and> holds F m' n' c')) f m' g"
    for f m' g using that by (rule refines_weaken) (auto intro: parse_relI)
  have aggs: "refines ?R (parse_aggregation_mem P fs ?a) m' (conf_parse_storage_aggregation_file P fs c')"
    if "cn_addr n' = ?a" "holds F m' n' c'" for m' n' c'
    using parse_aggregation_refines [OF that(2)] that(1) by (intro keep) simp
  have schemas: "refines ?R (andthen (parse_schema_mem P fs ?a) (\<lambda>st. if st \<noteq> 0 then ret st else parse_aggregation_mem P fs ?a)) m'
      (bind_sum (conf_parse_storage_schema_file P fs c') (\<lambda>(st, c). if st \<noteq> 0 then Inr (st, c)
        else conf_parse_storage_aggregation_file P fs c))"
    if n': "cn_addr n' = ?a" "holds F m' n' c'" and c': "schema c' = []" for m' n' c'
  proof (rule refines_bind)
    show "refines (\<lambda>st m' (st', c'). st = st' \<and> (\<exists>n'. cn_addr n' = ?a \<and> holds F m' n' c'))
        (parse_schema_mem P fs ?a) m' (conf_parse_storage_schema_file P fs c')"
      using parse_schema_refines [OF alloc n'(2) c'] n'(1) by simp
  qed (auto intro: refines_ret parse_relI aggs split: prod.splits)
  show ?thesis
  proof (cases "conf_parse_carbon_file fs c")
    case (Inl e)
    then show ?thesis
      using parse_carbon_refines [OF alloc old, of fs] by (simp add: conf_parse_mem_def conf_parse_def andthen_def)
  next
    case (Inr sc)
    obtain st c' where sc: "sc = (st, c')" by (cases sc)
    obtain m' where m': "parse_carbon_mem P fs ?a m = Inr (st, m')" "?R st m' (st, c')"
      using parse_carbon_refines [OF alloc old, of fs] unfolding Inr sc by (auto elim!: refinesE simp: parse_rel_def)
    have c': "schema c' = []" using parse_carbon_keeps_schema [OF Inr [unfolded sc]] empty by simp
    show ?thesis
    proof (cases "st = 0")
      case True
      then obtain n' where "cn_addr n' = ?a" "holds F m' n' c'" using m'(2) by (auto simp: parse_rel_def)
      from schemas [OF this c'] show ?thesis
        unfolding conf_parse_mem_def conf_parse_def Inr sc bind_sum_simps
        by (intro refines_step [where f = "parse_carbon_mem P fs ?a", OF m'(1)]) (simp add: True)
    next
      case False
      then show ?thesis
        using m' Inr sc by (simp add: conf_parse_mem_def conf_parse_def refines_def andthen_def)
    qed
  qed
qed

section \<open>The reload\<close>

text \<open>
  \<open>conf_reload\<close>, with the pointer that the variable \<open>conf\<close> has afterwards. When the files
  cannot be parsed nothing is freed, the new configuration included.
\<close>

definition conf_reload_mem :: "platform \<Rightarrow> 'a fsys_scheme \<Rightarrow> tid set \<Rightarrow> addr \<Rightarrow> (mem, addr) prog" where
  "conf_reload_mem P fs launched conf =
     andthen (new_conf_copy P conf) (\<lambda>new_conf.
     andthen (conf_parse_mem P fs new_conf) (\<lambda>parse_status.
     if parse_status \<noteq> 0 then ret conf
     else if launched \<noteq> UNIV then halt NullDeref
     else andthen (conf_free conf) (\<lambda>_. ret new_conf)))"

lemma copy_holds:
  assumes old: "holds F m n c" and alloc: "allocator_ok P" and fit: "paths_fit c"
  obtains m' where "new_conf_copy P (cn_addr n) m = Inr (fresh m, m')"
    "holds (blocks m) m' (copy_node (fresh m)) (conf_copy c)"
proof -
  let ?n = "copy_node (fresh m)"
  obtain m' where m': "new_conf_copy P (cn_addr n) m = Inr (fresh m, m')"
    "conf_at (blocks m') ?n (c\<lparr>schema := [], aggregation := []\<rparr>)"
    "\<forall>a. a \<notin> set (conf_foot ?n) \<longrightarrow> blocks m' a = blocks m a" "fresh m' = fresh m + 4"
    using new_conf_copy_spec [OF holds_conf [OF old] _ alloc fit] old by (auto simp: holds_def)
  have "owned m' (conf_foot ?n)" by (simp add: owned_def conf_foot_copy m'(4))
  moreover have "(blocks m' |` (- set (conf_foot ?n))) a = blocks m a" for a
    using m'(3) holds_unused(1) [OF old, of a] by (auto simp: restrict_map_def conf_foot_copy)
  moreover have "dom (blocks m) \<subseteq> {..<fresh m'}"
  proof
    fix a assume "a \<in> dom (blocks m)"
    then have "\<not> fresh m \<le> a" using holds_unused(1) [OF old, of a] by auto
    then show "a \<in> {..<fresh m'}" by (simp add: m'(4))
  qed
  ultimately have "holds (blocks m) m' ?n (conf_copy c)" using m'(2) by (simp add: holds_def conf_copy_def fun_eq_iff)
  then show ?thesis by (rule that [OF m'(1)])
qed

lemma map_le_Some: "f \<subseteq>\<^sub>m g \<Longrightarrow> f a = Some b \<Longrightarrow> g a = Some b"
  by (force simp: map_le_def)

text \<open>A second configuration beside the first: freeing one leaves the other one with the rest.\<close>

lemma old_beside_new:
  assumes old: "holds F m n c" and new: "holds F' m' n' c'" and beside: "blocks m \<subseteq>\<^sub>m F'"
  shows "conf_at (blocks m') n c" "owned m' (conf_foot n)" "set (conf_foot n) \<inter> set (conf_foot n') = {}"
proof -
  have foot: "set (conf_foot n) \<subseteq> dom (blocks m)" by (rule conf_at_foot [OF holds_conf [OF old]])
  have sub: "blocks m \<subseteq>\<^sub>m blocks m'" by (rule map_le_trans [OF beside holds_dom(3) [OF new]])
  show "conf_at (blocks m') n c"
    by (rule conf_at_cong [OF holds_conf [OF old]]) (use foot map_le_Some [OF sub] in \<open>fastforce simp: dom_def\<close>)
  have dom: "dom (blocks m) \<subseteq> dom F'" by (rule map_le_implies_dom_le [OF beside])
  have "dom F' \<subseteq> {..<fresh m'}" using new by (simp add: holds_def)
  then have "\<forall>a\<in>set (conf_foot n). a < fresh m'" using foot dom by blast
  then show "owned m' (conf_foot n)" using old by (simp add: holds_def owned_def)
  show "set (conf_foot n) \<inter> set (conf_foot n') = {}" using foot dom holds_dom(2) [OF new] by blast
qed

lemma replace_conf:
  assumes old: "holds F m n c" and new: "holds (blocks m) m' n' c'"
  obtains m'' where "conf_free (cn_addr n) m' = Inr ((), m'')" "holds F m'' n' c'"
proof -
  note beside = old_beside_new [OF old new map_le_refl]
  let ?m = "m'\<lparr>blocks := blocks m' |` (- set (conf_foot n))\<rparr>"
  have F: "F = blocks m |` (- set (conf_foot n))" "dom F \<subseteq> {..<fresh m}" using old by (simp_all add: holds_def)
  have m: "blocks m = blocks m' |` (- set (conf_foot n'))" "dom (blocks m) \<subseteq> {..<fresh m'}" using new by (simp_all add: holds_def)
  have "blocks ?m |` (- set (conf_foot n')) = F" by (simp add: F(1) m(1) Int_commute)
  moreover have "dom F \<subseteq> {..<fresh ?m}" using m(2) by (auto simp: F(1))
  moreover have "conf_at (blocks ?m) n' c'"
    by (rule conf_at_cong [OF holds_conf [OF new]]) (use beside(3) in \<open>auto simp: restrict_map_def\<close>)
  ultimately have "holds F ?m n' c'" using new by (simp add: holds_def owned_def)
  then show ?thesis by (rule that [OF conf_free_frees [OF beside(1,2)]])
qed

text \<open>
  What a reload leaves. When the files could be parsed, the memory is the new configuration
  and the blocks \<open>F\<close> that were there before. When they could not, it is the old configuration,
  \<open>F\<close>, and a second configuration that no variable points to.
\<close>

definition reload_rel :: "block heap \<Rightarrow> conf_node \<Rightarrow> bool \<Rightarrow> addr \<Rightarrow> mem \<Rightarrow> carbon_conf \<Rightarrow> bool" where
  "reload_rel F n parsed p m c \<longleftrightarrow>
     (if parsed then \<exists>n'. cn_addr n' = p \<and> holds F m n' c
      else p = cn_addr n \<and> (\<exists>F' n' c'. holds F' m n c \<and> F \<subseteq>\<^sub>m F' \<and> conf_at F' n' c' \<and>
        distinct (conf_foot n') \<and> dom F \<inter> set (conf_foot n') = {}))"

text \<open>After files that cannot be parsed, the new configuration stays beside the old one.\<close>

lemma failed_reload:
  assumes old: "holds F m n c" and new: "holds F' m2 n' d" and le: "blocks m \<subseteq>\<^sub>m F'"
  shows "reload_rel F n False (cn_addr n) m2 c"
proof -
  note beside = old_beside_new [OF old new le]
  define G where "G = blocks m2 |` (- set (conf_foot n))"
  have "dom (blocks m2) \<subseteq> {..<fresh m2}"
    using new holds_dom(1) [OF new] by (auto simp: holds_def owned_def)
  then have "holds G m2 n c" using beside(1,2) by (auto simp: holds_def G_def)
  moreover have "F = blocks m |` (- set (conf_foot n))" using old by (simp add: holds_def)
  then have "F \<subseteq>\<^sub>m G"
    using map_le_Some [OF map_le_trans [OF le holds_dom(3) [OF new]]]
    by (auto simp: G_def map_le_def restrict_map_def split: if_splits)
  moreover have "conf_at G n' d"
    by (rule conf_at_cong [OF holds_conf [OF new]]) (use beside(3) in \<open>auto simp: G_def restrict_map_def\<close>)
  moreover have "dom F \<inter> set (conf_foot n') = {}"
    using map_le_implies_dom_le [OF holds_dom(3) [OF old]] map_le_implies_dom_le [OF le] holds_dom(2) [OF new] by blast
  moreover have "distinct (conf_foot n')" using new by (simp add: holds_def owned_def)
  ultimately show ?thesis by (auto simp: reload_rel_def)
qed

lemma reload_refines:
  assumes old: "holds F m n c" and alloc: "allocator_ok P" and fit: "paths_fit c"
  shows "refines (reload_rel F n (\<exists>d. conf_parse P fs (conf_copy c) = Inr (0, d)))
    (conf_reload_mem P fs launched (cn_addr n)) m (conf_reload P fs launched c)"
proof -
  obtain m1 where m1: "new_conf_copy P (cn_addr n) m = Inr (fresh m, m1)"
    "holds (blocks m) m1 (copy_node (fresh m)) (conf_copy c)"
    by (rule copy_holds [OF old alloc fit])
  have parse: "refines (parse_rel (blocks m) (fresh m1) (fresh m)) (conf_parse_mem P fs (fresh m)) m1 (conf_parse P fs (conf_copy c))"
    using conf_parse_refines [OF alloc m1(2), of fs] by (simp add: conf_copy_def copy_node_def)
  show ?thesis
  proof (cases "conf_parse P fs (conf_copy c)")
    case (Inl e)
    then show ?thesis using parse m1(1) by (simp add: conf_reload_mem_def conf_reload_def andthen_def)
  next
    case (Inr r)
    obtain st d where r: "r = (st, d)" by (cases r)
    obtain m2 where m2: "conf_parse_mem P fs (fresh m) m1 = Inr (st, m2)" "parse_rel (blocks m) (fresh m1) (fresh m) st m2 (st, d)"
      using parse unfolding Inr r by (auto elim!: refinesE simp: parse_rel_def)
    obtain n' F' where n': "cn_addr n' = fresh m" "holds F' m2 n' d" "leaks (blocks m) (fresh m1) F'" "st = 0 \<longrightarrow> F' = blocks m"
      using m2(2) by (auto simp: parse_rel_def)
    show ?thesis
    proof (cases "st = 0")
      case True
      then have new: "holds (blocks m) m2 n' d" using n'(2,4) by simp
      obtain m3 where m3: "conf_free (cn_addr n) m2 = Inr ((), m3)" "holds F m3 n' d" by (rule replace_conf [OF old new])
      then show ?thesis
        using m1(1) m2(1) Inr r True n'(1)
        by (auto simp: conf_reload_mem_def conf_reload_def refines_def reload_rel_def andthen_def)
    next
      case False
      have none: "blocks m (fresh m1) = None" using holds_unused(2) [OF m1(2)] by simp
      have le: "blocks m \<subseteq>\<^sub>m F'" using n'(3) none by (auto simp: leaks_def map_le_def)
      have "reload_rel F n False (cn_addr n) m2 c" by (rule failed_reload [OF old n'(2) le])
      then show ?thesis
        using m1(1) m2(1) Inr r False by (simp add: conf_reload_mem_def conf_reload_def refines_def andthen_def)
    qed
  qed
qed

section \<open>Any number of reloads\<close>

fun conf_reloads_mem :: "platform \<Rightarrow> 'a fsys_scheme list \<Rightarrow> addr \<Rightarrow> (mem, addr) prog" where
  "conf_reloads_mem P [] conf = ret conf"
| "conf_reloads_mem P (fs # fss) conf = andthen (conf_reload_mem P fs UNIV conf) (conf_reloads_mem P fss)"

text \<open>How many of the reloads find files that they cannot parse.\<close>

fun failed_reloads :: "platform \<Rightarrow> 'a fsys_scheme list \<Rightarrow> carbon_conf \<Rightarrow> nat" where
  "failed_reloads P [] c = 0"
| "failed_reloads P (fs # fss) c =
     (case conf_parse P fs (conf_copy c) of
        Inl e \<Rightarrow> 0
      | Inr (status, d) \<Rightarrow> if status = 0 then failed_reloads P fss d else Suc (failed_reloads P fss c))"

text \<open>The memory after reloads of which \<open>k\<close> failed: each of these leaves at least four blocks.\<close>

definition reloads_rel :: "block heap \<Rightarrow> nat \<Rightarrow> addr \<Rightarrow> mem \<Rightarrow> carbon_conf \<Rightarrow> bool" where
  "reloads_rel F k p m c \<longleftrightarrow> (\<exists>n F'. cn_addr n = p \<and> holds F' m n c \<and> F \<subseteq>\<^sub>m F' \<and>
     (k = 0 \<longrightarrow> F' = F) \<and> card (dom F) + 4 * k \<le> card (dom F'))"

lemma holds_finite: "holds F m n c \<Longrightarrow> finite (dom F)"
  unfolding holds_def by (meson finite_lessThan finite_subset)

lemma leaked_blocks:
  assumes "F \<subseteq>\<^sub>m F'" "conf_at F' n c" "distinct (conf_foot n)" "dom F \<inter> set (conf_foot n) = {}" "finite (dom F')"
  shows "card (dom F) + 4 \<le> card (dom F')"
proof -
  have sub: "dom F \<subseteq> dom F'" "finite (dom F)"
    using map_le_implies_dom_le [OF assms(1)] finite_subset [OF _ assms(5)] by blast+
  have "4 \<le> length (conf_foot n)" by (simp add: conf_foot_def)
  then have "card (dom F) + 4 \<le> card (dom F) + card (set (conf_foot n))"
    using distinct_card [OF assms(3)] by simp
  also have "\<dots> = card (dom F \<union> set (conf_foot n))"
    using assms(4) sub(2) by (simp add: card_Un_disjoint)
  also have "\<dots> \<le> card (dom F')"
    using assms(5) conf_at_foot [OF assms(2)] sub(1) by (intro card_mono) auto
  finally show ?thesis .
qed

text \<open>What one reload adds to the rest of the heap.\<close>

lemma reload_rel_rest:
  assumes "reload_rel F n (st = 0) p m d"
  obtains n' F' where "cn_addr n' = p" "holds F' m n' d" "F \<subseteq>\<^sub>m F'" "st = 0 \<longrightarrow> F' = F"
    "card (dom F) + (if st = 0 then 0 else 4) \<le> card (dom F')"
proof (cases "st = 0")
  case True
  then show ?thesis using assms that by (auto simp: reload_rel_def)
next
  case False
  then obtain F' n2 c2 where F': "p = cn_addr n" "holds F' m n d" "F \<subseteq>\<^sub>m F'" "conf_at F' n2 c2"
    "distinct (conf_foot n2)" "dom F \<inter> set (conf_foot n2) = {}"
    using assms by (auto simp: reload_rel_def)
  from leaked_blocks [OF F'(3-6) holds_finite [OF F'(2)]] show ?thesis
    using that [of n F'] F'(1-3) False by simp
qed

lemma reloads_rel_after:
  assumes r: "reloads_rel F' k q m c" and le: "F \<subseteq>\<^sub>m F'" and same: "j = 0 \<longrightarrow> F' = F"
    and card: "card (dom F) + 4 * j \<le> card (dom F')"
  shows "reloads_rel F (j + k) q m c"
proof -
  obtain n2 F2 where n2: "cn_addr n2 = q" "holds F2 m n2 c" "F' \<subseteq>\<^sub>m F2" "k = 0 \<longrightarrow> F2 = F'"
    "card (dom F') + 4 * k \<le> card (dom F2)"
    using r by (auto simp: reloads_rel_def)
  then show ?thesis
    unfolding reloads_rel_def using same card map_le_trans [OF le n2(3)]
    by (intro exI [of _ n2] exI [of _ F2]) auto
qed

lemma reloads_refine:
  assumes alloc: "allocator_ok P"
  shows "holds F m n c \<Longrightarrow> conf_wf c \<Longrightarrow>
    refines (reloads_rel F (failed_reloads P fss c)) (conf_reloads_mem P fss (cn_addr n)) m (conf_reloads P fss c)"
proof (induction fss arbitrary: F m n c)
  case Nil
  then show ?case by (auto simp: refines_def reloads_rel_def)
next
  case (Cons fs fss)
  let ?parsed = "\<exists>d. conf_parse P fs (conf_copy c) = Inr (0, d)"
  have step: "refines (reload_rel F n ?parsed) (conf_reload_mem P fs UNIV (cn_addr n)) m (conf_reload P fs UNIV c)"
    by (rule reload_refines [OF Cons.prems(1) alloc conf_wf_paths [OF Cons.prems(2)]])
  show ?case
  proof (cases "conf_reload P fs UNIV c")
    case (Inl e)
    then show ?thesis using step by (simp add: andthen_def)
  next
    case (Inr d)
    obtain p m' where m': "conf_reload_mem P fs UNIV (cn_addr n) m = Inr (p, m')" "reload_rel F n ?parsed p m' d"
      using step unfolding Inr by (elim refinesE)
    have wf: "conf_wf d" by (rule conf_reload_wf [OF Cons.prems(2) Inr])
    obtain st e where parse: "conf_parse P fs (conf_copy c) = Inr (st, e)" "d = (if st = 0 then e else c)"
      using Inr by (auto simp: conf_reload_def bind_sum_def split: sum.splits if_splits)
    have rel: "reload_rel F n (st = 0) p m' d" using m'(2) parse(1) by simp
    obtain n' F' where n': "cn_addr n' = p" "holds F' m' n' d" "F \<subseteq>\<^sub>m F'" "st = 0 \<longrightarrow> F' = F"
      "card (dom F) + (if st = 0 then 0 else 4) \<le> card (dom F')"
      by (rule reload_rel_rest [OF rel])
    have rest: "refines (reloads_rel F' (failed_reloads P fss d)) (conf_reloads_mem P fss p) m' (conf_reloads P fss d)"
      using Cons.IH [OF n'(2) wf] n'(1) by simp
    have count: "failed_reloads P (fs # fss) c = (if st = 0 then 0 else 1) + failed_reloads P fss d"
      using parse by simp
    have "reloads_rel F (failed_reloads P (fs # fss) c) q m'' c'" if "reloads_rel F' (failed_reloads P fss d) q m'' c'" for q m'' c'
      unfolding count using n'(4,5) by (intro reloads_rel_after [OF that n'(3)]) auto
    then have "refines (reloads_rel F (failed_reloads P (fs # fss) c)) (conf_reloads_mem P fss p) m' (conf_reloads P fss d)"
      by (rule refines_weaken [OF rest])
    then show ?thesis
      unfolding conf_reloads_mem.simps conf_reloads.simps Inr bind_sum_simps
      by (rule_tac refines_step, rule_tac m'(1))
  qed
qed

end
