(* ===== verification/Conf_Heap_Start.thy ===== *)
theory Conf_Heap_Start
  imports Conf_Heap_Reload
begin

text \<open>
  The start of \<open>main\<close> as far as it makes the configuration on the heap: the defaults, the
  command line and the files. From an empty heap it refines \<open>main_start\<close> of \<open>Daemon\<close>.
\<close>

section \<open>Defaults\<close>

text \<open>
  A path made of two strings in a cleared block of \<open>PATH_MAX\<close> bytes: \<open>strncpy\<close> of the first
  one, and \<open>strncat\<close> of the second behind it, with the terminating NUL.
\<close>

definition cat_path :: "platform \<Rightarrow> string \<Rightarrow> string \<Rightarrow> (mem, addr) prog" where
  "cat_path P s t =
     (if usable P PATH_MAX < length s then halt HeapOverflow
      else if PATH_MAX \<le> length s then halt OutOfBounds
      else if usable P PATH_MAX < length s + length t + 1 then halt HeapOverflow
      else alloc (Str (s @ t)))"

definition default_conf_mem :: "platform \<Rightarrow> string \<Rightarrow> string \<Rightarrow> (mem, addr) prog" where
  "default_conf_mem P sysconfdir localstatedir =
     andthen (alloc (Conf empty_conf_cell)) (\<lambda>conf.
     let c = empty_conf_cell\<lparr>cc_run := True, cc_tracing := False, cc_log_level := LOG_LEVEL_INFO\<rparr> in
     andthen (store conf (Conf c)) (\<lambda>_.
     andthen (dup_path P sysconfdir) (\<lambda>d.
     andthen (store conf (Conf (c\<lparr>cc_conf_dir := Some d\<rparr>))) (\<lambda>_.
     andthen (cat_path P sysconfdir ''/carbon.conf'') (\<lambda>f.
     andthen (store conf (Conf (c\<lparr>cc_conf_dir := Some d, cc_conf_file := Some f\<rparr>))) (\<lambda>_.
     andthen (dup_path P localstatedir) (\<lambda>t.
     andthen (store conf (Conf (c\<lparr>cc_conf_dir := Some d, cc_conf_file := Some f, cc_storage_dir := Some t,
       cc_line_receiver_port := 2003, cc_udp_receiver_port := 2003, cc_schema := None, cc_aggregation := None\<rparr>))) (\<lambda>_.
     ret conf))))))))"

definition empty_mem :: mem where
  "empty_mem = \<lparr>blocks = Map.empty, fresh = 0\<rparr>"

lemma default_holds:
  assumes "allocator_ok P" "path_fits (sysconfdir @ ''/carbon.conf'')" "path_fits localstatedir"
  obtains m where "default_conf_mem P sysconfdir localstatedir empty_mem = Inr (0, m)"
    "holds Map.empty m (copy_node 0) (default_conf sysconfdir localstatedir)"
proof -
  let ?c = "\<lparr>cc_schema = None, cc_aggregation = None, cc_conf_dir = Some 1, cc_conf_file = Some 2,
     cc_storage_dir = Some 3, cc_line_receiver_port = 2003, cc_udp_receiver_port = 2003, cc_run = True,
     cc_tracing = False, cc_log_level = LOG_LEVEL_INFO\<rparr>"
  let ?m = "\<lparr>blocks = [0 \<mapsto> Conf ?c, 1 \<mapsto> Str sysconfdir, 2 \<mapsto> Str (sysconfdir @ ''/carbon.conf''), 3 \<mapsto> Str localstatedir],
     fresh = 4\<rparr>"
  have len: "length sysconfdir + length ''/carbon.conf'' < PATH_MAX" "length localstatedir < PATH_MAX"
    using assms(2,3) by (simp_all add: path_fits_def)
  have use: "PATH_MAX \<le> usable P PATH_MAX" using assms(1) unfolding allocator_ok_def by blast
  have dup: "dup_path P sysconfdir = alloc (Str sysconfdir)" "dup_path P localstatedir = alloc (Str localstatedir)"
    using len by (auto intro: dup_path_fits [OF assms(1)])
  have cat: "cat_path P sysconfdir ''/carbon.conf'' = alloc (Str (sysconfdir @ ''/carbon.conf''))"
    using len(1) use unfolding cat_path_def by simp
  have "default_conf_mem P sysconfdir localstatedir empty_mem = Inr (0, ?m)"
    by (simp add: default_conf_mem_def empty_mem_def dup cat mem_simps Let_def empty_conf_cell_def numeral_eq_Suc
        fun_upd_twist)
  moreover have "conf_at (blocks ?m) (copy_node 0) (default_conf sysconfdir localstatedir)"
    by (simp add: conf_at_def copy_node_def default_conf_def)
  moreover have "owned ?m (conf_foot (copy_node 0))" by (simp add: owned_def conf_foot_copy)
  moreover have "blocks ?m |` (- set (conf_foot (copy_node 0))) = Map.empty"
    by (auto simp: conf_foot_copy restrict_map_def)
  ultimately show ?thesis using that [of ?m] by (simp add: holds_def)
qed

section \<open>The command line\<close>

text \<open>The copy of a file name is not terminated: it goes on with what the block held before.\<close>

definition optarg_copy :: "platform \<Rightarrow> string \<Rightarrow> string \<Rightarrow> (mem, addr) prog" where
  "optarg_copy P optarg block =
     (if usable P PATH_MAX < length optarg then halt HeapOverflow
      else alloc (Str (cstr (optarg @ drop (length optarg) block))))"

fun parse_args_mem :: "platform \<Rightarrow> cmd_option list \<Rightarrow> addr \<Rightarrow> (mem, unit) prog" where
  "parse_args_mem P [] conf = ret ()"
| "parse_args_mem P (OptHelp # opts) conf = halt (Exit 0)"
| "parse_args_mem P (OptConf optarg block # opts) conf =
     andthen (load_conf conf) (\<lambda>c.
     andthen (free (cc_conf_file c)) (\<lambda>_.
     andthen (optarg_copy P optarg block) (\<lambda>f.
     andthen (store conf (Conf (c\<lparr>cc_conf_file := Some f\<rparr>))) (\<lambda>_.
     parse_args_mem P opts conf))))"
| "parse_args_mem P (OptDebug # opts) conf =
     andthen (load_conf conf) (\<lambda>c.
     andthen (store conf (Conf (c\<lparr>cc_tracing := True, cc_log_level := LOG_LEVEL_DEBUG\<rparr>))) (\<lambda>_.
     parse_args_mem P opts conf))"
| "parse_args_mem P (OptOther # opts) conf = parse_args_mem P opts conf"

lemma replace_file:
  assumes old: "holds F m n c" and cell: "blocks m (cn_addr n) = Some (Conf cc)"
  shows "free (cc_conf_file cc) m = Inr ((), m\<lparr>blocks := (blocks m)(cn_file n := None)\<rparr>)"
    and "holds F (path_replaced (cn_addr n) (cn_file n) (cc\<lparr>cc_conf_file := Some (fresh m)\<rparr>) v m)
      (n\<lparr>cn_file := fresh m\<rparr>) (c\<lparr>conf_file := v\<rparr>)"
proof -
  note at = holds_conf [OF old]
  note vals = conf_values [OF at cell]
  have own: "distinct (conf_foot n)" "\<forall>a\<in>set (conf_foot n). a < fresh m" using old by (simp_all add: holds_def owned_def)
  show "free (cc_conf_file cc) m = Inr ((), m\<lparr>blocks := (blocks m)(cn_file n := None)\<rparr>)"
    by (simp add: vals(2,5))
  have "conf_at (blocks (path_replaced (cn_addr n) (cn_file n) (cc\<lparr>cc_conf_file := Some (fresh m)\<rparr>) v m))
      (n\<lparr>cn_file := fresh m\<rparr>) (c\<lparr>conf_file := v\<rparr>)"
    by (rule conf_at_keep_lists [OF at cell, where cc' = "cc\<lparr>cc_conf_file := Some (fresh m)\<rparr>"])
      (use own vals in \<open>auto simp: path_replaced_def conf_foot_def\<close>)
  then show "holds F (path_replaced (cn_addr n) (cn_file n) (cc\<lparr>cc_conf_file := Some (fresh m)\<rparr>) v m)
      (n\<lparr>cn_file := fresh m\<rparr>) (c\<lparr>conf_file := v\<rparr>)"
    by (intro path_replaced_holds [OF old cell, where as = "[cn_addr n, cn_dir n]"]) (simp_all add: conf_foot_def)
qed

lemma parse_args_refines:
  "holds F m n c \<Longrightarrow> refines (\<lambda>_ m' c'. \<exists>n'. cn_addr n' = cn_addr n \<and> holds F m' n' c')
    (parse_args_mem P opts (cn_addr n)) m (parse_args P opts c)"
proof (induction P opts c arbitrary: m n rule: parse_args.induct)
  case (3 P optarg block opts c)
  obtain cc where cell: "blocks m (cn_addr n) = Some (Conf cc)" by (rule conf_at_cases [OF holds_conf [OF "3.prems"]])
  note repl = replace_file [OF "3.prems" cell]
  have own: "distinct (conf_foot n)" "\<forall>a\<in>set (conf_foot n). a < fresh m"
    using "3.prems" by (simp_all add: holds_def owned_def)
  show ?case
  proof (cases "usable P PATH_MAX < length optarg")
    case True
    then show ?thesis using cell repl(1) by (simp add: optarg_copy_def mem_simps)
  next
    case False
    let ?v = "cstr (optarg @ drop (length optarg) block)"
    let ?m' = "path_replaced (cn_addr n) (cn_file n) (cc\<lparr>cc_conf_file := Some (fresh m)\<rparr>) ?v m"
    have "refines (\<lambda>_ m' c'. \<exists>n'. cn_addr n' = cn_addr n \<and> holds F m' n' c') (parse_args_mem P opts (cn_addr n)) ?m'
        (parse_args P opts (c\<lparr>conf_file := ?v\<rparr>))"
      using "3.IH" [OF False repl(2) [of ?v]] by simp
    moreover have "parse_args_mem P (OptConf optarg block # opts) (cn_addr n) m = parse_args_mem P opts (cn_addr n) ?m'"
      using cell repl(1) own False
      by (simp add: optarg_copy_def mem_simps path_replaced_def conf_foot_def fun_upd_twist)
        (rule arg_cong [where f = "parse_args_mem P opts (cn_addr n)"], simp)
    moreover have "parse_args P (OptConf optarg block # opts) c = parse_args P opts (c\<lparr>conf_file := ?v\<rparr>)"
      using False by simp
    ultimately show ?thesis unfolding refines_def by (simp only:)
  qed
next
  case (4 P opts c)
  note at = holds_conf [OF "4.prems"]
  obtain cc where cell: "blocks m (cn_addr n) = Some (Conf cc)" by (rule conf_at_cases [OF at])
  let ?cc = "cc\<lparr>cc_tracing := True, cc_log_level := LOG_LEVEL_DEBUG\<rparr>"
  have dist: "distinct (conf_foot n)" using "4.prems" by (simp add: holds_def owned_def)
  have "holds F (m\<lparr>blocks := (blocks m)(cn_addr n \<mapsto> Conf ?cc)\<rparr>) n (c\<lparr>tracing := True, conf_log_level := LOG_LEVEL_DEBUG\<rparr>)"
    by (rule store_values [OF "4.prems" cell], rule conf_at_other_values [OF at cell dist refl])
      (simp_all add: conf_values [OF at cell])
  from "4.IH" [OF this]
  have "refines (\<lambda>_ m' c'. \<exists>n'. cn_addr n' = cn_addr n \<and> holds F m' n' c') (parse_args_mem P opts (cn_addr n))
      (m\<lparr>blocks := (blocks m)(cn_addr n \<mapsto> Conf ?cc)\<rparr>) (parse_args P (OptDebug # opts) c)" by simp
  moreover have "parse_args_mem P (OptDebug # opts) (cn_addr n) m =
      parse_args_mem P opts (cn_addr n) (m\<lparr>blocks := (blocks m)(cn_addr n \<mapsto> Conf ?cc)\<rparr>)"
    using cell by (simp add: mem_simps)
  ultimately show ?case unfolding refines_def by (simp only:)
qed (auto simp: refines_def)

section \<open>The start and the reloads\<close>

definition main_conf_mem :: "platform \<Rightarrow> 'a fsys_scheme \<Rightarrow> string \<Rightarrow> string \<Rightarrow> cmd_option list \<Rightarrow> (mem, addr) prog" where
  "main_conf_mem P fs sysconfdir localstatedir opts =
     andthen (default_conf_mem P sysconfdir localstatedir) (\<lambda>conf.
     andthen (parse_args_mem P opts conf) (\<lambda>_.
     andthen (conf_parse_mem P fs conf) (\<lambda>status.
     if status \<noteq> 0 then halt (Exit EXIT_FAILURE) else ret conf)))"

lemma parse_args_schema: "parse_args P opts c = Inr c' \<Longrightarrow> schema c' = schema c"
  by (induction P opts c rule: parse_args.induct) (auto split: if_splits)

lemma main_conf_refines:
  assumes alloc: "allocator_ok P" and fit: "path_fits (sysconfdir @ ''/carbon.conf'')" "path_fits localstatedir"
  shows "refines (\<lambda>p m (c, d). \<exists>n. cn_addr n = p \<and> holds Map.empty m n c)
    (main_conf_mem P i sysconfdir localstatedir opts) empty_mem (main_start P i sysconfdir localstatedir opts)"
proof -
  let ?c = "default_conf sysconfdir localstatedir"
  obtain m where m: "default_conf_mem P sysconfdir localstatedir empty_mem = Inr (0, m)" "holds Map.empty m (copy_node 0) ?c"
    by (rule default_holds [OF alloc fit])
  have args: "refines (\<lambda>_ m' c'. \<exists>n'. cn_addr n' = 0 \<and> holds Map.empty m' n' c') (parse_args_mem P opts 0) m (parse_args P opts ?c)"
    using parse_args_refines [OF m(2), of P opts] by (simp add: copy_node_def)
  show ?thesis
  proof (cases "parse_args P opts ?c")
    case (Inl e)
    then show ?thesis using args m(1) by (simp add: main_conf_mem_def main_start_def andthen_def)
  next
    case (Inr c0)
    obtain n m0 where m0: "parse_args_mem P opts 0 m = Inr ((), m0)" "cn_addr n = 0" "holds Map.empty m0 n c0"
      using args unfolding Inr by (auto elim!: refinesE)
    have "schema c0 = []" using parse_args_schema [OF Inr] by (simp add: default_conf_def)
    from conf_parse_refines [OF alloc m0(3) this, of i]
    have parse: "refines (parse_rel Map.empty (fresh m0) 0) (conf_parse_mem P i 0) m0 (conf_parse P i c0)" by (simp add: m0(2))
    show ?thesis
    proof (cases "conf_parse P i c0")
      case e: (Inl e)
      then show ?thesis using parse m(1) m0(1) Inr by (simp add: main_conf_mem_def main_start_def andthen_def)
    next
      case r: (Inr r)
      obtain st c where sc: "r = (st, c)" by (cases r)
      obtain m1 where m1: "conf_parse_mem P i 0 m0 = Inr (st, m1)" "parse_rel Map.empty (fresh m0) 0 st m1 (st, c)"
        using parse unfolding r sc by (auto elim!: refinesE simp: parse_rel_def)
      show ?thesis
      proof (cases "st = 0")
        case True
        then obtain n1 where "cn_addr n1 = 0" "holds Map.empty m1 n1 c" using m1(2) by (auto simp: parse_rel_def)
        then show ?thesis
          using m(1) m0(1) m1(1) Inr r sc True
          by (auto simp: main_conf_mem_def main_start_def andthen_def database_init_def refines_def new_daemon_def)
      next
        case False
        then show ?thesis using m(1) m0(1) m1(1) Inr r sc by (simp add: main_conf_mem_def main_start_def andthen_def)
      qed
    qed
  qed
qed

end
