(* ===== verification/Memory_Properties.thy ===== *)
theory Memory_Properties
  imports Process_Properties Conf_Heap_Start
begin

text \<open>
  The properties of the configuration in memory: what the parsers build there, and what the
  start and the reloads leave on the heap over the whole life of the daemon.
\<close>

section \<open>The schemas\<close>

text \<open>C13: the parser of the schemas builds linked lists, entry by entry and retention by retention.
  Whatever the file holds, it stops for the reason for which the parser on lists of \<open>Conf\<close>
  stops, or it ends with the same status and the blocks of the configuration then stand for
  what that parser gives. Apart from them the memory is as before: the copies of the
  strings of retentions are freed, and no block is lost.\<close>

theorem schemas_in_memory:
  assumes "holds F m n c" "schema c = []" "allocator_ok P"
  shows "case conf_parse_storage_schema_file P fs c of
      Inl e \<Rightarrow> parse_schema_mem P fs (cn_addr n) m = Inl e
    | Inr (status, c') \<Rightarrow> \<exists>n' m'. parse_schema_mem P fs (cn_addr n) m = Inr (status, m') \<and>
        cn_addr n' = cn_addr n \<and> holds F m' n' c'"
  using parse_schema_refines [OF assms(3,1,2), of fs] by (auto simp: refines_def split: sum.splits)

theorem schemas_in_memory_witness:
  "\<exists>n m m'. parse_schema_mem tiny_platform conf_fs 0 m = Inr (0, m') \<and>
     holds Map.empty m' n ((default_conf ''/f'' ''/s'')\<lparr>schema := [schema_entry tiny_entry]\<rparr>)"
proof -
  let ?c = "default_conf ''/f'' ''/s''"
  have "path_fits (''/f'' @ ''/carbon.conf'')" "path_fits ''/s''" by (simp_all add: path_fits_def)
  then obtain m where m: "holds Map.empty m (copy_node 0) ?c" by (rule default_holds [OF tiny_alloc])
  have c: "schema ?c = []" "length (conf_dir ?c) \<le> 4000" by (simp_all add: default_conf_def)
  have "fopen_read conf_fs (conf_dir ?c @ ''/storage-schemas.conf'') = Some (unlines (concat (map schema_lines [tiny_entry])))"
    using conf_fs_files by (simp add: conf_files_def Let_def default_conf_def settings_def two_settings_def)
  then have "conf_parse_storage_schema_file tiny_platform conf_fs ?c = Inr (0, ?c\<lparr>schema := map schema_entry [tiny_entry]\<rparr>)"
    using tiny_entry_ok tiny_alloc c(2) by (intro schema_file_read_back) simp_all
  then show ?thesis
    using schemas_in_memory [OF m c(1) tiny_alloc, of conf_fs] by (auto simp: copy_node_def)
qed

section \<open>The life of the configuration\<close>

text \<open>C12: from an empty heap, the start and any number of reloads stop for the reason for which the
  operations on configurations stop, or end with a pointer to blocks that stand for the
  configuration they give. As long as the files of every reload can be parsed, these blocks are all that
  is on the heap: nothing is lost, and nothing is freed twice or used after it was freed.
  Each reload that fails leaves a configuration behind, which is at least four blocks.\<close>

theorem configuration_memory:
  assumes "allocator_ok P" "set opts \<subseteq> {OptHelp, OptDebug, OptOther}"
    and "path_fits (sysconfdir @ ''/carbon.conf'')" "path_fits localstatedir"
  shows "case bind_sum (main_start P i sysconfdir localstatedir opts) (\<lambda>(c, _).
        bind_sum (conf_reloads P fss c) (\<lambda>c'. Inr (failed_reloads P fss c, c'))) of
      Inl e \<Rightarrow> andthen (main_conf_mem P i sysconfdir localstatedir opts) (conf_reloads_mem P fss) empty_mem = Inl e
    | Inr (failed, c') \<Rightarrow> \<exists>n m F.
        andthen (main_conf_mem P i sysconfdir localstatedir opts) (conf_reloads_mem P fss) empty_mem = Inr (cn_addr n, m) \<and>
        holds F m n c' \<and> (failed = 0 \<longrightarrow> F = Map.empty) \<and> 4 * failed \<le> card (dom F)"
proof (cases "main_start P i sysconfdir localstatedir opts")
  case (Inl e)
  then show ?thesis using main_conf_refines [OF assms(1,3,4), of i opts] by (simp add: andthen_def)
next
  case (Inr cd)
  obtain c d where cd: "cd = (c, d)" by (cases cd)
  note start = Inr [unfolded cd]
  obtain n m where m: "main_conf_mem P i sysconfdir localstatedir opts empty_mem = Inr (cn_addr n, m)" "holds Map.empty m n c"
    using main_conf_refines [OF assms(1,3,4), of i opts] unfolding start by (auto elim!: refinesE)
  have "refines (reloads_rel Map.empty (failed_reloads P fss c)) (conf_reloads_mem P fss (cn_addr n)) m (conf_reloads P fss c)"
    by (rule reloads_refine [OF assms(1) m(2) main_start_wf [OF start assms(2-4)]])
  note reloads = this
  show ?thesis
  proof (cases "conf_reloads P fss c")
    case (Inl e)
    then show ?thesis using reloads m(1) by (simp add: start andthen_def)
  next
    case (Inr c')
    obtain n' m' F where m': "conf_reloads_mem P fss (cn_addr n) m = Inr (cn_addr n', m')" "holds F m' n' c'"
      "failed_reloads P fss c = 0 \<longrightarrow> F = Map.empty" "4 * failed_reloads P fss c \<le> card (dom F)"
      using reloads unfolding Inr by (auto elim!: refinesE simp: reloads_rel_def)
    then show ?thesis
      using m(1) by (intro exI [of _ n'] exI [of _ m'] exI [of _ F] | simp add: start Inr andthen_def)+
  qed
qed

text \<open>The files after they were removed: a reload then fails.\<close>

definition gone_fs :: wsp_state where
  "gone_fs = conf_fs\<lparr>fs_files := (\<lambda>_. None), fs_dirs := (\<lambda>_. False)\<rparr>"

theorem configuration_memory_witness:
  "\<exists>a m n F c. andthen (main_conf_mem tiny_platform conf_fs ''/e'' ''/s'' [])
       (conf_reloads_mem tiny_platform [conf_fs, gone_fs]) empty_mem = Inr (a, m) \<and>
     holds F m n c \<and> line_receiver_port c = 2004 \<and> 4 \<le> card (dom F)"
proof -
  let ?c0 = "default_conf ''/e'' ''/s''"
  define c where "c = (settings two_settings ?c0)\<lparr>schema := map schema_entry [tiny_entry], aggregation := agg_entries 0 two_stanzas\<rparr>"
  have start: "main_start tiny_platform conf_fs ''/e'' ''/s'' [] = Inr (c, new_daemon conf_fs)"
    using main_start_files [OF conf_fs_files tiny_alloc _ refl, of "[]"] by (simp add: c_def)
  have files: "conf_files tiny_platform conf_fs c' two_settings [tiny_entry] two_stanzas"
    if "conf_file c' = conf_file c" for c'
    using conf_fs_files by (rule conf_files_cong) (simp_all add: c_def that settings_def two_settings_def)
  obtain d where d: "conf_parse tiny_platform conf_fs (conf_copy c) = Inr (0, d)" "line_receiver_port d = 2004"
    using conf_parse_read_back [OF files tiny_alloc, of "conf_copy c"]
    by (auto simp: conf_copy_def settings_def two_settings_def)
  have gone: "conf_parse tiny_platform gone_fs (conf_copy d) = Inr (1, conf_copy d)"
    by (simp add: conf_parse_def conf_parse_carbon_file_def fopen_read_def gone_fs_def Let_def)
  have "conf_reloads tiny_platform [conf_fs, gone_fs] c = Inr d" "failed_reloads tiny_platform [conf_fs, gone_fs] c = 1"
    using d(1) gone by (simp_all add: conf_reload_def)
  moreover have "path_fits (''/e'' @ ''/carbon.conf'')" "path_fits ''/s''" by (simp_all add: path_fits_def)
  ultimately obtain n m F where "andthen (main_conf_mem tiny_platform conf_fs ''/e'' ''/s'' [])
      (conf_reloads_mem tiny_platform [conf_fs, gone_fs]) empty_mem = Inr (cn_addr n, m)" "holds F m n d" "4 * 1 \<le> card (dom F)"
    using configuration_memory [OF tiny_alloc, of "[]" "''/e''" "''/s''" conf_fs "[conf_fs, gone_fs]"]
    by (auto simp only: start bind_sum_simps prod.case sum.case empty_subsetI list.set)
  then show ?thesis using d(2) by fastforce
qed

end
