(* ===== verification/Spec2Isabelle.thy ===== *)
theory Spec2Isabelle
  imports Whisper_Properties Store_Properties Control_Properties Process_Properties Memory_Properties
begin

text \<open>
  A verification of \<^bold>\<open>carbond\<close>, a daemon in C that receives samples of metrics over UDP and
  TCP, keeps them in memory and writes them to whisper files, the round-robin files of
  Graphite. All sources named here are under \<open>src/src\<close>.

  \<^bold>\<open>The program.\<close> Four threads run beside \<open>main\<close>. The receivers (\<open>receiver_udp.c\<close>,
  \<open>receiver_tcp.c\<close>) pass messages to the line protocol (\<open>protocol.c\<close>), which stores each sample
  in the database (\<open>database.c\<close>), a linked list of metrics with linked lists of points. The
  writer (\<open>writer.c\<close>) takes the metric with the most points and hands them to the storage
  engine (\<open>whisper.c\<close>), which creates the file of a metric on demand, writes a point into the
  ring of the first archive and propagates aggregates to the archives of lower precision.
  The monitoring (\<open>monitoring.c\<close>) stores the number of written points as a metric once a
  second. Retentions and aggregations come from configuration files (\<open>conf.c\<close>); a SIGHUP reads
  them again while all workers are paused (\<open>threads.c\<close>, \<open>main.c\<close>).

  \<^bold>\<open>Foundations.\<close>
  \<^item> \<open>Carbon_Prelude\<close>: words, byte images of memory, and \<open>('s, 'a) prog\<close>, a computation on a
    state that ends with a value or with a \<open>stop\<close>. A stop is either a call of \<open>exit\<close> or a
    step that C leaves undefined (a null or dangling pointer, a buffer that is overrun, a
    division by zero, a read of memory that was never written) or a failed assertion.
  \<^item> \<open>C_Float\<close>: IEEE 754 single and double precision on their bits: conversion, sum and
    quotient with rounding to the nearest, comparison.
  \<^item> \<open>C_String\<close>: the functions of the C library that the sources call on strings (\<open>strtok_r\<close>,
    \<open>strncmp\<close>, \<open>strtoul\<close>, \<open>strtol\<close>, \<open>strtod\<close>, \<open>fgets\<close>, the conversions of \<open>sscanf\<close>).
  \<^item> \<open>Posix_Files\<close>: files, directories, descriptors and their calls, with a script of faults.
  \<^item> \<open>Linked_List\<close>: linked lists with head and tail in a heap (locale \<open>linked\<close>).
  \<^item> \<open>Common\<close>: the structures of \<open>common.h\<close>, and the record \<open>platform\<close> of what is outside the
    sources: byte order, the room the allocator gives, and the PCRE library. The
    hypothesis \<open>allocator_ok\<close> says that a block has at least the size that was asked for.

  \<^bold>\<open>Storage\<close> (\<open>whisper.c\<close>).
  \<^item> \<open>Whisper_Format\<close>: headers and points as bytes (locale \<open>byte_codec\<close>), sizes.
  \<^item> \<open>Whisper_Create\<close>: seek and read, choice by pattern (locale \<open>first_match\<close>), file names,
    directories, \<open>whisper_create_file\<close>. \<open>Whisper_Layout\<close>: the bytes of a new file.
  \<^item> \<open>Whisper_Write\<close>: aggregation, \<open>whisper_write_point\<close>, \<open>whisper_write_propagate\<close>,
    \<open>whisper_write_value\<close>. \<open>Whisper_Ring\<close>: an archive as a ring of points, and that writing a
    point refines writing to the ring. \<open>Whisper_Propagate\<close>: the window that a propagation
    reads, when it is right, when it overruns its buffer and when the code looks for it in an
    unrelated slot. \<open>Whisper_Value\<close>: a whole update
    refines a function on the rings of the file.
  \<^item> \<open>Whisper_Print\<close>: \<open>whisper_print_file\<close>, which reads a whole file back.
  \<^item> \<open>Whisper_Faults\<close>: what a call can change when any of its system calls may fail (locale
    \<open>frame\<close>, interpreted for the file of a descriptor and for the directories on a path).
  \<^item> \<open>Whisper_Sample\<close>: a concrete platform, configuration and file.
  \<^item> \<open>Whisper_Properties\<close>: the theorems on the storage.

  \<^bold>\<open>Samples in memory.\<close>
  \<^item> \<open>Database\<close>: the heap, its invariant \<open>db_inv\<close> and its abstraction \<open>db_abs\<close>, a list of names with
    points; the locale \<open>metric_store\<close> is the contract that receivers and monitoring rely on,
    interpreted for the heap alone and with the files held fixed.
  \<^item> \<open>Protocol\<close>, \<open>Receivers\<close>, \<open>Monitoring\<close>, \<open>Writer\<close>: the operations of the sources of these names.
    A turn of a worker is a function of what its system calls returned.
    \<open>Protocol_Text\<close>: printing in the line protocol, and reading back.
  \<^item> \<open>Writer_Race\<close>: the writer in steps, interleaved with stores by an explicit schedule.
  \<^item> \<open>Workers\<close>: the loops of the four workers and the daemon as any sequence of their turns.
  \<^item> \<open>Sockets\<close>: set-up of the sockets of the receivers. \<open>Log\<close>: the log.
  \<^item> \<open>Store_Properties\<close>: the theorems on database, receivers, monitoring and writer.

  \<^bold>\<open>Configuration and control.\<close>
  \<^item> \<open>Conf\<close>: the parsers of the three files. \<open>Conf_Text\<close>, \<open>Conf_Aggregation\<close> and \<open>Conf_Carbon\<close>: the
    text of the files, and that the parsers read it back, each one and all three together.
  \<^item> \<open>Conf_Memory\<close>: the configuration as blocks of a heap, with what each block owns, for
    \<open>conf_copy\<close> and \<open>conf_free\<close>; the locale \<open>freed_entries\<close> is the contract of the loops that free
    a list. \<open>Conf_Append\<close>: adding an aggregation to the linked list refines appending to
    the list of the configuration.
  \<^item> \<open>Conf_Heap\<close>: what it means that a program on the heap refines an operation on values
    (\<open>refines\<close>, with a rule for each construct), that a memory is a configuration and a given
    rest (\<open>holds\<close>), and the parser of the retentions. \<open>Conf_Heap_Schema\<close>: the loop over the lines and
    the parser of the schemas. \<open>Conf_Heap_Parse\<close>: the parsers of the aggregations and of the
    settings. \<open>Conf_Heap_Reload\<close>: \<open>conf_parse\<close> and \<open>conf_reload\<close>, once and any number of times.
    \<open>Conf_Heap_Start\<close>: the defaults, the command line and the files at the start. Each of them
    refines the operation of the same name in \<open>Conf\<close> or \<open>Daemon\<close>, stops included.
  \<^item> \<open>Threads\<close>: the pause protocol as a step relation of four workers and the main thread, with
    its invariant by rule induction, and which runs end.
  \<^item> \<open>Daemon\<close>: defaults, command line, start and reload. \<open>Conf_Bounds\<close>: the invariant of the strings of
    a configuration, kept by all parsers and reloads. \<open>Conf_Print\<close>: the functions that print.
  \<^item> \<open>Launch\<close>: the launch of the threads and the signals they block; its result is the initial state
    of \<open>Threads\<close>.
  \<^item> \<open>Control_Properties\<close>: the theorems on configuration, pauses and reload.
  \<^item> \<open>Process_Properties\<close>: the theorems on the start of the daemon and on calls that fail.
  \<^item> \<open>Memory_Properties\<close>: the theorems on the configuration in memory.

  \<^bold>\<open>What is shown.\<close> The way of a sample from the socket to its slot in the file is proved in one
  piece below, over the refinement of each stage: the receiver appends to the abstract
  database, the writer drains its largest metric in order, and the storage updates the
  rings. For any sequence of turns of the four workers, the points of each metric are
  handed to the storage in the order they came, and none is left out, unless the process stops in a
  write or at a message that does not parse. New files have the layout that the configuration asks for, files are read back as
  they were written on either byte order, configuration files and messages are parsed back
  from their printed form (the daemon starts with exactly the configuration of its files,
  and a reload of the same files changes nothing), the start and every reload that can parse its files leave exactly the blocks of the
  current configuration on the heap, and one that cannot leaves a second configuration behind,
  configurations stay well formed whatever the files hold, the exchange of the
  configuration is exclusive, and reloads and
  the end of the daemon can always be reached when no worker has ended too early. Further
  theorems state where the code does something else than it means to: windows that go over the
  end of a ring in a propagation, metrics without a schema, blank lines and long names in messages, patterns of
  some lengths, stores that meet the writer at the same metric, reloads after the end of a
  worker, and interrupts during a reload.

  \<^bold>\<open>Bounds and fuel.\<close> Walks over linked lists take the number of allocated objects as fuel and
  stop with \<open>Endless\<close> when it is used up; under \<open>db_inv\<close>, or \<open>owned\<close> for the blocks of a
  configuration, a list is not longer than that, and the walks are proved to end with their
  result. All other loops are recursive functions that
  terminate. The theorems on the content of files assume that no call fails (the script of faults is
  empty); those on what a write may touch hold for every script. They also assume that a file is shorter than \<open>2 ^ 31\<close> bytes, as the offsets of the code are 32-bit. The rings
  take the distance of two timestamps as the code does, as a difference of 32 bits that wraps around
  (\<open>ring_distance\<close>), so that the refinement covers points and windows before the one in the first slot; \<open>update_ready\<close>
  leaves out the updates with a propagation whose window goes over the end of its ring from the slot where the code looks for it,
  or whose reads overrun their buffer, and distances that do not fit 32 bits in bytes (they do when there are
  at least 12 seconds to a point). Counters of points wrap at \<open>2 ^ 32\<close>; \<open>counts_fit\<close> excludes that.

  \<^bold>\<open>Not modelled.\<close> Messages to the log inside the other parts; where the workers and the
  writer use a configuration, it is a value; the end of \<open>main\<close>, which frees the block of the
  configuration but not what it points to; the initialisation of
  mutexes and what \<open>pthread_join\<close> does with a thread that was not started, which the standard leaves
  open; the content of messages that the kernel delivers, which is an argument; the port that the kernel chooses when a
  receiver binds port 0; the time a sleeping monitoring thread needs to wake up; the missing end of the table of
  long options, which \<open>getopt_long\<close> meets only for an option that it does not know. A block is overrun when a write
  leaves the room that the allocator gave it, which may be more than was asked for. A read of a
  block that was never written stops at the conversion that failed to write it. The memory
  model of the processor: the steps of the threads are atomic and in order.
\<close>

section \<open>From the socket to the file\<close>

lemma pending_zero_entries: "pending db = 0 \<Longrightarrow> (m, ps) \<in> set db \<Longrightarrow> ps = []"
  by (auto simp: pending_def)

lemma counts_fit_record:
  "pending db = 0 \<Longrightarrow> counts_fit (record_point n p db)"
  by (induction n p db rule: record_point.induct) (auto simp: pending_def counts_fit_def)

lemma pending_drained:
  assumes "pending db = 0"
  shows "pending (drain n (record_point n p db)) = 0"
  using assms by (induction n p db rule: record_point.induct) (auto simp: pending_def drain_def)

text \<open>C2: the way of a sample through the daemon, when nothing else is under way: no point waits in the
  database, a message with exactly one line comes, for a metric whose file exists and is well formed, no
  system call fails and the name fits its buffers. The receiver then stores the sample, the next
  turn of the writer takes it, the rings of the file are those of the abstract update, no
  other file changes and no point waits any more. The hypothesis \<open>update_ready\<close> leaves out propagations from
  windows that go over the end of their ring from the slot where the code looks for them, that overrun their
  buffer, or whose distance does not fit 32 bits.\<close>

theorem sample_reaches_file:
  assumes "db_inv s" "pending (db_abs s) = 0" "length mesg < 65535"
    and "tokens [CHR 0x0A] (cstr mesg) = [l]" "line_ok P l" "sample_of P l = (name, ts, v)"
    and "metric_ready P cf name (io s)" "allocator_ok P"
    and "fs_files (io s) (metric_path cf name) = Some c" "\<not> fs_dirs (io s) (metric_path cf name)"
    and "wsp_file (host P) md as c" "update_ready md as ts v (rings_of (host P) as c)"
    and "update_rings md as ts v (rings_of (host P) as c) = (rs, k)"
  shows "\<exists>s1 s2 c'. receiver_udp_turn P (Received mesg) s = Inr ((), s1) \<and>
    writer_turn P cf s1 = Inr (True, s2) \<and> db_inv s2 \<and> pending (db_abs s2) = 0 \<and>
    fs_files (io s2) = (fs_files (io s))(metric_path cf name \<mapsto> c') \<and>
    wsp_file (host P) md as c' \<and> rings_of (host P) as c' = rs"
proof -
  let ?db = "record_point name (ts, v) (db_abs s)"
  obtain s1 where s1: "process_mesg P 65535 mesg s = Inr ((), s1)" "db_inv s1" "io s1 = io s" "db_abs s1 = ?db"
    using process_mesg_refines [OF assms(1,3), of P] assms(4-6) by (auto simp: record_all_def)
  have only: "points_of n ?db = (if n = name then [(ts, v)] else [])" for n
    using pending_zero [OF assms(2)] by simp
  obtain c' s' where w: "whisper_write_value P cf name ts v (io s) = Inr (0, s')"
    "stored (metric_path cf name) c' k (io s) s'" "wsp_file (host P) md as c'" "rings_of (host P) as c' = rs"
    by (rule write_value_existing [OF assms(7-13)])
  then have all: "write_all P cf name [(ts, v)] (io s1) = Inr ((), s')"
    by (simp add: s1(3) andthen_def ret_def)
  have fit: "counts_fit (db_abs s1)" using counts_fit_record [OF assms(2)] s1(4) by simp
  have "pending (db_abs s1) \<noteq> 0" by (simp add: s1(4))
  with writer_turn_refines [OF s1(2) fit, of P cf] obtain n where n: "points_of n (db_abs s1) \<noteq> []"
    "case write_all P cf n (points_of n (db_abs s1)) (io s1) of
          Inl e \<Rightarrow> writer_turn P cf s1 = Inl e
        | Inr (_, i) \<Rightarrow> \<exists>s'. writer_turn P cf s1 = Inr (True, s') \<and> db_inv s' \<and>
            db_abs s' = drain n (db_abs s1) \<and> io s' = i"
    by blast
  then have "n = name" using only [of n] by (simp add: s1(4) split: if_splits)
  with n(2) only [of name] all obtain s2 where s2: "writer_turn P cf s1 = Inr (True, s2)" "db_inv s2"
    "db_abs s2 = drain name ?db" "io s2 = s'"
    by (auto simp: s1(4))
  have "pending (db_abs s2) = 0" unfolding s2(3) by (rule pending_drained [OF assms(2)])
  then show ?thesis
    using s1(1) s2(1,2,4) w(2-4) by (auto simp: receiver_udp_turn_def stored_def)
qed

text \<open>C5: the four workers take turns in any order, whatever their system calls return, whatever the messages
  hold and whatever the configuration is at each turn of the writer. When the turns end, the points of every metric
  that were handed to the storage followed by those that still wait are the points that waited
  before followed by those that arrived: nothing is lost, doubled or exchanged. The files
  are what these writes make of them. The process can stop in two ways only: in a write, and what was
  handed on by then is the beginning of that sequence; or at a message with a line that does not parse or
  that fills the buffer, and up to there everything was handed on as above. The turns
  do not overlap, and the counters of points do not reach \<open>2 ^ 32\<close>.\<close>

theorem schedule_fifo:
  assumes "db_inv s" "pending (db_abs s) + (\<Sum>t\<leftarrow>ts. turn_size t) < 2 ^ 32"
  shows "(\<exists>es s'. run_turns P ts s = Inr ((), s') \<and> db_inv s' \<and> replay P es (io s) = Inr ((), io s') \<and>
      (\<forall>n. written n es @ points_of n (db_abs s') = points_of n (db_abs s) @ of_metric n (all_arrivals P ts s))) \<or>
    (\<exists>es e. run_turns P ts s = Inl e \<and> replay P es (io s) = Inl e \<and>
      (\<forall>n. prefix (written n es) (points_of n (db_abs s) @ of_metric n (all_arrivals P ts s)))) \<or>
    (\<exists>before t after es s' e. ts = before @ t # after \<and> \<not> turn_ok P t \<and>
      e \<in> {UninitRead, HeapOverflow, StackOverflow} \<and> run_turns P ts s = Inl e \<and>
      run_turns P before s = Inr ((), s') \<and> replay P es (io s) = Inr ((), io s') \<and>
      (\<forall>n. written n es @ points_of n (db_abs s') = points_of n (db_abs s) @ of_metric n (all_arrivals P before s)))"
  by (rule any_schedule_hands_on [OF assms, of P]; unfold begins_with_def hands_on_def; blast)

definition ready_daemon :: daemon where
  "ready_daemon = empty_daemon\<lparr>io := sample_filled\<rparr>"

lemma ready_daemon_inv: "db_inv ready_daemon" "db_abs ready_daemon = []" "pending (db_abs ready_daemon) = 0"
  using empty_daemon_inv by (simp_all add: ready_daemon_def db_abs_io pending_def)

definition line_45 :: string where
  "line_45 = ''a.b 7 45''"

lemma line_45_tokens: "tokens [CHR 0x0A] (cstr line_45) = [line_45]"
proof -
  have "cstr line_45 = line_45" by (simp add: cstr_def line_45_def)
  then show ?thesis using tokens_join [of "[line_45]" "[CHR 0x0A]" "CHR 0x0A"] by (simp add: line_45_def)
qed

lemma line_45_scan: "\<exists>v. sample_of sample_platform line_45 = (''a.b'', 45, v)" "line_ok sample_platform line_45"
proof -
  have "\<exists>v. scan_lf '' 7 45'' = Some (v, '' 45'')"
    by (simp add: scan_lf_def isspace_def strip_sign_def float_item_def tolower_def starts_ci_def
        isdigit_def char_code_def strtod_opt_def float_body_def decimal_body_def mantissa_def Let_def)
  moreover have "scan_u '' 45'' = Some 45"
    by (simp add: scan_u_def isspace_def strip_sign_def isdigit_def char_code_def strtoul10_def
        base_value_def digit_value_def)
  moreover have "scan_s line_45 = Some (''a.b'', '' 7 45'')"
    by (simp add: scan_s_def line_45_def isspace_def)
  ultimately obtain v where "scan_metric_line sample_platform line_45 = Inr (''a.b'', v, 45)"
    by (auto simp: scan_metric_line_def sample_platform_def glibc_usable_def)
  then show "\<exists>v. sample_of sample_platform line_45 = (''a.b'', 45, v)" "line_ok sample_platform line_45"
    by (simp_all add: sample_of_def line_ok_def)
qed

theorem sample_reaches_file_witness:
  "\<exists>s1 s2 c' v. receiver_udp_turn sample_platform (Received line_45) ready_daemon = Inr ((), s1) \<and>
    writer_turn sample_platform sample_conf s1 = Inr (True, s2) \<and>
    fs_files (io s2) = (fs_files sample_filled)(metric_path sample_conf ''a.b'' \<mapsto> c') \<and>
    rings_of (host sample_platform) (layout sample_rets) c' =
      [(empty_ring 60)[0 := \<lparr>pt_timestamp = 30, pt_value = double_of_nat 3\<rparr>, Suc 0 := \<lparr>pt_timestamp = 40, pt_value = v\<rparr>],
       (empty_ring 60)[0 := \<lparr>pt_timestamp = 40, pt_value =
          whisper_aggregate_values [double_of_nat 3, v] 2 (agg_code AGG_TYPE_SUM)\<rparr>]]"
proof -
  obtain v where v: "sample_of sample_platform line_45 = (''a.b'', 45, v)" using line_45_scan(1) by blast
  have io: "io ready_daemon = sample_filled" by (simp add: ready_daemon_def)
  have len: "length line_45 < 65535" by (simp add: line_45_def)
  note run = sample_reaches_file [OF ready_daemon_inv(1,3) len line_45_tokens line_45_scan(2) v, unfolded io,
      OF filled_ready sample_alloc filled_files filled_wsp(1), unfolded filled_wsp(2), OF filled_update [of v]]
  show ?thesis
    using run by blast
qed

definition sample_turns :: "turn list" where
  "sample_turns = [Udp_turn (Received line_45), Tcp_turn (AcceptError EOTHER), Writer_turn sample_conf]"

theorem schedule_fifo_witness:
  "\<exists>v. (\<exists>e. run_turns sample_platform sample_turns ready_daemon = Inl e) \<or>
     (\<exists>es s'. run_turns sample_platform sample_turns ready_daemon = Inr ((), s') \<and>
        written ''a.b'' es @ points_of ''a.b'' (db_abs s') = [(45, v)])"
proof -
  obtain v where v: "sample_of sample_platform line_45 = (''a.b'', 45, v)" using line_45_scan(1) by blast
  have "pending (db_abs ready_daemon) + (\<Sum>t\<leftarrow>sample_turns. turn_size t) < 2 ^ 32"
    by (simp add: ready_daemon_inv(3) sample_turns_def line_45_tokens)
  note fifo = schedule_fifo [OF ready_daemon_inv(1) this, of sample_platform]
  have ok: "\<forall>t\<in>set sample_turns. turn_ok sample_platform t"
    using line_45_scan(2) by (auto simp: sample_turns_def message_ok_def line_45_tokens) (simp add: line_45_def)
  have arrived: "all_arrivals sample_platform sample_turns ready_daemon = [(''a.b'', 45, v)]"
    by (auto simp: sample_turns_def message_samples_def line_45_tokens v split: sum.splits)
  have points: "points_of ''a.b'' (db_abs ready_daemon) @ of_metric ''a.b'' [(''a.b'', 45, v)] = [(45, v)]"
    by (simp add: ready_daemon_inv(2) of_metric_def points_of_def)
  from fifo show ?thesis
  proof (elim disjE exE conjE)
    fix es s'
    assume "run_turns sample_platform sample_turns ready_daemon = Inr ((), s')"
      "\<forall>n. written n es @ points_of n (db_abs s') = points_of n (db_abs ready_daemon) @
        of_metric n (all_arrivals sample_platform sample_turns ready_daemon)"
    then show ?thesis using points unfolding arrived by metis
  next
    fix before t after
    assume bad: "sample_turns = before @ t # after" "\<not> turn_ok sample_platform t"
    have "t \<in> set sample_turns" unfolding bad(1) by simp
    then show ?thesis using ok bad(2) by blast
  qed blast
qed

end
